(* ===== verification/Prelude.thy ===== *)
theory Prelude
  imports Complex_Main
begin

text \<open>
  What every component shares: the JavaScript values that the program passes around
  untyped, the library functions of the language that several components call (string
  comparison, \<open>join\<close>, \<open>String\<close>, \<open>JSON.stringify\<close>, the stable \<open>Array.prototype.sort\<close>), the
  named collections of facts, and the generic lemmas on lists and maps that carry the
  component proofs.

  Conventions. A JavaScript string is a \<open>string\<close>, one \<open>char\<close> per UTF-16 code unit (code
  units above 255 have no counterpart). A number that is calculated with is exact: a \<open>rat\<close>
  where the code divides, an \<open>int\<close> or a \<open>nat\<close> where it counts; \<open>NaN\<close> is \<open>None\<close> of an option
  type. An object used as a dictionary is a map of its own keys.
\<close>

named_theorems js_defs \<open>definitions of the library functions of the language\<close>
named_theorems state_simps \<open>equations that read a field of an updated state\<close>

section \<open>Untyped values\<close>

text \<open>
  A value of type \<open>unknown\<close>. A number is kept as the text \<open>String(n)\<close> gives for it: the
  program only compares such values and prints them, and two numbers print alike exactly
  when \<open>JSON.stringify\<close> cannot tell them apart.
\<close>

datatype jsval =
    JUndefined
  | JNull
  | JBool bool
  | JNum string
  | JStr string
  | JArr "jsval list"
  | JObj "(string \<times> jsval) list"

fun nullish :: "jsval \<Rightarrow> bool" where
  "nullish JUndefined = True"
| "nullish JNull = True"
| "nullish _ = False"

text \<open>\<open>a ?? b\<close>.\<close>

definition coalesce :: "jsval \<Rightarrow> jsval \<Rightarrow> jsval" where
  "coalesce a b = (if nullish a then b else a)"

fun join :: "string \<Rightarrow> string list \<Rightarrow> string" where
  "join sep [] = []"
| "join sep [x] = x"
| "join sep (x # y # ys) = x @ sep @ join sep (y # ys)"

text \<open>\<open>String(v)\<close>; an array prints its elements with commas, nullish ones as nothing.\<close>

fun js_String :: "jsval \<Rightarrow> string" where
  "js_String JUndefined = ''undefined''"
| "js_String JNull = ''null''"
| "js_String (JBool b) = (if b then ''true'' else ''false'')"
| "js_String (JNum n) = n"
| "js_String (JStr s) = s"
| "js_String (JArr xs) = join '','' (map (\<lambda>x. if nullish x then [] else js_String x) xs)"
| "js_String (JObj kvs) = ''[object Object]''"

definition hex_digit :: "nat \<Rightarrow> char" where
  "hex_digit n = (if n < 10 then char_of (n + 48) else char_of (n + 87))"

definition escape_char :: "char \<Rightarrow> string" where
  "escape_char c = (let n = (of_char c :: nat) in
     if n = 34 then [CHR 0x5C, CHR 0x22]
     else if n = 92 then [CHR 0x5C, CHR 0x5C]
     else if n = 8 then [CHR 0x5C, CHR ''b'']
     else if n = 9 then [CHR 0x5C, CHR ''t'']
     else if n = 10 then [CHR 0x5C, CHR ''n'']
     else if n = 12 then [CHR 0x5C, CHR ''f'']
     else if n = 13 then [CHR 0x5C, CHR ''r'']
     else if n < 32 then [CHR 0x5C, CHR ''u'', CHR ''0'', CHR ''0'', hex_digit (n div 16), hex_digit (n mod 16)]
     else [c])"

definition quote_string :: "string \<Rightarrow> string" where
  "quote_string s = [CHR 0x22] @ concat (map escape_char s) @ [CHR 0x22]"

text \<open>\<open>JSON.stringify(v)\<close>: \<open>None\<close> is \<open>undefined\<close>.\<close>

fun stringify :: "jsval \<Rightarrow> string option" where
  "stringify JUndefined = None"
| "stringify JNull = Some ''null''"
| "stringify (JBool b) = Some (if b then ''true'' else ''false'')"
| "stringify (JNum n) = Some n"
| "stringify (JStr s) = Some (quote_string s)"
| "stringify (JArr xs) =
     Some (''['' @ join '','' (map (\<lambda>x. case stringify x of None \<Rightarrow> ''null'' | Some t \<Rightarrow> t) xs) @ '']'')"
| "stringify (JObj kvs) =
     Some (''{'' @ join '','' (concat (map (\<lambda>kv. case stringify (snd kv) of None \<Rightarrow> []
        | Some t \<Rightarrow> [quote_string (fst kv) @ '':'' @ t]) kvs)) @ ''}'')"

section \<open>Strings\<close>

text \<open>\<open>a < b\<close> on strings: lexicographic on code units.\<close>

fun str_less :: "string \<Rightarrow> string \<Rightarrow> bool" where
  "str_less _ [] = False"
| "str_less [] (_ # _) = True"
| "str_less (a # as) (b # bs) =
     ((of_char a :: nat) < of_char b \<or> a = b \<and> str_less as bs)"

lemma str_less_irrefl [simp]: "\<not> str_less a a"
  by (induction a) auto

lemma str_less_trans: "str_less a b \<Longrightarrow> str_less b c \<Longrightarrow> str_less a c"
proof (induction a b arbitrary: c rule: str_less.induct)
  case (2 v va)
  then show ?case by (cases c) auto
next
  case (3 a as b bs)
  then show ?case by (cases c) auto
qed simp

lemma str_less_total: "str_less a b \<or> a = b \<or> str_less b a"
proof (induction a b rule: str_less.induct)
  case (1 a)
  then show ?case by (cases a) auto
next
  case (3 a as b bs)
  then show ?case using linorder_less_linear [of "of_char a :: nat" "of_char b"] by auto
qed simp

lemma str_less_asym: "str_less a b \<Longrightarrow> \<not> str_less b a"
  using str_less_trans [of a b a] by auto

fun starts_with :: "string \<Rightarrow> string \<Rightarrow> bool" where
  "starts_with s [] = True"
| "starts_with [] (_ # _) = False"
| "starts_with (c # cs) (d # ds) = (c = d \<and> starts_with cs ds)"

lemma starts_with_append [simp]: "starts_with (p @ s) p"
  by (induction p) auto

lemma starts_with_iff: "starts_with s p \<longleftrightarrow> (\<exists>t. s = p @ t)"
  by (induction s p rule: starts_with.induct) auto

text \<open>\<open>s.split(sep)\<close> for a separator of one character; never empty.\<close>

fun split_on :: "char \<Rightarrow> string \<Rightarrow> string list" where
  "split_on sep [] = [[]]"
| "split_on sep (c # cs) =
     (if c = sep then [] # split_on sep cs
      else (case split_on sep cs of [] \<Rightarrow> [[c]] | p # ps \<Rightarrow> (c # p) # ps))"

lemma split_on_nonempty [simp]: "split_on sep s \<noteq> []"
  by (cases s) (auto split: list.splits)

lemma join_split_on: "join [sep] (split_on sep s) = s"
proof (induction s)
  case (Cons c cs)
  obtain p ps where p: "split_on sep cs = p # ps"
    using split_on_nonempty [of sep cs] by (cases "split_on sep cs") auto
  then show ?case using Cons by (cases ps) auto
qed simp

lemma split_on_no_sep: "sep \<notin> set s \<Longrightarrow> split_on sep s = [s]"
  by (induction s) auto

lemma split_on_append: "sep \<notin> set p \<Longrightarrow> split_on sep (p @ sep # s) = p # split_on sep s"
  by (induction p) auto

lemma split_on_join:
  "ps \<noteq> [] \<Longrightarrow> \<forall>p \<in> set ps. sep \<notin> set p \<Longrightarrow> split_on sep (join [sep] ps) = ps"
  by (induction "[sep]" ps rule: join.induct) (auto simp: split_on_no_sep split_on_append)

definition is_upper :: "char \<Rightarrow> bool" where
  "is_upper c = (65 \<le> (of_char c :: nat) \<and> of_char c \<le> (90 :: nat))"

definition is_lower :: "char \<Rightarrow> bool" where
  "is_lower c = (97 \<le> (of_char c :: nat) \<and> of_char c \<le> (122 :: nat))"

definition is_digit :: "char \<Rightarrow> bool" where
  "is_digit c = (48 \<le> (of_char c :: nat) \<and> of_char c \<le> (57 :: nat))"

definition to_lower :: "char \<Rightarrow> char" where
  "to_lower c = (if is_upper c then char_of ((of_char c :: nat) + 32) else c)"

definition to_upper :: "char \<Rightarrow> char" where
  "to_upper c = (if is_lower c then char_of ((of_char c :: nat) - 32) else c)"

text \<open>The same tests on the bits of a character, for evaluation.\<close>

lemma is_upper_bits [code]:
  "is_upper (Char b0 b1 b2 b3 b4 b5 b6 b7) = (\<not> b7 \<and> b6 \<and> \<not> b5 \<and> (b0 \<or> b1 \<or> b2 \<or> b3 \<or> b4) \<and> \<not> (b4 \<and> b3 \<and> (b2 \<or> b1 \<and> b0)))"
  by (cases b0; cases b1; cases b2; cases b3; cases b4; cases b5; cases b6; cases b7; simp add: is_upper_def)
lemma is_lower_bits [code]:
  "is_lower (Char b0 b1 b2 b3 b4 b5 b6 b7) = (\<not> b7 \<and> b6 \<and> b5 \<and> (b0 \<or> b1 \<or> b2 \<or> b3 \<or> b4) \<and> \<not> (b4 \<and> b3 \<and> (b2 \<or> b1 \<and> b0)))"
  by (cases b0; cases b1; cases b2; cases b3; cases b4; cases b5; cases b6; cases b7; simp add: is_lower_def)
lemma is_digit_bits [code]:
  "is_digit (Char b0 b1 b2 b3 b4 b5 b6 b7) = (\<not> b7 \<and> \<not> b6 \<and> b5 \<and> b4 \<and> (\<not> b3 \<or> \<not> b2 \<and> \<not> b1))"
  by (cases b0; cases b1; cases b2; cases b3; cases b4; cases b5; cases b6; cases b7; simp add: is_digit_def)
lemma to_upper_bits [code]:
  "to_upper (Char b0 b1 b2 b3 b4 b5 b6 b7) = (if is_lower (Char b0 b1 b2 b3 b4 b5 b6 b7)
     then Char b0 b1 b2 b3 b4 False b6 b7 else Char b0 b1 b2 b3 b4 b5 b6 b7)"
  by (cases b0; cases b1; cases b2; cases b3; cases b4; cases b5; cases b6; cases b7; simp add: to_upper_def is_lower_def char_of_def bit_0)
lemma to_lower_bits [code]:
  "to_lower (Char b0 b1 b2 b3 b4 b5 b6 b7) = (if is_upper (Char b0 b1 b2 b3 b4 b5 b6 b7)
     then Char b0 b1 b2 b3 b4 True b6 b7 else Char b0 b1 b2 b3 b4 b5 b6 b7)"
  by (cases b0; cases b1; cases b2; cases b3; cases b4; cases b5; cases b6; cases b7; simp add: to_lower_def is_upper_def char_of_def bit_0)

text \<open>White space of \<open>trim\<close> below code unit 256.\<close>

definition js_space :: "char \<Rightarrow> bool" where
  "js_space c = (let n = (of_char c :: nat) in 9 \<le> n \<and> n \<le> 13 \<or> n = 32 \<or> n = 160)"

definition js_trim :: "string \<Rightarrow> string" where
  "js_trim s = rev (dropWhile js_space (rev (dropWhile js_space s)))"

text \<open>\<open>String(n)\<close> of a natural number.\<close>

fun show_nat :: "nat \<Rightarrow> string" where
  "show_nat n = (if n < 10 then [char_of (48 + n)] else show_nat (n div 10) @ [char_of (48 + n mod 10)])"

declare show_nat.simps [simp del]

section \<open>Sorting\<close>

text \<open>
  \<open>xs.sort(cmp)\<close>: a stable sort. The comparator returns a number, negative when its first
  argument goes first (a comparator that yields \<open>NaN\<close> counts as 0).
\<close>

fun insert_by :: "('a \<Rightarrow> 'a \<Rightarrow> rat) \<Rightarrow> 'a \<Rightarrow> 'a list \<Rightarrow> 'a list" where
  "insert_by cmp x [] = [x]"
| "insert_by cmp x (y # ys) = (if cmp x y \<le> 0 then x # y # ys else y # insert_by cmp x ys)"

fun js_sort :: "('a \<Rightarrow> 'a \<Rightarrow> rat) \<Rightarrow> 'a list \<Rightarrow> 'a list" where
  "js_sort cmp [] = []"
| "js_sort cmp (x # xs) = insert_by cmp x (js_sort cmp xs)"

lemma set_insert_by [simp]: "set (insert_by cmp x ys) = insert x (set ys)"
  by (induction ys) auto

lemma set_js_sort [simp]: "set (js_sort cmp xs) = set xs"
  by (induction xs) auto

lemma length_insert_by [simp]: "length (insert_by cmp x ys) = Suc (length ys)"
  by (induction ys) auto

lemma length_js_sort [simp]: "length (js_sort cmp xs) = length xs"
  by (induction xs) auto

lemma insert_by_nonempty [simp]: "insert_by cmp x ys \<noteq> []"
  by (cases ys) auto

lemma js_sort_Nil_iff [simp]: "js_sort cmp xs = [] \<longleftrightarrow> xs = []"
  by (cases xs) auto

lemma hd_js_sort_in: "xs \<noteq> [] \<Longrightarrow> hd (js_sort cmp xs) \<in> set xs"
  by (metis hd_in_set js_sort_Nil_iff set_js_sort)

lemma hd_insert_by:
  "hd (insert_by cmp x ys) = (if ys = [] \<or> cmp x (hd ys) \<le> 0 then x else hd ys)"
  by (cases ys) auto

text \<open>The first element of a sorted list is minimal when the comparator is an ordering.\<close>

lemma hd_js_sort_min:
  assumes trans: "\<And>a b c. cmp a b \<le> 0 \<Longrightarrow> cmp b c \<le> 0 \<Longrightarrow> cmp a c \<le> 0"
    and total: "\<And>a b. cmp a b \<le> 0 \<or> cmp b a \<le> 0"
  shows "x \<in> set xs \<Longrightarrow> cmp (hd (js_sort cmp xs)) x \<le> 0"
proof (induction xs arbitrary: x)
  case (Cons y ys)
  show ?case
  proof (cases "ys = []")
    case True
    then show ?thesis using Cons.prems total [of y y] by simp
  next
    case False
    let ?h = "hd (js_sort cmp ys)"
    have "cmp y x \<le> 0" if "cmp y ?h \<le> 0"
      using Cons.prems Cons.IH [of x] trans [OF that, of x] total [of y y] by auto
    moreover have "cmp ?h x \<le> 0" if "\<not> cmp y ?h \<le> 0"
      using Cons.prems Cons.IH [of x] that total [of y ?h] by auto
    ultimately show ?thesis using False by (simp add: hd_insert_by)
  qed
qed simp

text \<open>\<open>sort()\<close> without a comparator: by code units.\<close>

definition text_compare :: "string \<Rightarrow> string \<Rightarrow> rat" where
  "text_compare a b = (if str_less a b then -1 else if a = b then 0 else 1)"

lemma text_compare_le: "text_compare a b \<le> 0 \<longleftrightarrow> \<not> str_less b a"
  using str_less_total [of a b] str_less_asym [of a b] by (auto simp: text_compare_def)

text \<open>
  When the comparator orders the elements of a list without ties, the sorted list depends on
  its elements only.
\<close>

lemma insert_by_commute:
  assumes "x = y \<or> \<not> (cmp x y \<le> 0 \<and> cmp y x \<le> 0)" "cmp x y \<le> 0 \<or> cmp y x \<le> 0"
    and "\<And>z. z \<in> set zs \<Longrightarrow> cmp x y \<le> 0 \<Longrightarrow> cmp y z \<le> 0 \<Longrightarrow> cmp x z \<le> 0"
    and "\<And>z. z \<in> set zs \<Longrightarrow> cmp y x \<le> 0 \<Longrightarrow> cmp x z \<le> 0 \<Longrightarrow> cmp y z \<le> 0"
  shows "insert_by cmp x (insert_by cmp y zs) = insert_by cmp y (insert_by cmp x zs)"
  using assms(3,4)
proof (induction zs)
  case Nil
  then show ?case using assms(1,2) by auto
next
  case (Cons z zs)
  have IH: "insert_by cmp x (insert_by cmp y zs) = insert_by cmp y (insert_by cmp x zs)"
    using Cons by simp
  have "cmp x y \<le> 0 \<Longrightarrow> cmp y z \<le> 0 \<Longrightarrow> cmp x z \<le> 0" "cmp y x \<le> 0 \<Longrightarrow> cmp x z \<le> 0 \<Longrightarrow> cmp y z \<le> 0"
    using Cons.prems by auto
  then show ?case using assms(1,2) IH by auto
qed

section \<open>Operations that can fail\<close>

text \<open>
  An awaited call: it acts on a state and ends with a value or with the message of the
  exception it throws (\<open>Inl\<close>), the state it had reached kept.
\<close>

type_synonym ('s, 'r) op = "'s \<Rightarrow> (string + 'r) \<times> 's"

definition op_return :: "'r \<Rightarrow> ('s, 'r) op" where
  "op_return x s = (Inr x, s)"

definition op_bind :: "('s, 'a) op \<Rightarrow> ('a \<Rightarrow> ('s, 'b) op) \<Rightarrow> ('s, 'b) op" where
  "op_bind m f s = (case m s of (Inl e, s') \<Rightarrow> (Inl e, s') | (Inr x, s') \<Rightarrow> f x s')"

text \<open>\<open>try { await m } catch {}\<close>.\<close>

definition op_ignore :: "('s, 'r) op \<Rightarrow> ('s, unit) op" where
  "op_ignore m s = (Inr (), snd (m s))"

lemma op_return_simp [simp]: "op_return x s = (Inr x, s)"
  by (simp add: op_return_def)

lemma op_bind_cases:
  obtains e s' where "m s = (Inl e, s')" "op_bind m f s = (Inl e, s')"
  | x s' where "m s = (Inr x, s')" "op_bind m f s = f x s'"
  by (cases "m s", cases "fst (m s)") (auto simp: op_bind_def)

lemma op_bind_Inr [simp]: "m s = (Inr x, s') \<Longrightarrow> op_bind m f s = f x s'"
  by (simp add: op_bind_def)

lemma op_bind_Inl [simp]: "m s = (Inl e, s') \<Longrightarrow> op_bind m f s = (Inl e, s')"
  by (simp add: op_bind_def)

lemma op_bind_InrE:
  assumes "op_bind m f s = (Inr y, s')"
  obtains x s1 where "m s = (Inr x, s1)" "f x s1 = (Inr y, s')"
  using assms by (auto simp: op_bind_def split: prod.splits sum.splits)

text \<open>What every call preserves, a sequence of calls preserves.\<close>

definition op_keeps :: "('s \<Rightarrow> bool) \<Rightarrow> ('s, 'r) op \<Rightarrow> bool" where
  "op_keeps P m \<longleftrightarrow> (\<forall>s. P s \<longrightarrow> P (snd (m s)))"

lemma op_keeps_return [simp]: "op_keeps P (op_return x)"
  by (simp add: op_keeps_def)

lemma op_keeps_bind: "op_keeps P m \<Longrightarrow> (\<And>x. op_keeps P (f x)) \<Longrightarrow> op_keeps P (op_bind m f)"
  by (auto simp: op_keeps_def op_bind_def split: prod.splits sum.splits)

lemma op_keeps_ignore: "op_keeps P m \<Longrightarrow> op_keeps P (op_ignore m)"
  by (simp add: op_keeps_def op_ignore_def)

lemma op_keepsD: "op_keeps P m \<Longrightarrow> m s = (r, s') \<Longrightarrow> P s \<Longrightarrow> P s'"
  by (auto simp: op_keeps_def dest!: spec [of _ s])

section \<open>Lists\<close>

text \<open>\<open>xs.find(p)\<close> and \<open>xs.findIndex(p)\<close>; \<open>None\<close> is \<open>undefined\<close> and -1.\<close>

fun find_first :: "('a \<Rightarrow> bool) \<Rightarrow> 'a list \<Rightarrow> 'a option" where
  "find_first p [] = None"
| "find_first p (x # xs) = (if p x then Some x else find_first p xs)"

fun find_index :: "('a \<Rightarrow> bool) \<Rightarrow> 'a list \<Rightarrow> nat option" where
  "find_index p [] = None"
| "find_index p (x # xs) = (if p x then Some 0 else map_option Suc (find_index p xs))"

lemma find_first_Some: "find_first p xs = Some x \<Longrightarrow> x \<in> set xs \<and> p x"
  by (induction xs) (auto split: if_splits)

lemma find_first_map_same:
  "(\<And>x. x \<in> set xs \<Longrightarrow> p (f x) = p x) \<Longrightarrow> find_first p (map f xs) = map_option f (find_first p xs)"
  by (induction xs) auto

lemma find_first_None: "find_first p xs = None \<longleftrightarrow> (\<forall>x \<in> set xs. \<not> p x)"
  by (induction xs) auto

lemma find_index_Some: "find_index p xs = Some i \<Longrightarrow> i < length xs \<and> p (xs ! i)"
  by (induction xs arbitrary: i) (auto split: if_splits)

lemma find_index_None: "find_index p xs = None \<longleftrightarrow> (\<forall>x \<in> set xs. \<not> p x)"
  by (induction xs) auto

text \<open>A \<open>Set\<close> filled in order: its elements by first insertion.\<close>

fun set_add :: "'a list \<Rightarrow> 'a \<Rightarrow> 'a list" where
  "set_add s x = (if x \<in> set s then s else s @ [x])"

lemma set_set_add [simp]: "set (set_add s x) = insert x (set s)"
  by auto

lemma distinct_set_add [simp]: "distinct s \<Longrightarrow> distinct (set_add s x)"
  by auto

lemma set_fold_set_add [simp]: "set (fold (\<lambda>x s. set_add s x) xs s) = set s \<union> set xs"
  by (induction xs arbitrary: s) auto

lemma fold_keeps: "(\<And>x st. Q st \<Longrightarrow> Q (f x st)) \<Longrightarrow> Q st \<Longrightarrow> Q (fold f xs st)"
  by (induction xs arbitrary: st) auto

lemma distinct_fold_set_add: "distinct s \<Longrightarrow> distinct (fold (\<lambda>x s. set_add s x) xs s)"
  by (induction xs arbitrary: s) auto

end
