(* ===== verification/Clock.thy ===== *)
theory Clock
  imports Prelude
begin

text \<open>
  Timestamps. Every stored instant is an ISO-8601 UTC string (\<open>toISOString()\<close>), the code
  compares them either as numbers (\<open>new Date(s).getTime()\<close>, here \<open>date_parse\<close>) or directly
  as strings, and relies on the two orders being the same. \<open>date_parse\<close> reads the two forms
  the connectors and the services produce, with and without milliseconds; any other text is
  \<open>NaN\<close>, here \<open>None\<close>.
\<close>

section \<open>Calendar\<close>

definition leap :: "int \<Rightarrow> bool" where
  "leap y = (y mod 4 = 0 \<and> (y mod 100 \<noteq> 0 \<or> y mod 400 = 0))"

text \<open>Days from the epoch to 1 January of a year.\<close>

definition day_from_year :: "int \<Rightarrow> int" where
  "day_from_year y =
     365 * (y - 1970) + (y - 1969) div 4 - (y - 1901) div 100 + (y - 1601) div 400"

definition days_before_month :: "int \<Rightarrow> int \<Rightarrow> int" where
  "days_before_month y m =
     (if m = 1 then 0 else if m = 2 then 31
      else (if leap y then 1 else 0) +
        (if m = 3 then 59 else if m = 4 then 90 else if m = 5 then 120 else if m = 6 then 151
         else if m = 7 then 181 else if m = 8 then 212 else if m = 9 then 243
         else if m = 10 then 273 else if m = 11 then 304 else 334))"

definition days_in_month :: "int \<Rightarrow> int \<Rightarrow> int" where
  "days_in_month y m =
     (if m = 2 then (if leap y then 29 else 28)
      else if m = 4 \<or> m = 6 \<or> m = 9 \<or> m = 11 then 30 else 31)"

definition valid_date :: "int \<Rightarrow> int \<Rightarrow> int \<Rightarrow> bool" where
  "valid_date y m d = (1 \<le> m \<and> m \<le> 12 \<and> 1 \<le> d \<and> d \<le> days_in_month y m)"

definition day_number :: "int \<Rightarrow> int \<Rightarrow> int \<Rightarrow> int" where
  "day_number y m d = day_from_year y + days_before_month y m + d - 1"

definition ms_per_day :: int where "ms_per_day = 86400000"

definition epoch_ms :: "int \<Rightarrow> int \<Rightarrow> int \<Rightarrow> int \<Rightarrow> int \<Rightarrow> int \<Rightarrow> int \<Rightarrow> int" where
  "epoch_ms y m d h mi s ms =
     day_number y m d * ms_per_day + h * 3600000 + mi * 60000 + s * 1000 + ms"

section \<open>Reading\<close>

definition digit_val :: "char \<Rightarrow> int" where
  "digit_val c = int (of_char c) - 48"

definition num_of :: "string \<Rightarrow> int" where
  "num_of ds = foldl (\<lambda>a c. a * 10 + digit_val c) 0 ds"

definition field :: "string \<Rightarrow> nat \<Rightarrow> nat \<Rightarrow> string" where
  "field s i n = take n (drop i s)"

definition iso_shape :: "string \<Rightarrow> bool" where
  "iso_shape s = ((length s = 24 \<and> s ! 19 = CHR ''.'' \<and> list_all is_digit (field s 20 3)
                   \<or> length s = 20)
     \<and> s ! 4 = CHR ''-'' \<and> s ! 7 = CHR ''-'' \<and> s ! 10 = CHR ''T'' \<and> s ! 13 = CHR '':''
     \<and> s ! 16 = CHR '':'' \<and> last s = CHR ''Z''
     \<and> list_all is_digit (field s 0 4) \<and> list_all is_digit (field s 5 2)
     \<and> list_all is_digit (field s 8 2) \<and> list_all is_digit (field s 11 2)
     \<and> list_all is_digit (field s 14 2) \<and> list_all is_digit (field s 17 2))"

definition date_parse :: "string \<Rightarrow> int option" where
  "date_parse s =
     (if iso_shape s then
        let y = num_of (field s 0 4); m = num_of (field s 5 2); d = num_of (field s 8 2);
            h = num_of (field s 11 2); mi = num_of (field s 14 2); sec = num_of (field s 17 2);
            ms = (if length s = 24 then num_of (field s 20 3) else 0)
        in if valid_date y m d \<and> h \<le> 23 \<and> mi \<le> 59 \<and> sec \<le> 59
           then Some (epoch_ms y m d h mi sec ms) else None
      else None)"

text \<open>A string as \<open>toISOString()\<close> writes it: milliseconds always there.\<close>

definition iso_stamp :: "string \<Rightarrow> bool" where
  "iso_stamp s = (length s = 24 \<and> date_parse s \<noteq> None)"

section \<open>Lexical order is chronological\<close>

lemma div_step:
  assumes "0 < (k::int)"
  shows "(x + 1) div k = x div k + (if (x + 1) mod k = 0 then 1 else 0)"
proof -
  have r: "0 \<le> x mod k" "x mod k < k" and x: "x = k * (x div k) + x mod k"
    using assms by auto
  show ?thesis
  proof (cases "x mod k = k - 1")
    case True
    then have e: "x + 1 = k * (x div k + 1)" using x unfolding distrib_left by linarith
    then have "(x + 1) mod k = 0" by simp
    moreover have "(x + 1) div k = x div k + 1" using assms by (subst e) simp
    ultimately show ?thesis by simp
  next
    case False
    then have e: "x + 1 = k * (x div k) + (x mod k + 1)" "x mod k + 1 < k" using r x by auto
    then have "(x + 1) div k = x div k" "(x + 1) mod k = x mod k + 1"
      using r int_div_pos_eq [OF e(1) _ e(2)] int_mod_pos_eq [OF e(1) _ e(2)] by auto
    then show ?thesis using r by simp
  qed
qed

lemma day_from_year_step:
  "day_from_year (y + 1) = day_from_year y + (if leap y then 366 else 365)"
proof -
  have m: "(y - 1968) mod 4 = 0 \<longleftrightarrow> y mod 4 = 0" "(y - 1900) mod 100 = 0 \<longleftrightarrow> y mod 100 = 0"
    "(y - 1600) mod 400 = 0 \<longleftrightarrow> y mod 400 = 0"
    using dvd_add_left_iff [of 4 "-1968" y] dvd_add_left_iff [of 100 "-1900" y]
      dvd_add_left_iff [of 400 "-1600" y] by (simp_all flip: dvd_eq_mod_eq_0)
  have a: "(y - 1968) div 4 = (y - 1969) div 4 + (if y mod 4 = 0 then 1 else 0)"
    using div_step [of 4 "y - 1969"] unfolding m(1) [symmetric] by simp
  have b: "(y - 1900) div 100 = (y - 1901) div 100 + (if y mod 100 = 0 then 1 else 0)"
    using div_step [of 100 "y - 1901"] unfolding m(2) [symmetric] by simp
  have c: "(y - 1600) div 400 = (y - 1601) div 400 + (if y mod 400 = 0 then 1 else 0)"
    using div_step [of 400 "y - 1601"] unfolding m(3) [symmetric] by simp
  have u: "y + 1 - 1970 = (y - 1970) + 1" "y + 1 - 1969 = y - 1968" "y + 1 - 1901 = y - 1900"
    "y + 1 - 1601 = y - 1600" by simp_all
  have d: "y mod 400 = 0 \<longrightarrow> y mod 100 = 0" "y mod 100 = 0 \<longrightarrow> y mod 4 = 0"
    using dvd_trans [of 100 400 y] dvd_trans [of 4 100 y] by (simp_all flip: dvd_eq_mod_eq_0)
  show ?thesis
    unfolding day_from_year_def leap_def u a b c
    by (cases "y mod 4 = 0"; cases "y mod 100 = 0"; cases "y mod 400 = 0")
      (use d in simp_all)
qed

lemma day_from_year_mono: "y < y' \<Longrightarrow> day_from_year y + (if leap y then 366 else 365) \<le> day_from_year y'"
proof (induction "nat (y' - y)" arbitrary: y')
  case (Suc n)
  show ?case
  proof (cases "y' = y + 1")
    case True
    then show ?thesis by (simp add: day_from_year_step)
  next
    case False
    then have "day_from_year y + (if leap y then 366 else 365) \<le> day_from_year (y' - 1)"
      using Suc by (intro Suc.hyps(1)) auto
    also have "\<dots> \<le> day_from_year y'"
      using day_from_year_step [of "y' - 1"] by auto
    finally show ?thesis .
  qed
qed simp

lemma month_cases:
  assumes "1 \<le> m" "m \<le> (12::int)"
  obtains "m = 1" | "m = 2" | "m = 3" | "m = 4" | "m = 5" | "m = 6"
    | "m = 7" | "m = 8" | "m = 9" | "m = 10" | "m = 11" | "m = 12"
proof -
  have "m = 1 \<or> m = 2 \<or> m = 3 \<or> m = 4 \<or> m = 5 \<or> m = 6 \<or> m = 7 \<or> m = 8 \<or> m = 9
    \<or> m = 10 \<or> m = 11 \<or> m = 12" using assms by presburger
  then show thesis using that by blast
qed

lemma month_step:
  "1 \<le> m \<Longrightarrow> m \<le> 11 \<Longrightarrow> days_before_month y (m + 1) = days_before_month y m + days_in_month y m"
  by (rule month_cases [of m]) (simp_all add: days_before_month_def days_in_month_def)

lemma month_mono:
  "1 \<le> m \<Longrightarrow> m < m' \<Longrightarrow> m' \<le> 12 \<Longrightarrow>
    days_before_month y m + days_in_month y m \<le> days_before_month y m'"
proof (induction "nat (m' - m)" arbitrary: m')
  case (Suc n)
  show ?case
  proof (cases "m' = m + 1")
    case True
    then show ?thesis using Suc.prems by (simp add: month_step)
  next
    case False
    then have "days_before_month y m + days_in_month y m \<le> days_before_month y (m' - 1)"
      using Suc by (intro Suc.hyps(1)) auto
    also have "\<dots> \<le> days_before_month y m'"
      using Suc.prems month_step [of "m' - 1" y] False by (auto simp: days_in_month_def)
    finally show ?thesis .
  qed
qed simp

lemma day_in_year:
  assumes "valid_date y m d"
  shows "0 \<le> days_before_month y m + d - 1"
    and "days_before_month y m + d - 1 < (if leap y then 366 else 365)"
  using assms unfolding valid_date_def
  by - (rule month_cases [of m],
      auto simp: days_before_month_def days_in_month_def split: if_splits)+

lemma day_number_mono:
  assumes "valid_date y m d" "valid_date y' m' d'"
    and "y < y' \<or> y = y' \<and> (m < m' \<or> m = m' \<and> d < d')"
  shows "day_number y m d < day_number y' m' d'"
proof -
  consider "y < y'" | "y = y'" "m < m'" | "y = y'" "m = m'" "d < d'" using assms(3) by auto
  then show ?thesis
  proof cases
    case 1
    then show ?thesis
      using day_in_year [OF assms(1)] day_in_year(1) [OF assms(2)] day_from_year_mono [of y y']
      by (auto simp: day_number_def)
  next
    case 2
    then show ?thesis using assms month_mono [of m m' y]
      by (auto simp: day_number_def valid_date_def)
  qed (simp add: day_number_def)
qed

text \<open>The seven fields in order of significance; the time of day in milliseconds.\<close>

definition time_of_day :: "int \<Rightarrow> int \<Rightarrow> int \<Rightarrow> int \<Rightarrow> int" where
  "time_of_day h mi s ms = h * 3600000 + mi * 60000 + s * 1000 + ms"

lemma time_of_day_range:
  "0 \<le> h \<Longrightarrow> h \<le> 23 \<Longrightarrow> 0 \<le> mi \<Longrightarrow> mi \<le> 59 \<Longrightarrow> 0 \<le> s \<Longrightarrow> s \<le> 59 \<Longrightarrow> 0 \<le> ms \<Longrightarrow> ms \<le> 999
    \<Longrightarrow> 0 \<le> time_of_day h mi s ms \<and> time_of_day h mi s ms < ms_per_day"
  by (auto simp: time_of_day_def ms_per_day_def)

lemma epoch_ms_split: "epoch_ms y m d h mi s ms = day_number y m d * ms_per_day + time_of_day h mi s ms"
  by (simp add: epoch_ms_def time_of_day_def)

lemma digit_val_range: "is_digit c \<Longrightarrow> 0 \<le> digit_val c \<and> digit_val c \<le> 9"
  by (simp add: is_digit_def digit_val_def)

lemma num_of_Cons: "num_of (c # ds) = digit_val c * 10 ^ length ds + num_of ds"
proof -
  have "foldl (\<lambda>a c. a * 10 + digit_val c) a ds =
      a * 10 ^ length ds + foldl (\<lambda>a c. a * 10 + digit_val c) 0 ds" for a
  proof (induction ds arbitrary: a)
    case (Cons d ds)
    show ?case using Cons [of "a * 10 + digit_val d"] Cons [of "digit_val d"]
      by (simp add: distrib_right)
  qed simp
  from this [of "digit_val c"] show ?thesis by (simp add: num_of_def)
qed

lemma num_of_Nil [simp]: "num_of [] = 0"
  by (simp add: num_of_def)

lemma num_of_range: "list_all is_digit ds \<Longrightarrow> 0 \<le> num_of ds \<and> num_of ds < 10 ^ length ds"
proof (induction ds)
  case (Cons c ds)
  then have "digit_val c * 10 ^ length ds \<le> 9 * 10 ^ length ds" "0 \<le> digit_val c"
    using digit_val_range [of c] by auto
  moreover have "(10::int) * 10 ^ length ds = 9 * 10 ^ length ds + 10 ^ length ds" by simp
  moreover have "0 \<le> num_of ds" "num_of ds < 10 ^ length ds" using Cons by auto
  moreover have "0 \<le> digit_val c * 10 ^ length ds" using \<open>0 \<le> digit_val c\<close> by simp
  ultimately show ?case
    by (simp only: num_of_Cons list.size(4) add_Suc_right add_0_right power_Suc) linarith
qed simp

lemma digits_order:
  "length a = length b \<Longrightarrow> list_all is_digit a \<Longrightarrow> list_all is_digit b \<Longrightarrow>
    (str_less a b \<longleftrightarrow> num_of a < num_of b) \<and> (a = b \<longleftrightarrow> num_of a = num_of b)"
proof (induction a b rule: list_induct2)
  case (Cons c as d bs)
  let ?p = "10 ^ length bs :: int"
  have r: "0 \<le> num_of as" "num_of as < ?p" "0 \<le> num_of bs" "num_of bs < ?p"
    using Cons num_of_range [of as] num_of_range [of bs] by auto
  have gap: "x * ?p + u < z * ?p + v" if "x < z" "u < ?p" "0 \<le> v" for x z u v :: int
  proof -
    have "x * ?p + u < (x + 1) * ?p" using that by (simp add: algebra_simps)
    also have "\<dots> \<le> z * ?p" using that by (intro mult_right_mono) auto
    finally show ?thesis using that by simp
  qed
  have cd: "(of_char c :: nat) < of_char d \<longleftrightarrow> digit_val c < digit_val d"
    "c = d \<longleftrightarrow> digit_val c = digit_val d"
    by (auto simp: digit_val_def)
  consider "digit_val c < digit_val d" | "c = d" | "digit_val d < digit_val c"
    using cd by linarith
  then show ?case
  proof cases
    case 1
    then show ?thesis using gap [OF 1, of "num_of as" "num_of bs"] r cd Cons.hyps
      by (auto simp: num_of_Cons)
  next
    case 2
    then show ?thesis using Cons by (auto simp: num_of_Cons)
  next
    case 3
    then show ?thesis using gap [OF 3, of "num_of bs" "num_of as"] r cd Cons.hyps
      by (auto simp: num_of_Cons)
  qed
qed simp

lemma str_less_append:
  "length a = length b \<Longrightarrow> str_less (a @ c) (b @ d) \<longleftrightarrow> str_less a b \<or> a = b \<and> str_less c d"
  by (induction a b rule: list_induct2) auto

text \<open>
  An \<open>iso_stamp\<close> taken apart: seven digit fields, the punctuation between them fixed.
\<close>

lemma field_length: "i + n \<le> length s \<Longrightarrow> length (field s i n) = n"
  by (simp add: field_def)

lemma split_field: "i < length s \<Longrightarrow> drop i s = s ! i # drop (Suc i) s"
  by (rule Cons_nth_drop_Suc [symmetric])

lemma drop_field: "drop i s = field s i n @ drop (i + n) s"
  by (metis append_take_drop_id drop_drop field_def add.commute)

lemma iso_stamp_parts:
  assumes "iso_stamp s"
  shows "s = field s 0 4 @ ''-'' @ field s 5 2 @ ''-'' @ field s 8 2 @ ''T'' @ field s 11 2 @ '':''
      @ field s 14 2 @ '':'' @ field s 17 2 @ ''.'' @ field s 20 3 @ ''Z''"
proof -
  from assms have len: "length s = 24" and sh: "iso_shape s"
    by (auto simp: iso_stamp_def date_parse_def split: if_splits)
  have z: "s ! 23 = CHR ''Z''" using sh len last_conv_nth [of s] by (cases s) (auto simp: iso_shape_def)
  have d: "drop i s = s ! i # drop (Suc i) s" if "i < 24" for i
    using that len by (simp add: Cons_nth_drop_Suc)
  have p: "s ! 4 = CHR ''-''" "s ! 7 = CHR ''-''" "s ! 10 = CHR ''T''" "s ! 13 = CHR '':''"
    "s ! 16 = CHR '':''" "s ! 19 = CHR ''.''" using sh len by (auto simp: iso_shape_def)
  have "s = field s 0 4 @ drop 4 s" using drop_field [of 0 s 4] by simp
  also have "drop 4 s = CHR ''-'' # field s 5 2 @ drop 7 s" using d [of 4] drop_field [of 5 s 2] p by simp
  also have "drop 7 s = CHR ''-'' # field s 8 2 @ drop 10 s" using d [of 7] drop_field [of 8 s 2] p by simp
  also have "drop 10 s = CHR ''T'' # field s 11 2 @ drop 13 s" using d [of 10] drop_field [of 11 s 2] p by simp
  also have "drop 13 s = CHR '':'' # field s 14 2 @ drop 16 s" using d [of 13] drop_field [of 14 s 2] p by simp
  also have "drop 16 s = CHR '':'' # field s 17 2 @ drop 19 s" using d [of 16] drop_field [of 17 s 2] p by simp
  also have "drop 19 s = CHR ''.'' # field s 20 3 @ drop 23 s" using d [of 19] drop_field [of 20 s 3] p by simp
  also have "drop 23 s = ''Z''" using d [of 23] z len by simp
  finally show ?thesis by simp
qed

definition stamp_key :: "string \<Rightarrow> int list" where
  "stamp_key s = [num_of (field s 0 4), num_of (field s 5 2), num_of (field s 8 2),
     num_of (field s 11 2), num_of (field s 14 2), num_of (field s 17 2), num_of (field s 20 3)]"

fun lex_less :: "int list \<Rightarrow> int list \<Rightarrow> bool" where
  "lex_less (x # xs) (y # ys) = (x < y \<or> x = y \<and> lex_less xs ys)"
| "lex_less _ _ = False"

lemma stamp_fields:
  assumes "iso_stamp s"
  shows "list_all is_digit (field s 0 4)" "list_all is_digit (field s 5 2)"
    "list_all is_digit (field s 8 2)" "list_all is_digit (field s 11 2)"
    "list_all is_digit (field s 14 2)" "list_all is_digit (field s 17 2)"
    "list_all is_digit (field s 20 3)"
    "length (field s 0 4) = 4" "length (field s 5 2) = 2" "length (field s 8 2) = 2"
    "length (field s 11 2) = 2" "length (field s 14 2) = 2" "length (field s 17 2) = 2"
    "length (field s 20 3) = 3"
  using assms
  by (auto simp: iso_stamp_def date_parse_def iso_shape_def field_length split: if_splits)

lemma str_less_stamp:
  assumes "iso_stamp a" "iso_stamp b"
  shows "str_less a b \<longleftrightarrow> lex_less (stamp_key a) (stamp_key b)"
proof -
  note fa = stamp_fields [OF assms(1)] and fb = stamp_fields [OF assms(2)]
  have o: "(str_less (field a i n) (field b i n) \<longleftrightarrow> num_of (field a i n) < num_of (field b i n)) \<and>
      (field a i n = field b i n \<longleftrightarrow> num_of (field a i n) = num_of (field b i n))"
    if "length (field a i n) = n" "length (field b i n) = n"
      "list_all is_digit (field a i n)" "list_all is_digit (field b i n)" for i n
    using that by (intro digits_order) auto
  show ?thesis
    by (subst (1) iso_stamp_parts [OF assms(1)], subst (1) iso_stamp_parts [OF assms(2)])
      (simp add: str_less_append fa fb o stamp_key_def)
qed

lemma date_parse_stamp:
  assumes "iso_stamp s"
  shows "date_parse s = Some (epoch_ms (num_of (field s 0 4)) (num_of (field s 5 2))
      (num_of (field s 8 2)) (num_of (field s 11 2)) (num_of (field s 14 2))
      (num_of (field s 17 2)) (num_of (field s 20 3)))"
    and "valid_date (num_of (field s 0 4)) (num_of (field s 5 2)) (num_of (field s 8 2))"
    and "num_of (field s 11 2) \<le> 23" "num_of (field s 14 2) \<le> 59" "num_of (field s 17 2) \<le> 59"
  using assms by (auto simp: iso_stamp_def date_parse_def Let_def split: if_splits)

lemma epoch_ms_mono:
  assumes "valid_date y m d" "valid_date y' m' d'"
    and "h \<le> 23" "h' \<le> 23" "mi \<le> 59" "mi' \<le> 59" "s \<le> 59" "s' \<le> 59" "ms \<le> 999" "ms' \<le> 999"
    and "0 \<le> h" "0 \<le> h'" "0 \<le> mi" "0 \<le> mi'" "0 \<le> s" "0 \<le> s'" "0 \<le> ms" "0 \<le> ms'"
    and "lex_less [y, m, d, h, mi, s, ms] [y', m', d', h', mi', s', ms']"
  shows "epoch_ms y m d h mi s ms < epoch_ms y' m' d' h' mi' s' ms'"
proof -
  have r: "0 \<le> time_of_day h mi s ms" "time_of_day h mi s ms < ms_per_day"
    "0 \<le> time_of_day h' mi' s' ms'" "time_of_day h' mi' s' ms' < ms_per_day"
    using assms time_of_day_range by auto
  show ?thesis
  proof (cases "y = y' \<and> m = m' \<and> d = d'")
    case True
    then have "time_of_day h mi s ms < time_of_day h' mi' s' ms'"
      using assms by (auto simp: time_of_day_def)
    then show ?thesis using True by (simp add: epoch_ms_split)
  next
    case False
    then have "day_number y m d < day_number y' m' d'"
      using assms by (intro day_number_mono) auto
    then have "(day_number y m d + 1) * ms_per_day \<le> day_number y' m' d' * ms_per_day"
      by (intro mult_right_mono) (auto simp: ms_per_day_def)
    then show ?thesis using r unfolding epoch_ms_split distrib_right by linarith
  qed
qed

lemma lex_less_linear: "length a = length b \<Longrightarrow> lex_less a b \<or> a = b \<or> lex_less b a"
  by (induction a b rule: list_induct2) auto

text \<open>String comparison of two stamps is comparison of the instants.\<close>

lemma stamp_order:
  assumes "iso_stamp a" "iso_stamp b"
  shows "str_less a b \<longleftrightarrow> the (date_parse a) < the (date_parse b)"
proof -
  have mono: "the (date_parse x) < the (date_parse y)"
    if "iso_stamp x" "iso_stamp y" "lex_less (stamp_key x) (stamp_key y)" for x y
  proof -
    note fx = stamp_fields [OF that(1)] and fy = stamp_fields [OF that(2)]
    note nx = num_of_range [OF fx(4)] num_of_range [OF fx(5)] num_of_range [OF fx(6)] num_of_range [OF fx(7)]
    note ny = num_of_range [OF fy(4)] num_of_range [OF fy(5)] num_of_range [OF fy(6)] num_of_range [OF fy(7)]
    show ?thesis
      unfolding date_parse_stamp(1) [OF that(1)] date_parse_stamp(1) [OF that(2)] option.sel
      using date_parse_stamp(2-5) [OF that(1)] date_parse_stamp(2-5) [OF that(2)] nx ny fx(14) fy(14)
        that(3) unfolding stamp_key_def
      by (intro epoch_ms_mono) auto
  qed
  have key: "the (date_parse a) = the (date_parse b)" if "stamp_key a = stamp_key b"
    using that date_parse_stamp(1) [OF assms(1)] date_parse_stamp(1) [OF assms(2)]
    by (simp add: stamp_key_def)
  have "length (stamp_key a) = length (stamp_key b)" by (simp add: stamp_key_def)
  from lex_less_linear [OF this] show ?thesis
    using mono [OF assms] mono [OF assms(2) assms(1)] key str_less_stamp [OF assms]
      str_less_stamp [OF assms(2) assms(1)] str_less_asym [of a b] by (metis less_asym less_irrefl)
qed

lemma stamp_eq:
  assumes "iso_stamp a" "iso_stamp b"
  shows "a = b \<longleftrightarrow> date_parse a = date_parse b"
  using stamp_order [OF assms] stamp_order [OF assms(2) assms(1)] str_less_total [of a b] by auto

section \<open>Writing\<close>

text \<open>\<open>new Date(t).toISOString()\<close> for the years 0 to 9999.\<close>

definition year_of_day :: "int \<Rightarrow> int" where
  "year_of_day d = (let y = 1970 + (d * 400) div 146097 in
     if d < day_from_year y then y - 1
     else if day_from_year (y + 1) \<le> d then y + 1 else y)"

definition month_of :: "int \<Rightarrow> int \<Rightarrow> int" where
  "month_of y doy = (if doy < days_before_month y 2 then 1 else if doy < days_before_month y 3 then 2
     else if doy < days_before_month y 4 then 3 else if doy < days_before_month y 5 then 4
     else if doy < days_before_month y 6 then 5 else if doy < days_before_month y 7 then 6
     else if doy < days_before_month y 8 then 7 else if doy < days_before_month y 9 then 8
     else if doy < days_before_month y 10 then 9 else if doy < days_before_month y 11 then 10
     else if doy < days_before_month y 12 then 11 else 12)"

fun pad :: "nat \<Rightarrow> int \<Rightarrow> string" where
  "pad 0 n = []"
| "pad (Suc k) n = char_of (48 + nat ((n div 10 ^ k) mod 10)) # pad k (n mod 10 ^ k)"

definition toISOString :: "int \<Rightarrow> string" where
  "toISOString t =
     (let d = t div ms_per_day; r = t mod ms_per_day; y = year_of_day d;
          doy = d - day_from_year y; m = month_of y doy; dd = doy - days_before_month y m + 1
      in pad 4 y @ ''-'' @ pad 2 m @ ''-'' @ pad 2 dd @ ''T'' @ pad 2 (r div 3600000) @ '':''
        @ pad 2 (r div 60000 mod 60) @ '':'' @ pad 2 (r div 1000 mod 60) @ ''.''
        @ pad 3 (r mod 1000) @ ''Z'')"

lemma int_div_bounds:
  "0 < (k::int) \<Longrightarrow> k * (x div k) \<le> x" "0 < k \<Longrightarrow> x < k * (x div k) + k"
  using mult_div_mod_eq [of k x] pos_mod_sign [of k x] pos_mod_bound [of k x] by linarith+

lemma int_div_less: "0 < (k::int) \<Longrightarrow> x < c * k \<Longrightarrow> x div k < c"
  using int_div_bounds(1) [of k x] by (metis mult.commute mult_le_cancel_right not_le order.trans order_less_imp_le)

lemma int_div_ge: "0 < (k::int) \<Longrightarrow> c * k \<le> x \<Longrightarrow> c \<le> x div k"
  using zdiv_mono1 [of "c * k" x k] by simp

lemma day_from_year_bounds:
  "146097 * (y - 1970) - 400 * 2 \<le> 400 * day_from_year y \<and>
   400 * day_from_year y \<le> 146097 * (y - 1970) + 400 * 2"
proof -
  have "4 * ((y - 1969) div 4) \<le> y - 1969" "y - 1969 \<le> 4 * ((y - 1969) div 4) + 3"
    "100 * ((y - 1901) div 100) \<le> y - 1901" "y - 1901 \<le> 100 * ((y - 1901) div 100) + 99"
    "400 * ((y - 1601) div 400) \<le> y - 1601" "y - 1601 \<le> 400 * ((y - 1601) div 400) + 399"
    by linarith+
  then show ?thesis unfolding day_from_year_def by (simp add: algebra_simps)
qed

lemma year_of_day:
  "day_from_year (year_of_day d) \<le> d \<and> d < day_from_year (year_of_day d + 1)"
proof -
  define q where "q = (d * 400) div 146097"
  define y where "y = 1970 + q"
  have q: "146097 * q \<le> d * 400" "d * 400 < 146097 * q + 146097"
    using int_div_bounds [of 146097 "d * 400"] by (auto simp: q_def)
  have b: "400 * day_from_year (y - 1) \<le> 146097 * q - 145297"
    "146097 * q + 291394 \<le> 400 * day_from_year (y + 2)"
    using day_from_year_bounds [of "y - 1"] day_from_year_bounds [of "y + 2"]
    by (auto simp: y_def algebra_simps)
  have "day_from_year (y - 1) \<le> d" using q b by simp
  moreover have "d < day_from_year (y + 2)" using q b by simp
  ultimately have "day_from_year (y - 1) \<le> d" "d < day_from_year (y + 2)" by auto
  then show ?thesis
    by (auto simp: year_of_day_def Let_def y_def [unfolded q_def, symmetric] algebra_simps)
qed

lemma month_of:
  assumes "0 \<le> doy" "doy < (if leap y then 366 else 365)"
  shows "valid_date y (month_of y doy) (doy - days_before_month y (month_of y doy) + 1)"
  by (cases "leap y") (use assms in \<open>simp add: month_of_def valid_date_def days_before_month_def days_in_month_def\<close>)+

lemma length_pad [simp]: "length (pad k n) = k"
  by (induction k arbitrary: n) auto

lemma pad_digits: "list_all is_digit (pad k n)"
proof (induction k arbitrary: n)
  case (Suc k)
  have "(n div 10 ^ k) mod 10 < 10" by simp
  then have "nat ((n div 10 ^ k) mod 10) \<le> 9" by linarith
  then have "is_digit (char_of (48 + nat ((n div 10 ^ k) mod 10)))"
    by (simp add: is_digit_def of_char_of)
  then show ?case using Suc by simp
qed simp

lemma num_of_pad: "0 \<le> n \<Longrightarrow> n < 10 ^ k \<Longrightarrow> num_of (pad k n) = n"
proof (induction k arbitrary: n)
  case (Suc k)
  have q: "0 \<le> n div 10 ^ k" "n div 10 ^ k < 10"
    using Suc.prems by (auto simp: pos_imp_zdiv_nonneg_iff intro: int_div_less)
  then have "digit_val (char_of (48 + nat ((n div 10 ^ k) mod 10))) = n div 10 ^ k"
    by (simp add: digit_val_def of_char_of)
  moreover have "num_of (pad k (n mod 10 ^ k)) = n mod 10 ^ k" by (intro Suc.IH) auto
  ultimately show ?case
    by (simp only: pad.simps num_of_Cons length_pad) (simp add: div_mult_mod_eq)
qed simp

lemma num_of_pad_mod: "num_of (pad 2 (x mod 60)) = x mod 60" "num_of (pad 3 (x mod 1000)) = x mod 1000"
proof -
  have "x mod 60 < 10 ^ 2" "x mod 1000 < 10 ^ 3"
    using pos_mod_bound [of 60 x] pos_mod_bound [of 1000 x] by auto
  then show "num_of (pad 2 (x mod 60)) = x mod 60" "num_of (pad 3 (x mod 1000)) = x mod 1000"
    by (auto intro!: num_of_pad simp del: pad.simps)
qed

text \<open>A time in the years 0 to 9999 written out is a stamp and reads back.\<close>

definition in_four_digit_years :: "int \<Rightarrow> bool" where
  "in_four_digit_years t \<longleftrightarrow> day_from_year 0 * ms_per_day \<le> t \<and> t < day_from_year 10000 * ms_per_day"

lemma day_from_year_mono_le: "y \<le> y' \<Longrightarrow> day_from_year y \<le> day_from_year y'"
  using day_from_year_mono [of y y'] by (cases "y = y'") (auto split: if_splits)

lemma year_range:
  assumes "in_four_digit_years t"
  shows "0 \<le> year_of_day (t div ms_per_day)" "year_of_day (t div ms_per_day) < 10000"
proof -
  let ?d = "t div ms_per_day"
  have m: "0 < ms_per_day" by (simp add: ms_per_day_def)
  have d: "day_from_year 0 \<le> ?d" "?d < day_from_year 10000"
    using assms m by (auto simp: in_four_digit_years_def intro: int_div_less int_div_ge)
  show "0 \<le> year_of_day ?d"
    using year_of_day [of ?d] d day_from_year_mono_le [of "year_of_day ?d + 1" 0] by linarith
  show "year_of_day ?d < 10000"
    using year_of_day [of ?d] d day_from_year_mono_le [of 10000 "year_of_day ?d"] by linarith
qed

lemma time_of_day_parts:
  fixes r :: int
  assumes "0 \<le> r" "r < ms_per_day"
  shows "r = (r div 3600000) * 3600000 + (r div 60000 mod 60) * 60000 + (r div 1000 mod 60) * 1000 + r mod 1000"
    and "0 \<le> r div 3600000" "r div 3600000 \<le> 23"
proof -
  have a: "r div 60000 = r div 1000 div 60" "r div 3600000 = r div 1000 div 60 div 60"
    by (simp_all add: zdiv_zmult2_eq [symmetric])
  have "r = 1000 * (r div 1000) + r mod 1000" by simp
  moreover have "r div 1000 = 60 * (r div 1000 div 60) + r div 1000 mod 60" by simp
  moreover have "r div 1000 div 60 = 60 * (r div 1000 div 60 div 60) + r div 1000 div 60 mod 60" by simp
  ultimately show "r = (r div 3600000) * 3600000 + (r div 60000 mod 60) * 60000 + (r div 1000 mod 60) * 1000 + r mod 1000"
    unfolding a by linarith
  show "0 \<le> r div 3600000" "r div 3600000 \<le> 23" using assms unfolding ms_per_day_def by linarith+
qed

lemma toISOString_fields:
  fixes t :: int
  defines "s \<equiv> toISOString t" and "d \<equiv> t div ms_per_day" and "r \<equiv> t mod ms_per_day"
  defines "y \<equiv> year_of_day d" and "m \<equiv> month_of (year_of_day d) (d - day_from_year (year_of_day d))"
  shows "length s = 24" "iso_shape s"
    "field s 0 4 = pad 4 y" "field s 5 2 = pad 2 m"
    "field s 8 2 = pad 2 (d - day_from_year y - days_before_month y m + 1)"
    "field s 11 2 = pad 2 (r div 3600000)" "field s 14 2 = pad 2 (r div 60000 mod 60)"
    "field s 17 2 = pad 2 (r div 1000 mod 60)" "field s 20 3 = pad 3 (r mod 1000)"
proof -
  have s: "s = pad 4 y @ ''-'' @ pad 2 m @ ''-'' @ pad 2 (d - day_from_year y - days_before_month y m + 1)
      @ ''T'' @ pad 2 (r div 3600000) @ '':'' @ pad 2 (r div 60000 mod 60) @ '':''
      @ pad 2 (r div 1000 mod 60) @ ''.'' @ pad 3 (r mod 1000) @ ''Z''"
    by (simp add: s_def toISOString_def Let_def d_def r_def y_def m_def)
  show len: "length s = 24" by (simp add: s)
  show f: "field s 0 4 = pad 4 y" "field s 5 2 = pad 2 m"
    "field s 8 2 = pad 2 (d - day_from_year y - days_before_month y m + 1)"
    "field s 11 2 = pad 2 (r div 3600000)" "field s 14 2 = pad 2 (r div 60000 mod 60)"
    "field s 17 2 = pad 2 (r div 1000 mod 60)" "field s 20 3 = pad 3 (r mod 1000)"
    by (simp_all add: s field_def del: pad.simps)
  show "iso_shape s"
    unfolding iso_shape_def f using len
    by (simp add: pad_digits s nth_append del: pad.simps)
qed

lemma date_parse_pads:
  assumes "iso_shape s" "length s = 24"
    and "field s 0 4 = pad 4 y" "field s 5 2 = pad 2 m" "field s 8 2 = pad 2 d"
      "field s 11 2 = pad 2 h" "field s 14 2 = pad 2 (mi mod 60)" "field s 17 2 = pad 2 (sec mod 60)"
      "field s 20 3 = pad 3 (ms mod 1000)"
    and "0 \<le> y" "y < 10000" "valid_date y m d" "0 \<le> h" "h \<le> 23"
  shows "date_parse s = Some (epoch_ms y m d h (mi mod 60) (sec mod 60) (ms mod 1000))"
proof -
  have r: "1 \<le> m" "m \<le> 12" "1 \<le> d" "d \<le> 31"
    using assms(12) by (auto simp: valid_date_def days_in_month_def split: if_splits)
  have n: "num_of (pad 4 y) = y" "num_of (pad 2 m) = m" "num_of (pad 2 d) = d" "num_of (pad 2 h) = h"
    by (rule num_of_pad; use assms(10,11,13,14) r in simp)+
  have "mi mod 60 \<le> 59" "sec mod 60 \<le> 59"
    using pos_mod_bound [of 60 mi] pos_mod_bound [of 60 sec] by auto
  then show ?thesis
    unfolding date_parse_def Let_def assms(3-9) n num_of_pad_mod
    using assms(1,2,12,14) by simp
qed

lemma date_parse_toISOString:
  assumes "in_four_digit_years t"
  shows "date_parse (toISOString t) = Some t"
proof -
  define d r where "d = t div ms_per_day" and "r = t mod ms_per_day"
  define y where "y = year_of_day d"
  define doy where "doy = d - day_from_year y"
  define m where "m = month_of y doy"
  define dd where "dd = doy - days_before_month y m + 1"
  have mp: "0 < ms_per_day" by (simp add: ms_per_day_def)
  have doy: "0 \<le> doy" "doy < (if leap y then 366 else 365)"
    using year_of_day [of d] day_from_year_step [of y] by (auto simp: doy_def y_def split: if_splits)
  have v: "valid_date y m dd" unfolding m_def dd_def by (rule month_of [OF doy])
  have r: "0 \<le> r" "r < ms_per_day" using mp by (auto simp: r_def)
  note tp = time_of_day_parts [OF r]
  have f: "field (toISOString t) 0 4 = pad 4 y" "field (toISOString t) 5 2 = pad 2 m"
    "field (toISOString t) 8 2 = pad 2 dd" "field (toISOString t) 11 2 = pad 2 (r div 3600000)"
    "field (toISOString t) 14 2 = pad 2 (r div 60000 mod 60)"
    "field (toISOString t) 17 2 = pad 2 (r div 1000 mod 60)" "field (toISOString t) 20 3 = pad 3 (r mod 1000)"
    unfolding toISOString_fields d_def r_def y_def doy_def m_def dd_def by (rule refl)+
  have "date_parse (toISOString t) =
      Some (epoch_ms y m dd (r div 3600000) (r div 60000 mod 60) (r div 1000 mod 60) (r mod 1000))"
    using toISOString_fields(2,1) f year_range [OF assms, folded d_def, folded y_def] v tp(2,3)
    by (rule date_parse_pads)
  also have "epoch_ms y m dd (r div 3600000) (r div 60000 mod 60) (r div 1000 mod 60) (r mod 1000)
      = day_number y m dd * ms_per_day + r"
    unfolding epoch_ms_def using tp(1) by linarith
  also have "day_number y m dd = d" by (simp add: day_number_def dd_def doy_def)
  finally show ?thesis by (simp add: d_def r_def)
qed

lemma iso_stamp_toISOString: "in_four_digit_years t \<Longrightarrow> iso_stamp (toISOString t)"
  by (simp add: iso_stamp_def date_parse_toISOString toISOString_fields(1))

end
