(* ===== verification/Source_Reliability.thy ===== *)
theory Source_Reliability
  imports Clock
begin

text \<open>
  The property claim (\<open>packages/shared/src/types/claims.ts\<close>) and the registry of sources
  (\<open>packages/shared/src/config/source-reliability.ts\<close>): base trust, independence groups,
  priority ranks, and the choice among human attestations that the writer and the read
  path share. A source is namespaced (\<open>manual:alice\<close>); the part before the colon is the key
  of the registry.
\<close>

record claim =
  property_key :: string
  c_value :: jsval
  c_source :: string
  c_source_id :: string
  ingested_at :: string
  c_confidence :: rat
  evidence :: "string option"
  verified_by :: "string option"
  verified_at :: "string option"
  verified_value :: jsval

datatype strategy =
    MANUAL_OVERRIDE_FIRST
  | HIGHEST_CONFIDENCE
  | AUTHORITATIVE_ORDER
  | LATEST_TIMESTAMP
  | MERGE_SET

record reliability_entry =
  reliability :: rat
  independence_group :: string
  derivesFrom :: "string list"
  decays :: bool

definition SOURCE_RELIABILITY :: "(string \<times> reliability_entry) list" where
  "SOURCE_RELIABILITY = [
    (''verified'', \<lparr>reliability = 99/100, independence_group = ''human'', derivesFrom = [], decays = False\<rparr>),
    (''manual'', \<lparr>reliability = 95/100, independence_group = ''human'', derivesFrom = [], decays = False\<rparr>),
    (''backstage'', \<lparr>reliability = 85/100, independence_group = ''catalog'', derivesFrom = [''github''], decays = True\<rparr>),
    (''github'', \<lparr>reliability = 9/10, independence_group = ''scm'', derivesFrom = [], decays = True\<rparr>),
    (''login'', \<lparr>reliability = 85/100, independence_group = ''scm'', derivesFrom = [''github''], decays = True\<rparr>),
    (''kubernetes'', \<lparr>reliability = 85/100, independence_group = ''runtime'', derivesFrom = [], decays = True\<rparr>),
    (''datadog'', \<lparr>reliability = 85/100, independence_group = ''apm'', derivesFrom = [], decays = True\<rparr>),
    (''jira'', \<lparr>reliability = 8/10, independence_group = ''tracker'', derivesFrom = [], decays = True\<rparr>),
    (''identity'', \<lparr>reliability = 85/100, independence_group = ''idp'', derivesFrom = [], decays = True\<rparr>)]"

definition DEFAULT_ENTRY :: reliability_entry where
  "DEFAULT_ENTRY =
    \<lparr>reliability = 7/10, independence_group = ''unknown'', derivesFrom = [], decays = True\<rparr>"

definition SOURCE_PRIORITY_ORDER :: "string list" where
  "SOURCE_PRIORITY_ORDER = [''verified'', ''manual'', ''backstage'', ''github'', ''login'',
     ''kubernetes'', ''datadog'', ''jira'', ''identity'']"

text \<open>The part of a source before its first colon; the whole source when it has none.\<close>

definition sourceKey :: "string \<Rightarrow> string" where
  "sourceKey s = (case find_index (\<lambda>c. c = CHR '':'') s of None \<Rightarrow> s | Some colon \<Rightarrow> take colon s)"

definition getSourceReliability :: "string \<Rightarrow> reliability_entry" where
  "getSourceReliability s =
     (case map_of SOURCE_RELIABILITY (sourceKey s) of Some e \<Rightarrow> e | None \<Rightarrow> DEFAULT_ENTRY)"

definition independenceGroup :: "string \<Rightarrow> string" where
  "independenceGroup s = independence_group (getSourceReliability s)"

definition MAX_SAFE_INTEGER :: nat where "MAX_SAFE_INTEGER = 9007199254740991"

definition sourceRank :: "string \<Rightarrow> nat" where
  "sourceRank s = (case find_index (\<lambda>k. k = sourceKey s) SOURCE_PRIORITY_ORDER of
     None \<Rightarrow> MAX_SAFE_INTEGER | Some idx \<Rightarrow> idx)"

definition isDerivedFrom :: "string \<Rightarrow> string \<Rightarrow> bool" where
  "isDerivedFrom candidate winner =
     (if sourceKey winner \<in> set (derivesFrom (getSourceReliability candidate)) then True
      else independenceGroup candidate = independenceGroup winner)"

text \<open>Negative when \<open>a\<close> goes first: rank, then the later stamp, then the source's text.\<close>

definition compareOverride :: "claim \<Rightarrow> claim \<Rightarrow> int" where
  "compareOverride a b =
     (let ra = sourceRank (c_source a); rb = sourceRank (c_source b) in
      if ra \<noteq> rb then int ra - int rb
      else if ingested_at a \<noteq> ingested_at b
        then (if str_less (ingested_at a) (ingested_at b) then 1 else -1)
      else if str_less (c_source a) (c_source b) then -1
      else if str_less (c_source b) (c_source a) then 1 else 0)"

definition is_override :: "claim \<Rightarrow> bool" where
  "is_override c = (sourceKey (c_source c) = ''verified'' \<or> sourceKey (c_source c) = ''manual'')"

fun pickManualOverride_from :: "claim option \<Rightarrow> claim list \<Rightarrow> claim option" where
  "pickManualOverride_from best [] = best"
| "pickManualOverride_from best (c # cs) =
     (if \<not> is_override c then pickManualOverride_from best cs
      else (case best of
          None \<Rightarrow> pickManualOverride_from (Some c) cs
        | Some b \<Rightarrow> pickManualOverride_from (if compareOverride c b < 0 then Some c else best) cs))"

definition pickManualOverride :: "claim list \<Rightarrow> claim option" where
  "pickManualOverride claims = pickManualOverride_from None claims"

section \<open>The registry\<close>

lemma sourceKey_namespaced: "CHR '':'' \<notin> set k \<Longrightarrow> sourceKey (k @ CHR '':'' # u) = k"
proof -
  assume "CHR '':'' \<notin> set k"
  then have "find_index (\<lambda>c. c = CHR '':'') (k @ CHR '':'' # u) = Some (length k)"
    by (induction k) auto
  then show ?thesis by (simp add: sourceKey_def)
qed

lemma sourceKey_bare: "CHR '':'' \<notin> set k \<Longrightarrow> sourceKey k = k"
proof -
  assume "CHR '':'' \<notin> set k"
  then have "find_index (\<lambda>c. c = CHR '':'') k = None" by (auto simp: find_index_None)
  then show ?thesis by (simp add: sourceKey_def)
qed

lemma sourceKey_no_colon: "CHR '':'' \<notin> set (sourceKey s)"
proof (cases "find_index (\<lambda>c. c = CHR '':'') s")
  case (Some i)
  have "find_index (\<lambda>c. c = CHR '':'') s = Some i \<Longrightarrow> CHR '':'' \<notin> set (take i s)" for i
    by (induction s arbitrary: i) (auto split: if_splits)
  with Some show ?thesis by (simp add: sourceKey_def)
next
  case None
  then have "\<forall>c \<in> set s. c \<noteq> CHR '':''" by (simp only: find_index_None)
  then show ?thesis using None unfolding sourceKey_def by auto
qed

lemma sourceKey_idem [simp]: "sourceKey (sourceKey s) = sourceKey s"
  by (rule sourceKey_bare) (rule sourceKey_no_colon)

text \<open>The two tables name the same sources: every ranked source has an entry.\<close>

lemma priority_order_complete: "set SOURCE_PRIORITY_ORDER = set (map fst SOURCE_RELIABILITY)"
  by (auto simp: SOURCE_PRIORITY_ORDER_def SOURCE_RELIABILITY_def)

lemma rank_override:
  "sourceKey s = ''verified'' \<Longrightarrow> sourceRank s = 0"
  "sourceKey s = ''manual'' \<Longrightarrow> sourceRank s = 1"
  by (simp_all add: sourceRank_def SOURCE_PRIORITY_ORDER_def)

lemma rank_not_override:
  "sourceKey s \<noteq> ''verified'' \<Longrightarrow> sourceKey s \<noteq> ''manual'' \<Longrightarrow> 2 \<le> sourceRank s"
  by (auto simp: sourceRank_def SOURCE_PRIORITY_ORDER_def MAX_SAFE_INTEGER_def)

section \<open>The choice among attestations\<close>

text \<open>\<open>compareOverride\<close> is a total preorder; it ties exactly on equal source and stamp.\<close>

lemma compareOverride_zero:
  "compareOverride a b = 0 \<longleftrightarrow> c_source a = c_source b \<and> ingested_at a = ingested_at b"
  using str_less_total [of "c_source a" "c_source b"]
  by (auto simp: compareOverride_def Let_def)

lemma compareOverride_antisym: "compareOverride a b < 0 \<longleftrightarrow> 0 < compareOverride b a"
  using str_less_total [of "ingested_at a" "ingested_at b"] str_less_asym
  by (auto simp: compareOverride_def Let_def)

definition override_key :: "claim \<Rightarrow> nat \<times> string \<times> string" where
  "override_key c = (sourceRank (c_source c), ingested_at c, c_source c)"

lemma compareOverride_neg:
  "compareOverride a b < 0 \<longleftrightarrow>
     sourceRank (c_source a) < sourceRank (c_source b) \<or>
     sourceRank (c_source a) = sourceRank (c_source b) \<and>
       (str_less (ingested_at b) (ingested_at a) \<or>
        ingested_at a = ingested_at b \<and> str_less (c_source a) (c_source b))"
  using str_less_total [of "ingested_at a" "ingested_at b"] str_less_asym
  by (auto simp: compareOverride_def Let_def)

lemma compareOverride_trans:
  "compareOverride a b < 0 \<Longrightarrow> compareOverride b c < 0 \<Longrightarrow> compareOverride a c < 0"
  unfolding compareOverride_neg by (auto intro: str_less_trans)

lemma compareOverride_trans_le:
  "\<not> compareOverride b a < 0 \<Longrightarrow> \<not> compareOverride c b < 0 \<Longrightarrow> \<not> compareOverride c a < 0"
  using compareOverride_trans compareOverride_antisym compareOverride_zero
  by (metis linorder_less_linear compareOverride_neg)

lemma pickManualOverride_from_Some:
  "pickManualOverride_from (Some b) cs \<noteq> None"
  by (induction cs arbitrary: b) auto

lemma pickManualOverride_from_min:
  "pickManualOverride_from best cs = Some w \<Longrightarrow>
    (best = Some w \<or> w \<in> set cs \<and> is_override w) \<and>
    (\<forall>c \<in> set cs. is_override c \<longrightarrow> \<not> compareOverride c w < 0) \<and>
    (\<forall>b. best = Some b \<longrightarrow> \<not> compareOverride b w < 0)"
proof (induction best cs rule: pickManualOverride_from.induct)
  case (1 best)
  then show ?case by (auto simp: compareOverride_neg)
next
  case (2 best c cs)
  consider "\<not> is_override c" | "is_override c" "best = None"
    | b where "is_override c" "best = Some b" "compareOverride c b < 0"
    | b where "is_override c" "best = Some b" "\<not> compareOverride c b < 0"
    by (cases best) auto
  then show ?case
  proof cases
    case 1
    then show ?thesis using 2 by auto
  next
    case 2
    then show ?thesis using "2.IH"(2) "2.prems" by auto
  next
    case 3
    then have "pickManualOverride_from (Some c) cs = Some w" using "2.prems" by simp
    from "2.IH"(3) [OF _ 3(2)] 3 this
    show ?thesis using compareOverride_trans [of c b w] by auto
  next
    case 4
    then have "pickManualOverride_from (Some b) cs = Some w" using "2.prems" by simp
    from "2.IH"(3) [OF _ 4(2)] 4 this
    show ?thesis using compareOverride_trans_le [of b w c] by auto
  qed
qed

lemma pickManualOverride_min:
  assumes "pickManualOverride cs = Some w"
  shows "w \<in> set cs" "is_override w" "\<forall>c \<in> set cs. is_override c \<longrightarrow> \<not> compareOverride c w < 0"
  using pickManualOverride_from_min [of None cs w] assms by (auto simp: pickManualOverride_def)

lemma pickManualOverride_None_iff:
  "pickManualOverride cs = None \<longleftrightarrow> (\<forall>c \<in> set cs. \<not> is_override c)"
proof -
  have "pickManualOverride_from None cs = None \<longleftrightarrow> (\<forall>c \<in> set cs. \<not> is_override c)"
    using pickManualOverride_from_Some by (induction cs) auto
  then show ?thesis by (simp add: pickManualOverride_def)
qed

end
