(* ===== verification/Confidence.thy ===== *)
theory Confidence
  imports Source_Reliability
begin

text \<open>
  The confidence engine (\<open>packages/shared/src/utils/confidence.ts\<close>): time decay of a claim's
  base confidence, and the per-field score with its explanation. An unparseable timestamp
  makes a number \<open>NaN\<close>, here \<open>None\<close>; every comparison with it is false, as in the code. The
  clock is an argument, in milliseconds.
\<close>

section \<open>Decay\<close>

definition MS_PER_WEEK :: rat where "MS_PER_WEEK = 7 * 24 * 60 * 60 * 1000"

definition DEFAULT_DECAY_RATE :: rat where "DEFAULT_DECAY_RATE = 1/100"

definition clamp01 :: "rat \<Rightarrow> rat" where
  "clamp01 x = max 0 (min 1 x)"

definition weeksSince :: "string \<Rightarrow> int \<Rightarrow> rat option" where
  "weeksSince ingestedAt now =
     map_option (\<lambda>t. max 0 (of_int (now - t) / MS_PER_WEEK)) (date_parse ingestedAt)"

definition decayLoss :: "string \<Rightarrow> int \<Rightarrow> rat \<Rightarrow> rat option" where
  "decayLoss ingestedAt now decayRate = map_option (\<lambda>w. decayRate * w) (weeksSince ingestedAt now)"

definition computeEffectiveConfidence :: "rat \<Rightarrow> string \<Rightarrow> int \<Rightarrow> rat \<Rightarrow> rat option" where
  "computeEffectiveConfidence baseConfidence ingestedAt now decayRate =
     map_option (\<lambda>l. clamp01 (baseConfidence - l)) (decayLoss ingestedAt now decayRate)"

section \<open>The per-field score\<close>

record confidence_tuning =
  decayRate :: rat
  corrobPer :: rat
  corrobCap :: rat
  conflictBase :: rat
  conflictPer :: rat
  ambigPer :: rat
  ambigCap :: rat
  verifiedFloor :: rat
  staleWeeks :: rat

definition DEFAULT_CONFIDENCE_TUNING :: confidence_tuning where
  "DEFAULT_CONFIDENCE_TUNING = \<lparr>decayRate = 1/100, corrobPer = 3/100, corrobCap = 8/100,
     conflictBase = 1/10, conflictPer = 5/100, ambigPer = 8/100, ambigCap = 3/10,
     verifiedFloor = 98/100, staleWeeks = 12\<rparr>"

definition valuesEqual :: "jsval \<Rightarrow> jsval \<Rightarrow> bool" where
  "valuesEqual a b = (stringify a = stringify b)"

record field_confidence_options =
  o_now :: int
  o_tuning :: "confidence_tuning option"
  o_ambiguityCount :: "nat option"
  o_ambiguityReason :: "string option"

record breakdown =
  b_base :: rat
  base_source :: string
  b_decay :: "rat option"
  corroboration :: rat
  corroboration_sources :: "string list"
  conflict :: rat
  conflict_sources :: "string list"
  ambiguity :: rat
  ambiguity_reason :: "string option"
  b_verified :: bool
  b_verified_by :: "string option"
  effective :: "rat option"
  terms :: "(string \<times> rat) list"

text \<open>One pass over the sources that agree: distinct independent groups, first source of each.\<close>

fun corroborate :: "claim \<Rightarrow> string list \<times> string list \<Rightarrow> claim list \<Rightarrow> string list \<times> string list" where
  "corroborate winner acc [] = acc"
| "corroborate winner (groups, sources) (c # cs) =
     (if sourceKey (c_source c) = sourceKey (c_source winner)
      then corroborate winner (groups, sources) cs
      else if isDerivedFrom (c_source c) (c_source winner)
      then corroborate winner (groups, sources) cs
      else let grp = independenceGroup (c_source c) in
        if grp \<notin> set groups
        then corroborate winner (groups @ [grp], sources @ [c_source c]) cs
        else corroborate winner (groups, sources) cs)"

fun dissent :: "string list \<times> string list \<Rightarrow> claim list \<Rightarrow> string list \<times> string list" where
  "dissent acc [] = acc"
| "dissent (groups, sources) (c # cs) =
     (let grp = independenceGroup (c_source c) in
      if grp \<notin> set groups then dissent (groups @ [grp], sources @ [c_source c]) cs
      else dissent (groups, sources) cs)"

definition tuning_of :: "field_confidence_options \<Rightarrow> confidence_tuning" where
  "tuning_of options = (case o_tuning options of Some t \<Rightarrow> t | None \<Rightarrow> DEFAULT_CONFIDENCE_TUNING)"

definition field_decay :: "confidence_tuning \<Rightarrow> int \<Rightarrow> claim \<Rightarrow> rat option" where
  "field_decay t now winner = (let winnerEntry = getSourceReliability (c_source winner) in
     if decays winnerEntry then decayLoss (ingested_at winner) now (decayRate t) else Some 0)"

definition field_corroboration ::
    "confidence_tuning \<Rightarrow> claim list \<Rightarrow> claim \<Rightarrow> rat \<times> string list" where
  "field_corroboration t claims winner =
     (let agreeing = filter (\<lambda>c. valuesEqual (c_value c) (c_value winner)) claims;
          (corrobGroups, corrobSources) = corroborate winner ([], []) agreeing
      in (min (corrobPer t * of_nat (length corrobGroups)) (corrobCap t), corrobSources))"

definition field_conflict ::
    "confidence_tuning \<Rightarrow> claim list \<Rightarrow> claim \<Rightarrow> rat \<times> string list" where
  "field_conflict t claims winner =
     (let disagreeing = filter (\<lambda>c. \<not> valuesEqual (c_value c) (c_value winner)) claims;
          (dissentGroups, conflictSources) = dissent ([], []) disagreeing
      in (if length dissentGroups = 0 then 0
          else conflictBase t + conflictPer t * of_nat (length dissentGroups - 1), conflictSources))"

definition field_ambiguity :: "confidence_tuning \<Rightarrow> nat \<Rightarrow> rat" where
  "field_ambiguity t ambiguityCount =
     (if ambiguityCount > 1 then min (ambigPer t * of_nat (ambiguityCount - 1)) (ambigCap t) else 0)"

definition verified_claim_of :: "claim list \<Rightarrow> claim \<Rightarrow> claim option" where
  "verified_claim_of claims winner = find_first (\<lambda>c. sourceKey (c_source c) = ''verified'' \<and>
     valuesEqual (coalesce (verified_value c) (c_value c)) (c_value winner)) claims"

text \<open>\<open>if (x > 0) terms.push(...)\<close>; a \<open>NaN\<close> pushes nothing.\<close>

definition term_if_pos :: "rat option \<Rightarrow> string \<Rightarrow> rat \<Rightarrow> (string \<times> rat) list" where
  "term_if_pos x lbl delta = (case x of None \<Rightarrow> [] | Some v \<Rightarrow> if v > 0 then [(lbl, delta)] else [])"

definition computeFieldConfidence ::
    "claim list \<Rightarrow> claim \<Rightarrow> field_confidence_options \<Rightarrow> breakdown" where
  "computeFieldConfidence claims winner options =
     (let t = tuning_of options;
          base = c_confidence winner;
          decay = field_decay t (o_now options) winner;
          (corrob, corrobSources) = field_corroboration t claims winner;
          (conf, conflictSources) = field_conflict t claims winner;
          ambiguityCount = (case o_ambiguityCount options of Some n \<Rightarrow> n | None \<Rightarrow> 0);
          ambig = field_ambiguity t ambiguityCount;
          effective0 = map_option (\<lambda>d. clamp01 (base - d + corrob - conf - ambig)) decay;
          verifiedClaim = verified_claim_of claims winner;
          verified = (verifiedClaim \<noteq> None);
          bumped = (case effective0 of Some e \<Rightarrow> verified \<and> e < verifiedFloor t | None \<Rightarrow> False);
          verifiedBump = (if bumped then verifiedFloor t - the effective0 else 0);
          eff = (if bumped then Some (verifiedFloor t) else effective0);
          trms = [(''base ('' @ c_source winner @ '')'', base)]
            @ term_if_pos decay ''decay'' (- the decay)
            @ term_if_pos (Some corrob) (''corroborated by '' @ join '', '' corrobSources) corrob
            @ term_if_pos (Some conf) (''conflict ('' @ join '', '' conflictSources @ '')'') (- conf)
            @ term_if_pos (Some ambig) (case o_ambiguityReason options of Some r \<Rightarrow> r
                 | None \<Rightarrow> ''ambiguity ('' @ show_nat ambiguityCount @ '')'') (- ambig)
            @ term_if_pos (Some verifiedBump) ''verified floor'' verifiedBump
      in \<lparr>b_base = base, base_source = c_source winner, b_decay = decay, corroboration = corrob,
          corroboration_sources = corrobSources, conflict = conf, conflict_sources = conflictSources,
          ambiguity = ambig,
          ambiguity_reason = (if ambig > 0 then o_ambiguityReason options else None),
          b_verified = verified, b_verified_by = Option.bind verifiedClaim verified_by,
          effective = eff, terms = trms\<rparr>)"

datatype verification_status = UNVERIFIED | CORROBORATED | USER_VERIFIED | DISPUTED | STALE

record verification_status_input =
  vs_breakdown :: breakdown
  hasConflict :: bool
  isStale :: bool
  needsReview :: bool

definition deriveVerificationStatus :: "verification_status_input \<Rightarrow> verification_status" where
  "deriveVerificationStatus inp =
     (if b_verified (vs_breakdown inp) then USER_VERIFIED
      else if hasConflict inp then DISPUTED
      else if isStale inp then STALE
      else if length (corroboration_sources (vs_breakdown inp)) > 0 then CORROBORATED
      else UNVERIFIED)"

section \<open>Facts about the parts\<close>

lemma clamp01_range: "0 \<le> clamp01 x" "clamp01 x \<le> 1"
  by (auto simp: clamp01_def)

lemma clamp01_id: "0 \<le> x \<Longrightarrow> x \<le> 1 \<Longrightarrow> clamp01 x = x"
  by (auto simp: clamp01_def)

lemma clamp01_mono: "x \<le> y \<Longrightarrow> clamp01 x \<le> clamp01 y"
  by (auto simp: clamp01_def)

lemma valuesEqual_refl [simp]: "valuesEqual a a"
  by (simp add: valuesEqual_def)

lemma weeksSince_nonneg: "weeksSince s now = Some w \<Longrightarrow> 0 \<le> w"
  by (auto simp: weeksSince_def)

lemma weeksSince_mono:
  "now \<le> now' \<Longrightarrow> weeksSince s now = Some w \<Longrightarrow> \<exists>w'. weeksSince s now' = Some w' \<and> w \<le> w'"
  by (auto simp: weeksSince_def MS_PER_WEEK_def intro!: max.mono divide_right_mono)

text \<open>
  What the pass over agreeing sources collects: pairwise distinct groups, one source each,
  none of them the winner's own group or lineage.
\<close>

definition witness_ok :: "claim \<Rightarrow> claim list \<Rightarrow> string \<Rightarrow> bool" where
  "witness_ok winner claims s \<longleftrightarrow> s \<in> c_source ` set claims \<and> sourceKey s \<noteq> sourceKey (c_source winner) \<and>
     \<not> isDerivedFrom s (c_source winner)"

lemma witness_okD:
  "witness_ok winner claims s \<Longrightarrow> independenceGroup s \<noteq> independenceGroup (c_source winner) \<and>
    (\<exists>c \<in> set claims. c_source c = s)"
  by (auto simp: witness_ok_def isDerivedFrom_def split: if_splits)

lemma corroborate_inv:
  "corroborate winner (groups, sources) cs = (groups', sources') \<Longrightarrow>
    groups = map independenceGroup sources \<Longrightarrow> distinct groups \<Longrightarrow>
    groups' = map independenceGroup sources' \<and> distinct groups' \<and>
    (\<forall>s \<in> set sources'. s \<in> set sources \<or> witness_ok winner cs s)"
proof (induction cs arbitrary: groups sources)
  case (Cons c cs)
  let ?skip = "sourceKey (c_source c) = sourceKey (c_source winner) \<or>
    isDerivedFrom (c_source c) (c_source winner)"
  show ?case
  proof (cases "?skip \<or> independenceGroup (c_source c) \<in> set groups")
    case True
    then have "corroborate winner (groups, sources) cs = (groups', sources')"
      using Cons.prems(1) by (simp add: Let_def split: if_splits)
    from Cons.IH [OF this Cons.prems(2,3)] show ?thesis by (auto simp: witness_ok_def)
  next
    case False
    then have "corroborate winner (groups @ [independenceGroup (c_source c)], sources @ [c_source c]) cs
        = (groups', sources')"
      using Cons.prems(1) by (auto simp: Let_def)
    from Cons.IH [OF this] False Cons.prems(2,3) show ?thesis by (auto simp: witness_ok_def)
  qed
qed simp

lemma dissent_inv:
  "dissent (groups, sources) cs = (groups', sources') \<Longrightarrow>
    groups = map independenceGroup sources \<Longrightarrow> distinct groups \<Longrightarrow>
    groups' = map independenceGroup sources' \<and> distinct groups' \<and>
    set groups' = set groups \<union> independenceGroup ` c_source ` set cs"
proof (induction cs arbitrary: groups sources)
  case (Cons c cs)
  show ?case
  proof (cases "independenceGroup (c_source c) \<in> set groups")
    case True
    then have "dissent (groups, sources) cs = (groups', sources')"
      using Cons.prems(1) by (simp add: Let_def)
    from Cons.IH [OF this Cons.prems(2,3)] True show ?thesis by auto
  next
    case False
    then have "dissent (groups @ [independenceGroup (c_source c)], sources @ [c_source c]) cs
        = (groups', sources')"
      using Cons.prems(1) by (simp add: Let_def)
    from Cons.IH [OF this] False Cons.prems(2,3) show ?thesis by auto
  qed
qed auto

definition nonneg_tuning :: "confidence_tuning \<Rightarrow> bool" where
  "nonneg_tuning t \<longleftrightarrow> 0 \<le> decayRate t \<and> 0 \<le> corrobPer t \<and> 0 \<le> corrobCap t \<and> 0 < conflictBase t \<and>
     0 \<le> conflictPer t \<and> 0 \<le> ambigPer t \<and> 0 \<le> ambigCap t \<and> 0 \<le> verifiedFloor t \<and> verifiedFloor t \<le> 1"

lemma default_tuning_nonneg: "nonneg_tuning DEFAULT_CONFIDENCE_TUNING"
  by (simp add: nonneg_tuning_def DEFAULT_CONFIDENCE_TUNING_def)

text \<open>The fields of the breakdown, one equation each.\<close>

lemma breakdown_fields [simp]:
  "b_base (computeFieldConfidence cs w op) = c_confidence w"
  "b_decay (computeFieldConfidence cs w op) = field_decay (tuning_of op) (o_now op) w"
  "corroboration (computeFieldConfidence cs w op) = fst (field_corroboration (tuning_of op) cs w)"
  "corroboration_sources (computeFieldConfidence cs w op) = snd (field_corroboration (tuning_of op) cs w)"
  "conflict (computeFieldConfidence cs w op) = fst (field_conflict (tuning_of op) cs w)"
  "conflict_sources (computeFieldConfidence cs w op) = snd (field_conflict (tuning_of op) cs w)"
  "b_verified (computeFieldConfidence cs w op) = (verified_claim_of cs w \<noteq> None)"
  "b_verified_by (computeFieldConfidence cs w op) = Option.bind (verified_claim_of cs w) verified_by"
  by (simp_all add: computeFieldConfidence_def Let_def case_prod_beta)

text \<open>The score before the verification override.\<close>

definition raw_score :: "breakdown \<Rightarrow> rat option" where
  "raw_score b = map_option (\<lambda>d. b_base b - d + corroboration b - conflict b - ambiguity b) (b_decay b)"

lemma effective_cases:
  "effective (computeFieldConfidence cs w op) =
     (case map_option clamp01 (raw_score (computeFieldConfidence cs w op)) of None \<Rightarrow> None
      | Some e \<Rightarrow> Some (if verified_claim_of cs w \<noteq> None \<and> e < verifiedFloor (tuning_of op)
          then verifiedFloor (tuning_of op) else e))"
  by (cases "field_decay (tuning_of op) (o_now op) w")
    (simp_all add: computeFieldConfidence_def raw_score_def Let_def case_prod_beta)

lemma field_decay_nonneg: "0 \<le> decayRate t \<Longrightarrow> field_decay t now w = Some d \<Longrightarrow> 0 \<le> d"
  using weeksSince_nonneg by (auto simp: field_decay_def decayLoss_def Let_def split: if_splits)

lemma score_parts_nonneg:
  assumes "nonneg_tuning t"
  shows "0 \<le> fst (field_corroboration t cs w)" "0 \<le> fst (field_conflict t cs w)"
    "0 \<le> field_ambiguity t n"
  using assms
  by (simp_all add: field_corroboration_def field_conflict_def field_ambiguity_def nonneg_tuning_def
      Let_def case_prod_beta)

lemma sum_term_if_pos:
  "0 \<le> v \<Longrightarrow> sum_list (map snd (term_if_pos (Some v) l v)) = v"
  "0 \<le> v \<Longrightarrow> sum_list (map snd (term_if_pos (Some v) l (- v))) = - v"
  by (auto simp: term_if_pos_def)

lemma terms_sum:
  assumes "nonneg_tuning (tuning_of op)"
    and raw: "raw_score (computeFieldConfidence cs w op) = Some r" and r: "0 \<le> r" "r \<le> 1"
  shows "effective (computeFieldConfidence cs w op) =
    Some (sum_list (map snd (terms (computeFieldConfidence cs w op))))"
proof -
  obtain d where d: "field_decay (tuning_of op) (o_now op) w = Some d" "0 \<le> d"
    using raw assms(1) field_decay_nonneg by (auto simp: raw_score_def nonneg_tuning_def)
  note nn = score_parts_nonneg(1,2) [OF assms(1), of cs w] score_parts_nonneg(3) [OF assms(1)]
  show ?thesis
    using raw r d nn clamp01_id [OF r]
    by (simp add: computeFieldConfidence_def raw_score_def Let_def case_prod_beta sum_term_if_pos)
qed

lemma corroboration_facts:
  shows "distinct (map independenceGroup (snd (field_corroboration t claims winner)))"
    and "s \<in> set (snd (field_corroboration t claims winner)) \<Longrightarrow>
      witness_ok winner (filter (\<lambda>c. valuesEqual (c_value c) (c_value winner)) claims) s"
    and "0 \<le> corrobCap t \<Longrightarrow> fst (field_corroboration t claims winner) \<le> corrobCap t"
proof -
  let ?agree = "filter (\<lambda>c. valuesEqual (c_value c) (c_value winner)) claims"
  obtain gs ss where e: "corroborate winner ([], []) ?agree = (gs, ss)" by fastforce
  from corroborate_inv [OF e] have inv: "gs = map independenceGroup ss" "distinct gs"
    "\<forall>s \<in> set ss. witness_ok winner ?agree s" by auto
  have f: "field_corroboration t claims winner =
      (min (corrobPer t * of_nat (length gs)) (corrobCap t), ss)"
    by (simp add: field_corroboration_def e)
  show "distinct (map independenceGroup (snd (field_corroboration t claims winner)))"
    "s \<in> set (snd (field_corroboration t claims winner)) \<Longrightarrow> witness_ok winner ?agree s"
    "0 \<le> corrobCap t \<Longrightarrow> fst (field_corroboration t claims winner) \<le> corrobCap t"
    using inv by (auto simp: f)
qed

lemma conflict_zero_iff:
  assumes "nonneg_tuning t"
  shows "fst (field_conflict t claims winner) = 0 \<longleftrightarrow>
    (\<forall>c \<in> set claims. valuesEqual (c_value c) (c_value winner))"
proof -
  let ?dis = "filter (\<lambda>c. \<not> valuesEqual (c_value c) (c_value winner)) claims"
  obtain gs ss where e: "dissent ([], []) ?dis = (gs, ss)" by fastforce
  have "[] = map independenceGroup []" "distinct ([] :: string list)" by simp_all
  from dissent_inv [OF e this, THEN conjunct2, THEN conjunct2]
  have "set gs = independenceGroup ` c_source ` set ?dis" by simp
  then have "gs = [] \<longleftrightarrow> ?dis = []" by (metis image_is_empty set_empty)
  moreover have "fst (field_conflict t claims winner) = 0 \<longleftrightarrow> gs = []"
  proof (cases gs)
    case (Cons g gs')
    have "0 < conflictBase t" "0 \<le> conflictPer t * of_nat (length gs')"
      using assms by (auto simp: nonneg_tuning_def)
    then show ?thesis by (simp add: field_conflict_def e Cons)
  qed (simp add: field_conflict_def e)
  ultimately show ?thesis by (auto simp: filter_empty_conv)
qed

section \<open>Sample data\<close>

definition sample_claim :: "string \<Rightarrow> jsval \<Rightarrow> claim" where
  "sample_claim src v = \<lparr>property_key = ''tier'', c_value = v, c_source = src, c_source_id = ''id-1'',
     ingested_at = ''2026-10-03T00:00:00.000Z'', c_confidence = 9/10, evidence = None,
     verified_by = None, verified_at = None, verified_value = JUndefined\<rparr>"

definition sample_options :: field_confidence_options where
  "sample_options = \<lparr>o_now = 1791590400000, o_tuning = None, o_ambiguityCount = None, o_ambiguityReason = None\<rparr>"

definition sample_group :: "claim list" where
  "sample_group = [sample_claim ''github'' (JNum ''1''), sample_claim ''datadog'' (JNum ''1''),
     sample_claim ''login'' (JNum ''1''), sample_claim ''kubernetes'' (JNum ''2'')]"

lemma sample_tuning: "nonneg_tuning (tuning_of sample_options)"
  by (simp add: sample_options_def tuning_of_def default_tuning_nonneg)

section \<open>Properties\<close>

text \<open>
  The effective confidence of a field lies between 0 and 1, and a field with a matching
  \<open>verified:\<close> claim never scores below the verified floor.
\<close>

theorem field_confidence_range:
  assumes "nonneg_tuning (tuning_of options)"
    and "effective (computeFieldConfidence claims winner options) = Some e"
  shows "0 \<le> e \<and> e \<le> 1 \<and>
    (b_verified (computeFieldConfidence claims winner options) \<longrightarrow> verifiedFloor (tuning_of options) \<le> e)"
  using assms clamp01_range by (auto simp: effective_cases nonneg_tuning_def split: option.splits if_splits)

theorem field_confidence_range_witness:
  "effective (computeFieldConfidence (sample_claim ''verified:ann'' (JNum ''1'') # sample_group)
      (hd sample_group) sample_options) = Some (49/50) \<and> (0::rat) \<le> 49/50 \<and> (49/50::rat) \<le> 1 \<and>
   verifiedFloor (tuning_of sample_options) \<le> 49/50"
proof -
  have e: "effective (computeFieldConfidence (sample_claim ''verified:ann'' (JNum ''1'') # sample_group)
      (hd sample_group) sample_options) = Some (49/50)" by code_simp
  have v: "b_verified (computeFieldConfidence (sample_claim ''verified:ann'' (JNum ''1'') # sample_group)
      (hd sample_group) sample_options)" by code_simp
  from field_confidence_range [OF sample_tuning e] v e show ?thesis by blast
qed

text \<open>
  Corroboration counts independent witnesses only. The sources that raise a field's
  score assert the winner's value, belong to pairwise distinct independence groups, none of
  them the winner's, and their bonus is capped.
\<close>

theorem corroboration_independent:
  assumes "nonneg_tuning (tuning_of options)"
  shows "let b = computeFieldConfidence claims winner options in
    distinct (map independenceGroup (corroboration_sources b)) \<and>
    (\<forall>s \<in> set (corroboration_sources b).
       independenceGroup s \<noteq> independenceGroup (c_source winner) \<and>
       (\<exists>c \<in> set claims. c_source c = s \<and> valuesEqual (c_value c) (c_value winner))) \<and>
    corroboration b \<le> corrobCap (tuning_of options)"
proof -
  have "corrobCap (tuning_of options) \<ge> 0" using assms by (simp add: nonneg_tuning_def)
  then show ?thesis
    using corroboration_facts(1,3) [of "tuning_of options" claims winner]
      corroboration_facts(2) [of _ "tuning_of options" claims winner, THEN witness_okD]
    by (auto simp: Let_def)
qed

theorem corroboration_independent_witness:
  "corroboration_sources (computeFieldConfidence sample_group (hd sample_group) sample_options) = [''datadog''] \<and>
   corroboration (computeFieldConfidence sample_group (hd sample_group) sample_options)
     \<le> corrobCap (tuning_of sample_options)"
proof
  show "corroboration_sources (computeFieldConfidence sample_group (hd sample_group) sample_options) = [''datadog'']"
    by code_simp
  show "corroboration (computeFieldConfidence sample_group (hd sample_group) sample_options)
     \<le> corrobCap (tuning_of sample_options)"
    using corroboration_independent [OF sample_tuning, of sample_group "hd sample_group"]
    unfolding Let_def by blast
qed

text \<open>
  The breakdown explains the score: when the sum of the parts needs no clamping, the
  deltas of the printed terms, the verified bump included, add up to the effective confidence.
\<close>

theorem breakdown_explains:
  assumes "nonneg_tuning (tuning_of options)"
    and "raw_score (computeFieldConfidence claims winner options) = Some r" "0 \<le> r" "r \<le> 1"
  shows "effective (computeFieldConfidence claims winner options) =
    Some (sum_list (map snd (terms (computeFieldConfidence claims winner options))))"
  using assms by (rule terms_sum)

theorem breakdown_explains_witness:
  "effective (computeFieldConfidence sample_group (hd sample_group) sample_options) =
    Some (sum_list (map snd (terms (computeFieldConfidence sample_group (hd sample_group) sample_options))))"
proof -
  have "raw_score (computeFieldConfidence sample_group (hd sample_group) sample_options) = Some (41/50)"
    by code_simp
  from breakdown_explains [OF sample_tuning this] show ?thesis by simp
qed

end
