(* ===== verification/Claims.thy ===== *)
theory Claims
  imports Confidence "HOL-Library.Multiset"
begin

text \<open>
  Claim resolution in the writer: the five strategies
  (\<open>packages/core-writer/src/claims/strategies.ts\<close>) and the resolver that merges incoming
  claims into the stored ones and picks each property's value
  (\<open>packages/core-writer/src/claims/resolver.ts\<close>).
\<close>

record resolution =
  effective_value :: jsval
  winning_claim :: claim
  used_strategy :: strategy
  all_claims :: "claim list"

text \<open>A comparator's \<open>NaN\<close> counts as 0.\<close>

definition latest_first :: "string \<Rightarrow> string \<Rightarrow> rat" where
  "latest_first a b = (case (date_parse a, date_parse b) of
     (Some ta, Some tb) \<Rightarrow> of_int (tb - ta) | _ \<Rightarrow> 0)"

definition compare_effective ::
    "int \<Rightarrow> rat \<Rightarrow> claim \<Rightarrow> claim \<Rightarrow> rat" where
  "compare_effective now rate a b =
     (let ea = computeEffectiveConfidence (c_confidence a) (ingested_at a) now rate;
          eb = computeEffectiveConfidence (c_confidence b) (ingested_at b) now rate in
      case (ea, eb) of
        (Some x, Some y) \<Rightarrow> (if y \<noteq> x then y - x else latest_first (ingested_at a) (ingested_at b))
      | _ \<Rightarrow> 0)"

definition resolveHighestConfidence :: "claim list \<Rightarrow> rat \<Rightarrow> int \<Rightarrow> resolution" where
  "resolveHighestConfidence claims rate now =
     (let winner = hd (js_sort (compare_effective now rate) claims) in
      \<lparr>effective_value = c_value winner, winning_claim = winner,
       used_strategy = HIGHEST_CONFIDENCE, all_claims = claims\<rparr>)"

definition resolveManualOverrideFirst :: "claim list \<Rightarrow> rat \<Rightarrow> int \<Rightarrow> resolution" where
  "resolveManualOverrideFirst claims rate now =
     (case pickManualOverride claims of
        Some override \<Rightarrow> \<lparr>effective_value = c_value override, winning_claim = override,
          used_strategy = MANUAL_OVERRIDE_FIRST, all_claims = claims\<rparr>
      | None \<Rightarrow> (resolveHighestConfidence claims rate now)\<lparr>used_strategy := MANUAL_OVERRIDE_FIRST\<rparr>)"

definition resolveAuthoritativeOrder :: "claim list \<Rightarrow> resolution" where
  "resolveAuthoritativeOrder claims =
     (let winner = hd (js_sort (\<lambda>a b. of_nat (sourceRank (c_source a)) - of_nat (sourceRank (c_source b))) claims) in
      \<lparr>effective_value = c_value winner, winning_claim = winner,
       used_strategy = AUTHORITATIVE_ORDER, all_claims = claims\<rparr>)"

definition resolveLatestTimestamp :: "claim list \<Rightarrow> resolution" where
  "resolveLatestTimestamp claims =
     (let winner = hd (js_sort (\<lambda>a b. latest_first (ingested_at a) (ingested_at b)) claims) in
      \<lparr>effective_value = c_value winner, winning_claim = winner,
       used_strategy = LATEST_TIMESTAMP, all_claims = claims\<rparr>)"

text \<open>The strings one claim contributes: an array's elements, or the value itself.\<close>

fun merge_set_values :: "jsval \<Rightarrow> string list" where
  "merge_set_values (JArr vs) = map js_String vs"
| "merge_set_values v = [js_String v]"

definition resolveMergeSet :: "claim list \<Rightarrow> resolution" where
  "resolveMergeSet claims =
     (let allValues = fold (\<lambda>c s. fold (\<lambda>v s. set_add s v) (merge_set_values (c_value c)) s) claims [] in
      \<lparr>effective_value = JArr (map JStr allValues), winning_claim = hd claims,
       used_strategy = MERGE_SET, all_claims = claims\<rparr>)"

fun resolveClaims :: "claim list \<Rightarrow> strategy \<Rightarrow> rat \<Rightarrow> int \<Rightarrow> resolution option" where
  "resolveClaims claims strategy rate now =
     (if claims = [] then None
      else Some (case strategy of
          MANUAL_OVERRIDE_FIRST \<Rightarrow> resolveManualOverrideFirst claims rate now
        | HIGHEST_CONFIDENCE \<Rightarrow> resolveHighestConfidence claims rate now
        | AUTHORITATIVE_ORDER \<Rightarrow> resolveAuthoritativeOrder claims
        | LATEST_TIMESTAMP \<Rightarrow> resolveLatestTimestamp claims
        | MERGE_SET \<Rightarrow> resolveMergeSet claims))"

section \<open>The resolver\<close>

record resolver_options =
  defaultStrategy :: strategy
  strategyOverrides :: "string \<rightharpoonup> strategy"
  resolverDecayRate :: rat

definition DEFAULT_RESOLVER_OPTIONS :: resolver_options where
  "DEFAULT_RESOLVER_OPTIONS = \<lparr>defaultStrategy = HIGHEST_CONFIDENCE,
     strategyOverrides = Map.empty, resolverDecayRate = 1/100\<rparr>"

definition same_slot :: "claim \<Rightarrow> claim \<Rightarrow> bool" where
  "same_slot c d = (c_source c = c_source d \<and> c_source_id c = c_source_id d \<and>
     property_key c = property_key d)"

fun mergeClaims :: "claim list \<Rightarrow> claim list \<Rightarrow> claim list" where
  "mergeClaims merged [] = merged"
| "mergeClaims merged (claim # incoming) =
     (case find_index (\<lambda>c. same_slot c claim) merged of
        Some idx \<Rightarrow> mergeClaims (merged[idx := claim]) incoming
      | None \<Rightarrow> mergeClaims (merged @ [claim]) incoming)"

text \<open>A \<open>Map\<close> from property keys to claims, in insertion order.\<close>

fun group_add :: "(string \<times> claim list) list \<Rightarrow> claim \<Rightarrow> (string \<times> claim list) list" where
  "group_add [] c = [(property_key c, [c])]"
| "group_add ((k, cs) # rest) c =
     (if k = property_key c then (k, cs @ [c]) # rest else (k, cs) # group_add rest c)"

definition strategy_for :: "resolver_options \<Rightarrow> string \<Rightarrow> strategy" where
  "strategy_for opts k = (case strategyOverrides opts k of Some s \<Rightarrow> s | None \<Rightarrow> defaultStrategy opts)"

fun effective_properties ::
    "resolver_options \<Rightarrow> int \<Rightarrow> (string \<times> claim list) list \<Rightarrow> (string \<rightharpoonup> jsval)" where
  "effective_properties opts now groups =
     fold (\<lambda>(k, cs) props. case resolveClaims cs (strategy_for opts k) (resolverDecayRate opts) now of
          Some r \<Rightarrow> props(k \<mapsto> effective_value r) | None \<Rightarrow> props) groups Map.empty"

definition resolve ::
    "resolver_options \<Rightarrow> claim list \<Rightarrow> claim list \<Rightarrow> int \<Rightarrow> claim list \<times> (string \<rightharpoonup> jsval)" where
  "resolve opts existingClaims incomingClaims now =
     (let mergedClaims = mergeClaims existingClaims incomingClaims;
          claimsByProperty = fold (\<lambda>c m. group_add m c) mergedClaims []
      in (mergedClaims, effective_properties opts now claimsByProperty))"

definition resolveProperty ::
    "resolver_options \<Rightarrow> string \<Rightarrow> claim list \<Rightarrow> int \<Rightarrow> resolution option" where
  "resolveProperty opts k claims now =
     resolveClaims claims (strategy_for opts k) (resolverDecayRate opts) now"

section \<open>Facts about the comparators\<close>

definition dated :: "claim \<Rightarrow> bool" where
  "dated c = (date_parse (ingested_at c) \<noteq> None)"

text \<open>On claims with readable stamps both time comparators are total preorders.\<close>

definition claim_time :: "claim \<Rightarrow> int" where
  "claim_time c = the (date_parse (ingested_at c))"

definition claim_score :: "int \<Rightarrow> rat \<Rightarrow> claim \<Rightarrow> rat" where
  "claim_score now rate c =
     the (computeEffectiveConfidence (c_confidence c) (ingested_at c) now rate)"

lemma latest_first_dated:
  "dated a \<Longrightarrow> dated b \<Longrightarrow> latest_first (ingested_at a) (ingested_at b) = of_int (claim_time b - claim_time a)"
  by (auto simp: dated_def latest_first_def claim_time_def)

lemma computeEffectiveConfidence_dated:
  "dated c \<Longrightarrow> computeEffectiveConfidence (c_confidence c) (ingested_at c) now rate = Some (claim_score now rate c)"
  by (auto simp: dated_def claim_score_def computeEffectiveConfidence_def decayLoss_def weeksSince_def)

lemma compare_effective_dated:
  assumes "dated a" "dated b"
  shows "compare_effective now rate a b \<le> 0 \<longleftrightarrow>
     claim_score now rate b < claim_score now rate a \<or>
     claim_score now rate b = claim_score now rate a \<and> claim_time b \<le> claim_time a"
  using assms
  by (cases "claim_score now rate b" "claim_score now rate a" rule: linorder_cases)
    (simp_all add: compare_effective_def computeEffectiveConfidence_dated latest_first_dated)

lemma compare_effective_order:
  "dated a \<Longrightarrow> dated b \<Longrightarrow> dated c \<Longrightarrow> compare_effective now rate a b \<le> 0 \<Longrightarrow>
    compare_effective now rate b c \<le> 0 \<Longrightarrow> compare_effective now rate a c \<le> 0"
  "dated a \<Longrightarrow> dated b \<Longrightarrow> compare_effective now rate a b \<le> 0 \<or> compare_effective now rate b a \<le> 0"
  by (simp only: compare_effective_dated, elim disjE conjE, simp_all)
    (simp only: compare_effective_dated, linarith)

text \<open>
  Sorting only compares elements of the list, so the minimality of its head needs the
  ordering laws on those elements alone.
\<close>

lemma hd_js_sort_min_on:
  assumes trans: "\<And>a b c. P a \<Longrightarrow> P b \<Longrightarrow> P c \<Longrightarrow> cmp a b \<le> 0 \<Longrightarrow> cmp b c \<le> 0 \<Longrightarrow> cmp a c \<le> 0"
    and total: "\<And>a b. P a \<Longrightarrow> P b \<Longrightarrow> cmp a b \<le> 0 \<or> cmp b a \<le> 0"
  shows "\<forall>y \<in> set xs. P y \<Longrightarrow> x \<in> set xs \<Longrightarrow> cmp (hd (js_sort cmp xs)) x \<le> (0::rat)"
proof (induction xs arbitrary: x)
  case (Cons y ys)
  show ?case
  proof (cases "ys = []")
    case True
    then show ?thesis using Cons.prems total [of y y] by simp
  next
    case False
    let ?h = "hd (js_sort cmp ys)"
    have P: "P y" "P x" "P ?h" using Cons.prems hd_js_sort_in [OF False, of cmp] by auto
    have "cmp y x \<le> 0" if "cmp y ?h \<le> 0"
      using Cons.prems Cons.IH [of x] trans [OF P(1,3,2) that] total [OF P(1,1)] by auto
    moreover have "cmp ?h x \<le> 0" if "\<not> cmp y ?h \<le> 0"
      using Cons.prems Cons.IH [of x] that total [OF P(1,3)] by auto
    ultimately show ?thesis using False by (simp add: hd_insert_by)
  qed
qed simp

lemma highest_confidence_winner:
  assumes "claims \<noteq> []"
  shows "winning_claim (resolveHighestConfidence claims rate now) \<in> set claims"
    and "\<forall>c \<in> set claims. dated c \<Longrightarrow> c \<in> set claims \<Longrightarrow>
      claim_score now rate c < claim_score now rate (winning_claim (resolveHighestConfidence claims rate now)) \<or>
      claim_score now rate c = claim_score now rate (winning_claim (resolveHighestConfidence claims rate now)) \<and>
      claim_time c \<le> claim_time (winning_claim (resolveHighestConfidence claims rate now))"
proof -
  let ?w = "hd (js_sort (compare_effective now rate) claims)"
  have w: "winning_claim (resolveHighestConfidence claims rate now) = ?w"
    by (simp add: resolveHighestConfidence_def Let_def)
  show "winning_claim (resolveHighestConfidence claims rate now) \<in> set claims"
    using hd_js_sort_in [OF assms] by (simp add: w)
  assume d: "\<forall>c \<in> set claims. dated c" and c: "c \<in> set claims"
  have "compare_effective now rate ?w c \<le> 0"
    by (rule hd_js_sort_min_on [where P = dated, OF compare_effective_order]) (use d c in auto)
  moreover have "dated ?w" using d hd_js_sort_in [OF assms] by blast
  ultimately show "claim_score now rate c < claim_score now rate (winning_claim (resolveHighestConfidence claims rate now)) \<or>
      claim_score now rate c = claim_score now rate (winning_claim (resolveHighestConfidence claims rate now)) \<and>
      claim_time c \<le> claim_time (winning_claim (resolveHighestConfidence claims rate now))"
    using d c by (simp add: w compare_effective_dated)
qed

section \<open>Merging, as a map from slots to claims\<close>

text \<open>
  The identity of a claim is its slot: source, source id and property. The abstract view of
  a claim list is the map from slots to their first claim.
\<close>

definition slot :: "claim \<Rightarrow> string \<times> string \<times> string" where
  "slot c = (c_source c, c_source_id c, property_key c)"

definition slot_map :: "claim list \<Rightarrow> (string \<times> string \<times> string) \<rightharpoonup> claim" where
  "slot_map cs = map_of (map (\<lambda>c. (slot c, c)) cs)"

text \<open>Abstractly an incoming claim overwrites its slot.\<close>

definition slot_put :: "((string \<times> string \<times> string) \<rightharpoonup> claim) \<Rightarrow> claim \<Rightarrow> ((string \<times> string \<times> string) \<rightharpoonup> claim)" where
  "slot_put s c = s(slot c \<mapsto> c)"

lemma slot_put_apply: "slot_put s c k = (if k = slot c then Some c else s k)"
  by (simp add: slot_put_def)

lemma same_slot_iff: "same_slot c d \<longleftrightarrow> slot c = slot d"
  by (auto simp: same_slot_def slot_def)

lemma slot_map_Cons [simp]: "slot_map (c # cs) = (slot_map cs)(slot c \<mapsto> c)"
  by (simp add: slot_map_def)

lemma slot_map_Nil [simp]: "slot_map [] = Map.empty"
  by (simp add: slot_map_def)

lemma slot_map_snoc:
  "\<forall>d \<in> set cs. slot d \<noteq> slot c \<Longrightarrow> slot_map (cs @ [c]) = (slot_map cs)(slot c \<mapsto> c)"
  by (induction cs) (auto simp: fun_upd_twist)

lemma slot_map_update:
  "find_index (\<lambda>d. same_slot d c) cs = Some i \<Longrightarrow> slot_map (cs[i := c]) = (slot_map cs)(slot c \<mapsto> c)"
  by (induction cs arbitrary: i) (auto simp: same_slot_iff fun_upd_twist split: if_splits)

definition merge_one :: "claim list \<Rightarrow> claim \<Rightarrow> claim list" where
  "merge_one m c = (case find_index (\<lambda>d. same_slot d c) m of Some i \<Rightarrow> m[i := c] | None \<Rightarrow> m @ [c])"

lemma mergeClaims_foldl: "mergeClaims m inc = foldl merge_one m inc"
  by (induction m inc rule: mergeClaims.induct) (auto simp: merge_one_def split: option.splits)

lemma slot_map_merge_one: "slot_map (merge_one m c) = slot_put (slot_map m) c"
  by (auto simp: merge_one_def slot_map_update slot_map_snoc find_index_None same_slot_iff slot_put_def
      split: option.splits)

lemma slot_map_mergeClaims: "slot_map (mergeClaims m inc) = foldl slot_put (slot_map m) inc"
  unfolding mergeClaims_foldl by (induction inc arbitrary: m) (auto simp: slot_map_merge_one)

lemma merge_one_slots:
  "distinct (map slot m) \<Longrightarrow> distinct (map slot (merge_one m c))"
proof (cases "find_index (\<lambda>d. same_slot d c) m")
  case None
  then have "slot c \<notin> slot ` set m" by (auto simp: find_index_None same_slot_iff)
  with None show "distinct (map slot m) \<Longrightarrow> ?thesis" by (simp add: merge_one_def)
next
  case (Some i)
  then have "map slot (m[i := c]) = map slot m"
    using find_index_Some [OF Some] by (simp add: map_update same_slot_iff list_update_same_conv)
  with Some show "distinct (map slot m) \<Longrightarrow> ?thesis" by (simp add: merge_one_def)
qed

lemma merge_one_keeps: "d \<in> set m \<Longrightarrow> slot d \<noteq> slot c \<Longrightarrow> d \<in> set (merge_one m c)"
proof (cases "find_index (\<lambda>d. same_slot d c) m")
  case (Some i)
  assume "d \<in> set m" "slot d \<noteq> slot c"
  then obtain j where j: "j < length m" "m ! j = d" "j \<noteq> i"
    using find_index_Some [OF Some] by (auto simp: in_set_conv_nth same_slot_iff)
  then have "m[i := c] ! j = d" by simp
  with j Some show ?thesis by (auto simp: merge_one_def in_set_conv_nth)
qed (simp add: merge_one_def)

lemma merge_one_id: "slot_map m (slot c) = Some c \<Longrightarrow> merge_one m c = m"
proof -
  have "slot_map m (slot c) = Some c \<Longrightarrow> \<exists>i. find_index (\<lambda>d. same_slot d c) m = Some i \<and> m[i := c] = m"
  proof (induction m)
    case (Cons d m)
    show ?case
    proof (cases "slot c = slot d")
      case True
      then show ?thesis using Cons.prems by (simp add: same_slot_iff)
    next
      case False
      then have "slot_map m (slot c) = Some c" using Cons.prems by simp
      from Cons.IH [OF this] show ?thesis using False by (auto simp: same_slot_iff)
    qed
  qed simp
  then show "slot_map m (slot c) = Some c \<Longrightarrow> ?thesis" by (auto simp: merge_one_def)
qed

lemma foldl_slots_other:
  "\<forall>c \<in> set inc. slot c \<noteq> k \<Longrightarrow> foldl slot_put s inc k = s k"
  by (induction inc arbitrary: s) (auto simp: slot_put_apply)

lemma foldl_slots_in:
  "distinct (map slot inc) \<Longrightarrow> c \<in> set inc \<Longrightarrow> foldl slot_put s inc (slot c) = Some c"
proof (induction inc arbitrary: s)
  case (Cons d inc)
  show ?case
  proof (cases "c = d")
    case True
    then have "\<forall>e \<in> set inc. slot e \<noteq> slot c" using Cons.prems(1) by (auto simp: image_iff)
    moreover have "slot_put s d (slot d) = Some d" by (rule slot_put_apply [THEN trans]) simp
    ultimately show ?thesis using foldl_slots_other [of inc "slot c" "slot_put s d"] True by simp
  next
    case False
    then show ?thesis using Cons by simp
  qed
qed simp

lemma merge_ids: "\<forall>c \<in> set inc. slot_map m (slot c) = Some c \<Longrightarrow> mergeClaims m inc = m"
  unfolding mergeClaims_foldl by (induction inc) (auto simp: merge_one_id)

section \<open>Grouping\<close>

lemma group_add_lookup:
  "map_of (group_add m c) k = (if k = property_key c
     then Some ((case map_of m k of None \<Rightarrow> [] | Some cs \<Rightarrow> cs) @ [c]) else map_of m k)"
  by (induction m c rule: group_add.induct) auto

lemma group_add_keys:
  "fst ` set (group_add m c) = insert (property_key c) (fst ` set m)"
  "distinct (map fst m) \<Longrightarrow> distinct (map fst (group_add m c))"
  by (induction m c rule: group_add.induct) auto

lemma group_all:
  "distinct (map fst m) \<Longrightarrow>
    distinct (map fst (fold (\<lambda>c m. group_add m c) cs m)) \<and>
    map_of (fold (\<lambda>c m. group_add m c) cs m) k =
      (let mine = filter (\<lambda>c. property_key c = k) cs in
       case map_of m k of Some xs \<Rightarrow> Some (xs @ mine) | None \<Rightarrow> if mine = [] then None else Some mine)"
proof (induction cs arbitrary: m)
  case Nil
  then show ?case by (simp split: option.splits)
next
  case (Cons c cs)
  have "distinct (map fst (group_add m c))" using Cons.prems by (rule group_add_keys)
  from Cons.IH [OF this] show ?case
    by (auto simp: group_add_lookup Let_def split: option.splits)
qed

lemma effective_properties_lookup:
  "distinct (map fst groups) \<Longrightarrow> effective_properties opts now groups k =
     Option.bind (map_of groups k)
       (\<lambda>cs. map_option effective_value (resolveClaims cs (strategy_for opts k) (resolverDecayRate opts) now))"
proof -
  let ?f = "\<lambda>(k, cs) props. case resolveClaims cs (strategy_for opts k) (resolverDecayRate opts) now of
          Some r \<Rightarrow> props(k \<mapsto> effective_value r) | None \<Rightarrow> props"
  have "distinct (map fst groups) \<Longrightarrow> fold ?f groups p k =
      (case Option.bind (map_of groups k)
        (\<lambda>cs. map_option effective_value (resolveClaims cs (strategy_for opts k) (resolverDecayRate opts) now))
       of Some v \<Rightarrow> Some v | None \<Rightarrow> p k)" for p
  proof (induction groups arbitrary: p)
    case (Cons g groups)
    obtain k' cs where g: "g = (k', cs)" by (cases g)
    have none: "k' = k \<Longrightarrow> map_of groups k = None"
      using Cons.prems g by (auto simp: map_of_eq_None_iff)
    show ?case using Cons g none
      by (cases "k' = k") (auto simp del: resolveClaims.simps split: option.splits)
  qed simp
  then show "distinct (map fst groups) \<Longrightarrow> ?thesis" by (simp split: option.splits)
qed

section \<open>The attestation that wins\<close>

lemma pickManualOverride_perm:
  assumes mset: "mset cs = mset cs'"
    and inj: "inj_on (\<lambda>c. (c_source c, ingested_at c)) {c \<in> set cs. is_override c}"
  shows "pickManualOverride cs = pickManualOverride cs'"
proof (cases "pickManualOverride cs")
  case None
  then show ?thesis using mset_eq_setD [OF mset] by (metis pickManualOverride_None_iff)
next
  case (Some w)
  have set: "set cs = set cs'" using mset by (rule mset_eq_setD)
  then obtain w' where w': "pickManualOverride cs' = Some w'"
    using Some by (metis not_None_eq pickManualOverride_None_iff)
  note a = pickManualOverride_min [OF Some] and b = pickManualOverride_min [OF w']
  have "\<not> compareOverride w' w < 0" "\<not> compareOverride w w' < 0" using a b set by auto
  then have "compareOverride w w' = 0" using compareOverride_antisym [of w' w] by linarith
  then have "(c_source w, ingested_at w) = (c_source w', ingested_at w')"
    by (simp add: compareOverride_zero)
  then have "w = w'" using inj a b set by (auto dest: inj_onD)
  then show ?thesis using Some w' by simp
qed

text \<open>Two attestations of one user with the same stamp tie, and the first in the list wins.\<close>

lemma override_tie_order_dependent:
  "\<exists>a b. mset [a, b] = mset [b, a] \<and> slot a \<noteq> slot b \<and>
     map_option c_value (pickManualOverride [a, b]) \<noteq> map_option c_value (pickManualOverride [b, a])"
proof -
  let ?a = "(sample_claim ''manual:ann'' (JNum ''1''))\<lparr>c_source_id := ''x''\<rparr>"
  let ?b = "(sample_claim ''manual:ann'' (JNum ''2''))\<lparr>c_source_id := ''y''\<rparr>"
  have "slot ?a \<noteq> slot ?b" by (simp add: slot_def)
  moreover have "map_option c_value (pickManualOverride [?a, ?b]) = Some (JNum ''1'')" by code_simp
  moreover have "map_option c_value (pickManualOverride [?b, ?a]) = Some (JNum ''2'')" by code_simp
  moreover have "mset [?a, ?b] = mset [?b, ?a]" by (simp add: add_mset_commute)
  ultimately have "mset [?a, ?b] = mset [?b, ?a] \<and> slot ?a \<noteq> slot ?b \<and>
     map_option c_value (pickManualOverride [?a, ?b]) \<noteq> map_option c_value (pickManualOverride [?b, ?a])"
    by (simp only: option.inject jsval.inject) simp
  then show ?thesis by blast
qed

lemma fold_values:
  "fold (\<lambda>c s. fold (\<lambda>v s. set_add s v) (f c) s) cs acc = fold (\<lambda>v s. set_add s v) (concat (map f cs)) acc"
  by (induction cs arbitrary: acc) auto

section \<open>Properties\<close>

text \<open>
  C31: Merging refines a map update. Seen as a map from slots (source, source id, property) to
  claims, the merged list is the stored one overwritten by the incoming claims in order; it
  never holds two claims for one slot, and a stored claim whose slot no incoming claim takes,
  such as a human edit during a connector sync, survives.
\<close>

theorem merge_refines_map_update:
  assumes "distinct (map slot stored)"
  shows "slot_map (mergeClaims stored incoming) = foldl slot_put (slot_map stored) incoming \<and>
    distinct (map slot (mergeClaims stored incoming)) \<and>
    (\<forall>c \<in> set stored. slot c \<notin> slot ` set incoming \<longrightarrow> c \<in> set (mergeClaims stored incoming))"
proof (intro conjI ballI impI)
  show "distinct (map slot (mergeClaims stored incoming))"
    using assms unfolding mergeClaims_foldl
    by (induction incoming arbitrary: stored) (auto simp: merge_one_slots)
  show "c \<in> set stored \<Longrightarrow> slot c \<notin> slot ` set incoming \<Longrightarrow> c \<in> set (mergeClaims stored incoming)" for c
    unfolding mergeClaims_foldl
    by (induction incoming arbitrary: stored) (auto simp: merge_one_keeps)
qed (rule slot_map_mergeClaims)

theorem merge_refines_map_update_witness:
  "let stored = [sample_claim ''manual:ann'' (JNum ''1''), sample_claim ''github'' (JNum ''2'')];
       incoming = [sample_claim ''github'' (JNum ''3'')] in
   mergeClaims stored incoming = [sample_claim ''manual:ann'' (JNum ''1''), sample_claim ''github'' (JNum ''3'')]
   \<and> sample_claim ''manual:ann'' (JNum ''1'') \<in> set (mergeClaims stored incoming)"
proof -
  let ?s = "[sample_claim ''manual:ann'' (JNum ''1''), sample_claim ''github'' (JNum ''2'')]"
  let ?i = "[sample_claim ''github'' (JNum ''3'')]"
  have d: "distinct (map slot ?s)" by (simp add: slot_def sample_claim_def)
  have n: "slot (sample_claim ''manual:ann'' (JNum ''1'')) \<notin> slot ` set ?i"
    by (simp add: slot_def sample_claim_def)
  have "sample_claim ''manual:ann'' (JNum ''1'') \<in> set (mergeClaims ?s ?i)"
    using merge_refines_map_update [OF d, of ?i] n by auto
  moreover have "mergeClaims ?s ?i = [sample_claim ''manual:ann'' (JNum ''1''), sample_claim ''github'' (JNum ''3'')]"
    by (simp add: sample_claim_def same_slot_def)
  ultimately show ?thesis by simp
qed

text \<open>
  Merging is idempotent: applying a delivery that was already applied, with at most one
  claim per slot, changes nothing, not even the order.
\<close>

theorem merge_idempotent:
  assumes "distinct (map slot incoming)"
  shows "mergeClaims (mergeClaims stored incoming) incoming = mergeClaims stored incoming"
  using assms by (intro merge_ids) (simp add: slot_map_mergeClaims foldl_slots_in)

theorem merge_idempotent_witness:
  "mergeClaims (mergeClaims [] sample_group) sample_group = mergeClaims [] sample_group"
  by (rule merge_idempotent) (simp add: sample_group_def slot_def sample_claim_def)

text \<open>
  The resolver works property by property. The effective value it stores under a key is
  the one the key's strategy picks among exactly the merged claims about that key, and a key
  without claims gets none.
\<close>

theorem resolve_groupwise:
  "fst (resolve opts stored incoming now) = mergeClaims stored incoming \<and>
   snd (resolve opts stored incoming now) k =
     map_option effective_value (resolveProperty opts k
       (filter (\<lambda>c. property_key c = k) (mergeClaims stored incoming)) now)"
proof -
  let ?m = "mergeClaims stored incoming"
  have g: "distinct (map fst (fold (\<lambda>c m. group_add m c) ?m []))"
    "map_of (fold (\<lambda>c m. group_add m c) ?m []) k =
      (if filter (\<lambda>c. property_key c = k) ?m = [] then None else Some (filter (\<lambda>c. property_key c = k) ?m))"
    using group_all [of "[]" ?m k] by (auto simp: Let_def)
  show ?thesis
    unfolding resolve_def Let_def fst_conv snd_conv effective_properties_lookup [OF g(1)] g(2)
    by (simp add: resolveProperty_def)
qed

text \<open>
  Every strategy answers on a non-empty list, with a claim of the list as winner, and
  all but \<open>MERGE_SET\<close> with the winner's own value.
\<close>

theorem resolution_from_claims:
  assumes "resolveClaims claims strategy rate now = Some r"
  shows "winning_claim r \<in> set claims \<and> all_claims r = claims \<and> used_strategy r = strategy \<and>
    (strategy \<noteq> MERGE_SET \<longrightarrow> effective_value r = c_value (winning_claim r))"
proof -
  have ne: "claims \<noteq> []" using assms by auto
  note hd_js_sort_in [OF ne, simp]
  have "winning_claim r \<in> set claims" using assms ne
    by (cases strategy) (auto simp: resolveManualOverrideFirst_def resolveHighestConfidence_def
        resolveAuthoritativeOrder_def resolveLatestTimestamp_def resolveMergeSet_def Let_def
        pickManualOverride_min split: option.splits)
  then show ?thesis using assms ne
    by (cases strategy) (auto simp: resolveManualOverrideFirst_def resolveHighestConfidence_def
        resolveAuthoritativeOrder_def resolveLatestTimestamp_def resolveMergeSet_def Let_def
        split: option.splits)
qed

theorem resolution_from_claims_witness:
  "\<exists>r. resolveClaims sample_group HIGHEST_CONFIDENCE (1/100) (o_now sample_options) = Some r \<and>
     winning_claim r \<in> set sample_group \<and> effective_value r = c_value (winning_claim r)"
proof -
  have "resolveClaims sample_group HIGHEST_CONFIDENCE (1/100) (o_now sample_options) \<noteq> None"
    by (simp add: sample_group_def)
  then obtain r where r: "resolveClaims sample_group HIGHEST_CONFIDENCE (1/100) (o_now sample_options) = Some r"
    by blast
  from resolution_from_claims [OF r] r show ?thesis by blast
qed

text \<open>
  \<open>HIGHEST_CONFIDENCE\<close> picks a maximum: no claim has a higher decayed confidence than the
  winner, and among those with the same one the winner was ingested last.
\<close>

theorem highest_confidence_best:
  assumes "resolveClaims claims HIGHEST_CONFIDENCE rate now = Some r"
    and "\<forall>c \<in> set claims. dated c" and "c \<in> set claims"
  shows "claim_score now rate c \<le> claim_score now rate (winning_claim r) \<and>
    (claim_score now rate c = claim_score now rate (winning_claim r) \<longrightarrow>
       claim_time c \<le> claim_time (winning_claim r))"
proof -
  have "claims \<noteq> []" "r = resolveHighestConfidence claims rate now" using assms(1) by (auto split: if_splits)
  with highest_confidence_winner(2) [OF _ assms(2,3), of now rate] show ?thesis by auto
qed

theorem highest_confidence_best_witness:
  "\<exists>r. resolveClaims sample_group HIGHEST_CONFIDENCE (1/100) (o_now sample_options) = Some r \<and>
     claim_score (o_now sample_options) (1/100) (sample_claim ''kubernetes'' (JNum ''2''))
       \<le> claim_score (o_now sample_options) (1/100) (winning_claim r)"
proof -
  have "resolveClaims sample_group HIGHEST_CONFIDENCE (1/100) (o_now sample_options) \<noteq> None"
    by (simp add: sample_group_def)
  then obtain r where r: "resolveClaims sample_group HIGHEST_CONFIDENCE (1/100) (o_now sample_options) = Some r"
    by blast
  have "date_parse ''2026-10-03T00:00:00.000Z'' = Some 1790985600000" by code_simp
  then have d: "\<forall>c \<in> set sample_group. dated c" by (auto simp: sample_group_def sample_claim_def dated_def)
  have m: "sample_claim ''kubernetes'' (JNum ''2'') \<in> set sample_group" by (simp add: sample_group_def)
  from highest_confidence_best [OF r d m] r show ?thesis by blast
qed

text \<open>
  The winning attestation is a function of the claims, not of their order: when no two
  attestations share both source and stamp, any permutation of the list gives the same one.
\<close>

theorem override_order_independent:
  assumes "mset cs = mset cs'"
    and "inj_on (\<lambda>c. (c_source c, ingested_at c)) {c \<in> set cs. is_override c}"
  shows "pickManualOverride cs = pickManualOverride cs'"
  using assms by (rule pickManualOverride_perm)

theorem override_order_independent_witness:
  "pickManualOverride [sample_claim ''manual:ann'' JNull, sample_claim ''verified:bob'' JNull] =
   pickManualOverride [sample_claim ''verified:bob'' JNull, sample_claim ''manual:ann'' JNull]"
proof (rule override_order_independent)
  show "inj_on (\<lambda>c. (c_source c, ingested_at c)) {c \<in> set
      [sample_claim ''manual:ann'' JNull, sample_claim ''verified:bob'' JNull]. is_override c}"
    by (rule inj_onI) (auto simp: sample_claim_def)
qed (simp add: add_mset_commute)

end
