(* ===== verification/Identity.thy ===== *)
theory Identity
  imports Source_Reliability
begin

text \<open>
  Identity across sources: canonical ids (\<open>packages/shared/src/identity/canonical-id.ts\<close>),
  linking keys (\<open>packages/shared/src/identity/linking-key.ts\<close>), the index of linking keys
  (\<open>packages/core-writer/src/identity/linking-key-index.ts\<close>) and the reconciler that decides
  which stored entity an incoming node is (\<open>packages/core-writer/src/identity/reconciler.ts\<close>).
  The index is an interface with two providers; its laws are the locale \<open>linking_index\<close>, the
  in-memory provider is interpreted here and the graph-backed one in theory \<open>Graph\<close>.
\<close>

section \<open>Canonical nodes and edges\<close>

text \<open>A version that is a number, finite or not, or an opaque content hash.\<close>

datatype event_version = VNum int | VPosInf | VNegInf | VNaN | VStr string

text \<open>\<open>n_last_synced\<close> is \<open>None\<close> when the payload carries no string there.\<close>

record canonical_node =
  n_id :: string
  n_label :: string
  n_properties :: "(string \<times> jsval) list"
  n_claims :: "claim list"
  n_source_system :: string
  n_source_org :: string
  n_source_id :: string
  n_source_connector_id :: "string option"
  n_last_synced :: "string option"
  n_event_version :: event_version

record canonical_edge =
  e_type :: string
  e_from :: string
  e_to :: string
  e_properties :: "(string \<times> jsval) list"
  e_source :: string
  e_confidence :: rat
  e_ingested_at :: string

section \<open>Canonical ids\<close>

fun kebab :: "nat \<Rightarrow> string \<Rightarrow> string" where
  "kebab index [] = []"
| "kebab index (c # cs) =
     (if is_upper c then (if index > 0 then [CHR ''-'', to_lower c] else [to_lower c]) else [c])
     @ kebab (Suc index) cs"

definition buildCanonicalId :: "string \<Rightarrow> string \<Rightarrow> string \<Rightarrow> string" where
  "buildCanonicalId label namespace name =
     ''shipit://'' @ kebab 0 label @ ''/'' @ namespace @ ''/'' @ name"

definition buildScopedCanonicalId :: "string \<Rightarrow> string \<Rightarrow> string \<Rightarrow> string \<Rightarrow> string" where
  "buildScopedCanonicalId label namespace scope name =
     buildCanonicalId label namespace (scope @ ''/'' @ name)"

definition buildPersonCanonicalId :: "string \<Rightarrow> string" where
  "buildPersonCanonicalId loginOrEmail =
     buildCanonicalId ''Person'' ''default'' (map to_lower loginOrEmail)"

text \<open>\<open>[a-z-]\<close>, \<open>[a-z0-9-]\<close> and \<open>.\<close> of the regular expression.\<close>

definition label_char :: "char \<Rightarrow> bool" where
  "label_char c = (is_lower c \<or> c = CHR ''-'')"

definition namespace_char :: "char \<Rightarrow> bool" where
  "namespace_char c = (is_lower c \<or> is_digit c \<or> c = CHR ''-'')"

definition dot_char :: "char \<Rightarrow> bool" where
  "dot_char c = (c \<noteq> CHR 0x0A \<and> c \<noteq> CHR 0x0D)"

record parsed_id =
  p_label :: string
  p_namespace :: string
  p_name :: string

definition parseCanonicalId :: "string \<Rightarrow> parsed_id option" where
  "parseCanonicalId i =
     (if starts_with i ''shipit://'' then
        let r = drop 9 i; label = takeWhile label_char r; r1 = dropWhile label_char r in
        (case r1 of c1 # r2 \<Rightarrow>
           let namespace = takeWhile namespace_char r2; r3 = dropWhile namespace_char r2 in
           (case r3 of c2 # name \<Rightarrow>
              if label \<noteq> [] \<and> c1 = CHR ''/'' \<and> namespace \<noteq> [] \<and> c2 = CHR ''/'' \<and>
                 name \<noteq> [] \<and> list_all dot_char name
              then Some \<lparr>p_label = label, p_namespace = namespace, p_name = name\<rparr> else None
            | [] \<Rightarrow> None)
         | [] \<Rightarrow> None)
      else None)"

definition isValidCanonicalId :: "string \<Rightarrow> bool" where
  "isValidCanonicalId i = (parseCanonicalId i \<noteq> None)"

section \<open>Linking keys\<close>

datatype connector_type = Github | Kubernetes | Datadog | Backstage | Jira | IdentityProvider

fun getLinkingKeyPrefix :: "connector_type \<Rightarrow> string" where
  "getLinkingKeyPrefix Github = ''github''"
| "getLinkingKeyPrefix Kubernetes = ''k8s''"
| "getLinkingKeyPrefix Datadog = ''dd''"
| "getLinkingKeyPrefix Backstage = ''backstage''"
| "getLinkingKeyPrefix Jira = ''jira''"
| "getLinkingKeyPrefix IdentityProvider = ''idp''"

definition buildLinkingKey :: "connector_type \<Rightarrow> string list \<Rightarrow> string" where
  "buildLinkingKey connector parts = getLinkingKeyPrefix connector @ ''://'' @ join ''/'' parts"

definition prefix_char :: "char \<Rightarrow> bool" where
  "prefix_char c = (is_lower c \<or> is_digit c)"

definition parseLinkingKey :: "string \<Rightarrow> (string \<times> string list) option" where
  "parseLinkingKey key =
     (let connector = takeWhile prefix_char key; r = dropWhile prefix_char key in
      if connector \<noteq> [] \<and> starts_with r ''://'' \<and> drop 3 r \<noteq> [] \<and> list_all dot_char (drop 3 r)
      then Some (connector, split_on CHR ''/'' (drop 3 r)) else None)"

section \<open>Reading back what was built\<close>

definition label_ok :: "string \<Rightarrow> bool" where
  "label_ok l \<longleftrightarrow> l \<noteq> [] \<and> is_upper (hd l) \<and> list_all (\<lambda>c. is_upper c \<or> is_lower c) l"

definition namespace_ok :: "string \<Rightarrow> bool" where
  "namespace_ok n \<longleftrightarrow> n \<noteq> [] \<and> list_all namespace_char n"

definition name_ok :: "string \<Rightarrow> bool" where
  "name_ok n \<longleftrightarrow> n \<noteq> [] \<and> list_all dot_char n"

lemma lower_of_upper: "is_upper c \<Longrightarrow> is_lower (to_lower c)"
  by (simp add: is_upper_def is_lower_def to_lower_def of_char_of)

lemma upper_not_lower: "is_upper c \<Longrightarrow> \<not> is_lower c"
  by (simp add: is_upper_def is_lower_def)

lemma to_lower_inj: "is_upper c \<Longrightarrow> is_upper d \<Longrightarrow> to_lower c = to_lower d \<Longrightarrow> c = d"
proof -
  assume u: "is_upper c" "is_upper d" and e: "to_lower c = to_lower d"
  then have "(of_char (to_lower c) :: nat) = of_char (to_lower d)" by simp
  then have "(of_char c :: nat) = of_char d"
    using u by (simp add: to_lower_def is_upper_def of_char_of)
  then show ?thesis by simp
qed

lemma slash_not_lower: "\<not> is_lower CHR ''/''" "\<not> is_lower CHR ''-''" "\<not> is_upper CHR ''-''"
  by (simp_all add: is_lower_def is_upper_def)

lemma kebab_label_chars:
  "list_all (\<lambda>c. is_upper c \<or> is_lower c) l \<Longrightarrow> list_all label_char (kebab i l)"
  by (induction i l rule: kebab.induct) (auto simp: label_char_def lower_of_upper)

lemma kebab_nonempty: "l \<noteq> [] \<Longrightarrow> kebab i l \<noteq> []"
  by (cases l) auto

lemma kebab_inj_Suc:
  "list_all (\<lambda>c. is_upper c \<or> is_lower c) l \<Longrightarrow> list_all (\<lambda>c. is_upper c \<or> is_lower c) l' \<Longrightarrow>
    kebab (Suc i) l = kebab (Suc j) l' \<Longrightarrow> l = l'"
proof (induction l arbitrary: l' i j)
  case Nil
  then show ?case using kebab_nonempty [of l' "Suc j"] by auto
next
  case (Cons c cs)
  obtain d ds where l': "l' = d # ds"
    using Cons.prems kebab_nonempty [of "c # cs" "Suc i"] by (cases l') auto
  have "c = d \<and> kebab (Suc (Suc i)) cs = kebab (Suc (Suc j)) ds"
    using Cons.prems slash_not_lower to_lower_inj [of c d]
    by (auto simp: l' split: if_splits)
  then show ?case using Cons.IH [of ds "Suc i" "Suc j"] Cons.prems by (simp add: l')
qed

lemma kebab_inj:
  assumes "label_ok l" "label_ok l'" "kebab 0 l = kebab 0 l'"
  shows "l = l'"
proof -
  obtain c cs d ds where l: "l = c # cs" "l' = d # ds"
    using assms by (metis label_ok_def neq_Nil_conv)
  have "to_lower c = to_lower d" "kebab (Suc 0) cs = kebab (Suc 0) ds"
    using assms by (auto simp: l label_ok_def)
  then show ?thesis
    using assms to_lower_inj [of c d] kebab_inj_Suc [of cs ds 0 0] by (simp add: l label_ok_def)
qed

lemma takeWhile_stop: "list_all P xs \<Longrightarrow> \<not> P y \<Longrightarrow> takeWhile P (xs @ y # ys) = xs"
  by (induction xs) auto

lemma dropWhile_stop: "list_all P xs \<Longrightarrow> \<not> P y \<Longrightarrow> dropWhile P (xs @ y # ys) = y # ys"
  by (induction xs) auto

lemma parse_build:
  assumes "label_ok label" "namespace_ok namespace" "name_ok name"
  shows "parseCanonicalId (buildCanonicalId label namespace name) =
    Some \<lparr>p_label = kebab 0 label, p_namespace = namespace, p_name = name\<rparr>"
proof -
  have s: "\<not> label_char CHR ''/''" "\<not> namespace_char CHR ''/''"
    by (simp_all add: label_char_def namespace_char_def is_lower_def is_digit_def)
  have k: "list_all label_char (kebab 0 label)" "kebab 0 label \<noteq> []"
    using assms kebab_label_chars kebab_nonempty by (auto simp: label_ok_def)
  have "starts_with (buildCanonicalId label namespace name) ''shipit://''"
    by (simp add: buildCanonicalId_def)
  then show ?thesis
    using k s assms
    by (simp add: parseCanonicalId_def buildCanonicalId_def takeWhile_stop dropWhile_stop
        namespace_ok_def name_ok_def Let_def)
qed

lemma prefix_ok: "list_all prefix_char (getLinkingKeyPrefix c)" "getLinkingKeyPrefix c \<noteq> []"
  by (cases c; simp add: prefix_char_def is_lower_def is_digit_def)+

lemma join_dot:
  "\<forall>p \<in> set ps. list_all dot_char p \<Longrightarrow> list_all dot_char (join ''/'' ps)"
  by (induction "''/''" ps rule: join.induct) (auto simp: dot_char_def)

section \<open>The index of linking keys\<close>

text \<open>
  The interface \<open>LinkingKeyIndex\<close>: its operations over the provider's state.
\<close>

record 's linking_key_index =
  lookupByLinkingKey :: "'s \<Rightarrow> string \<Rightarrow> string option"
  hasCanonicalId :: "'s \<Rightarrow> string \<Rightarrow> bool"
  register :: "'s \<Rightarrow> string \<Rightarrow> string \<Rightarrow> 's"
  registerAlias :: "'s \<Rightarrow> string \<Rightarrow> string \<Rightarrow> string \<Rightarrow> 's"

record memory_index =
  linkingKeyToCanonical :: "string \<rightharpoonup> string"
  canonicalIds :: "string set"

definition empty_memory_index :: memory_index where
  "empty_memory_index = \<lparr>linkingKeyToCanonical = Map.empty, canonicalIds = {}\<rparr>"

definition memory_lookup :: "memory_index \<Rightarrow> string \<Rightarrow> string option" where
  "memory_lookup s linkingKey = linkingKeyToCanonical s linkingKey"

definition memory_has :: "memory_index \<Rightarrow> string \<Rightarrow> bool" where
  "memory_has s canonicalId = (canonicalId \<in> canonicalIds s)"

definition memory_register :: "memory_index \<Rightarrow> string \<Rightarrow> string \<Rightarrow> memory_index" where
  "memory_register s canonicalId linkingKey =
     (let s1 = s\<lparr>canonicalIds := insert canonicalId (canonicalIds s)\<rparr> in
      if linkingKey \<noteq> [] then s1\<lparr>linkingKeyToCanonical := (linkingKeyToCanonical s1)(linkingKey \<mapsto> canonicalId)\<rparr>
      else s1)"

definition memory_register_alias :: "memory_index \<Rightarrow> string \<Rightarrow> string \<Rightarrow> string \<Rightarrow> memory_index" where
  "memory_register_alias s canonicalId oldLinkingKey newLinkingKey =
     (let s1 = s\<lparr>linkingKeyToCanonical := (linkingKeyToCanonical s)(newLinkingKey \<mapsto> canonicalId)\<rparr> in
      s1\<lparr>linkingKeyToCanonical := (linkingKeyToCanonical s1)(oldLinkingKey \<mapsto> canonicalId)\<rparr>)"

definition InMemoryLinkingKeyIndex :: "memory_index linking_key_index" where
  "InMemoryLinkingKeyIndex = \<lparr>lookupByLinkingKey = memory_lookup, hasCanonicalId = memory_has,
     register = memory_register, registerAlias = memory_register_alias\<rparr>"

section \<open>The reconciler\<close>

datatype reconcile_action = Create | MergeInto
datatype match_method = Primary_Key | Linking_Key

record reconciliation =
  r_action :: reconcile_action
  r_canonicalId :: string
  r_matchMethod :: match_method

definition reconcile ::
    "'s linking_key_index \<Rightarrow> 's \<Rightarrow> canonical_node \<Rightarrow> reconciliation \<times> 's" where
  "reconcile idx s node =
     (if isValidCanonicalId (n_id node) \<and> hasCanonicalId idx s (n_id node)
      then (\<lparr>r_action = MergeInto, r_canonicalId = n_id node, r_matchMethod = Primary_Key\<rparr>, s)
      else
        let existing = (if n_source_id node \<noteq> []
          then (case lookupByLinkingKey idx s (n_source_id node) of
              Some e \<Rightarrow> if e \<noteq> [] then Some e else None | None \<Rightarrow> None)
          else None) in
        (case existing of
           Some existingId \<Rightarrow>
             (\<lparr>r_action = MergeInto, r_canonicalId = existingId, r_matchMethod = Linking_Key\<rparr>, s)
         | None \<Rightarrow>
             (\<lparr>r_action = Create, r_canonicalId = n_id node, r_matchMethod = Primary_Key\<rparr>,
              register idx s (n_id node) (n_source_id node))))"

text \<open>
  What the reconciler needs of an index: a registered key is found again, other keys keep
  their entry, and no canonical id is lost.
\<close>

locale linking_index =
  fixes idx :: "'s linking_key_index"
  assumes lookup_register:
      "k \<noteq> [] \<Longrightarrow> lookupByLinkingKey idx (register idx s i k) k' =
         (if k' = k then Some i else lookupByLinkingKey idx s k')"
    and has_register: "hasCanonicalId idx s j \<Longrightarrow> hasCanonicalId idx (register idx s i k) j"
begin

lemma reconcile_known:
  "isValidCanonicalId (n_id node) \<Longrightarrow> hasCanonicalId idx s (n_id node) \<Longrightarrow>
    reconcile idx s node = (\<lparr>r_action = MergeInto, r_canonicalId = n_id node, r_matchMethod = Primary_Key\<rparr>, s)"
  by (simp add: reconcile_def)

lemma reconcile_create_state:
  "r_action (fst (reconcile idx s node)) = Create \<Longrightarrow>
    snd (reconcile idx s node) = register idx s (n_id node) (n_source_id node) \<and>
    r_canonicalId (fst (reconcile idx s node)) = n_id node"
  by (auto simp: reconcile_def Let_def split: option.splits if_splits)

lemma reconcile_merge_state:
  "r_action (fst (reconcile idx s node)) = MergeInto \<Longrightarrow> snd (reconcile idx s node) = s"
  by (auto simp: reconcile_def Let_def split: option.splits if_splits)

text \<open>A second delivery of a node goes to the entity the first one went to.\<close>

lemma reconcile_stable:
  assumes "reconcile idx s node = (r, s')"
  shows "r_canonicalId (fst (reconcile idx s' node)) = r_canonicalId r"
proof (cases "r_action r")
  case MergeInto
  then show ?thesis using reconcile_merge_state [of s node] assms by simp
next
  case Create
  then have s': "s' = register idx s (n_id node) (n_source_id node)" and c: "r_canonicalId r = n_id node"
    using reconcile_create_state [of s node] assms by auto
  show ?thesis
  proof (cases "n_source_id node = []")
    case True
    then show ?thesis by (simp add: reconcile_def s' c)
  next
    case False
    then show ?thesis
      by (auto simp: reconcile_def s' c lookup_register Let_def split: if_splits)
  qed
qed

text \<open>
  Two nodes with one linking key are one entity: when the first was created, the second goes
  to the first's id unless it has a known id of its own.
\<close>

lemma reconcile_converge:
  assumes "reconcile idx s n1 = (r1, s1)" and "r_action r1 = Create"
    and "n_source_id n1 = n_source_id n2" "n_source_id n1 \<noteq> []" "n_id n1 \<noteq> []"
    and "\<not> (isValidCanonicalId (n_id n2) \<and> hasCanonicalId idx s1 (n_id n2))"
  shows "r_canonicalId (fst (reconcile idx s1 n2)) = n_id n1"
proof -
  have "s1 = register idx s (n_id n1) (n_source_id n1)"
    using reconcile_create_state [of s n1] assms(1,2) by simp
  then have "lookupByLinkingKey idx s1 (n_source_id n2) = Some (n_id n1)"
    using assms(3,4) lookup_register by simp
  then show ?thesis using assms by (auto simp: reconcile_def Let_def)
qed

end

interpretation mem: linking_index InMemoryLinkingKeyIndex
  by unfold_locales
    (auto simp: InMemoryLinkingKeyIndex_def memory_lookup_def memory_has_def memory_register_def Let_def)

section \<open>Properties\<close>

text \<open>
  Parsing inverts building: for a PascalCase label, a namespace of the id alphabet and a
  name without line breaks, the built canonical id is valid and parses to the kebab-cased
  label, the namespace and the name.
\<close>

theorem canonical_id_roundtrip:
  assumes "label_ok label" "namespace_ok namespace" "name_ok name"
  shows "isValidCanonicalId (buildCanonicalId label namespace name) \<and>
    parseCanonicalId (buildCanonicalId label namespace name) =
      Some \<lparr>p_label = kebab 0 label, p_namespace = namespace, p_name = name\<rparr>"
  using parse_build [OF assms] by (simp add: isValidCanonicalId_def)

theorem canonical_id_roundtrip_witness:
  "parseCanonicalId ''shipit://logical-service/default/shipitops/api'' =
     Some \<lparr>p_label = ''logical-service'', p_namespace = ''default'', p_name = ''shipitops/api''\<rparr>"
proof -
  have ok: "label_ok ''LogicalService''" "namespace_ok ''default''" "name_ok ''shipitops/api''"
    by (simp_all add: label_ok_def namespace_ok_def name_ok_def is_upper_def is_lower_def
        namespace_char_def dot_char_def)
  have "buildCanonicalId ''LogicalService'' ''default'' ''shipitops/api'' =
      ''shipit://logical-service/default/shipitops/api''" by code_simp
  moreover have "kebab 0 ''LogicalService'' = ''logical-service''" by code_simp
  ultimately show ?thesis using canonical_id_roundtrip [OF ok] by simp
qed

text \<open>
  Canonical ids do not collide: two entities whose label, namespace or name differ get
  different ids.
\<close>

theorem canonical_id_injective:
  assumes "label_ok l" "namespace_ok ns" "name_ok n"
    and "label_ok l'" "namespace_ok ns'" "name_ok n'"
    and "buildCanonicalId l ns n = buildCanonicalId l' ns' n'"
  shows "l = l' \<and> ns = ns' \<and> n = n'"
  using parse_build [OF assms(1-3)] parse_build [OF assms(4-6)] assms(7) kebab_inj [OF assms(1,4)]
  by simp

theorem canonical_id_injective_witness:
  "buildCanonicalId ''Team'' ''default'' ''a'' \<noteq> buildCanonicalId ''Team'' ''default'' ''b''"
proof
  assume e: "buildCanonicalId ''Team'' ''default'' ''a'' = buildCanonicalId ''Team'' ''default'' ''b''"
  have ok: "label_ok ''Team''" "namespace_ok ''default''" "name_ok ''a''" "name_ok ''b''"
    by (simp_all add: label_ok_def namespace_ok_def name_ok_def is_upper_def is_lower_def
        namespace_char_def dot_char_def)
  show False using canonical_id_injective [OF ok(1,2,3) ok(1,2,4) e] by simp
qed

text \<open>
  A linking key parses back to the prefix of its connector and its parts, for parts
  without slashes or line breaks.
\<close>

theorem linking_key_roundtrip:
  assumes "parts \<noteq> []" "join ''/'' parts \<noteq> []"
    and "\<forall>p \<in> set parts. list_all dot_char p \<and> CHR ''/'' \<notin> set p"
  shows "parseLinkingKey (buildLinkingKey connector parts) = Some (getLinkingKeyPrefix connector, parts)"
proof -
  have c: "\<not> prefix_char CHR '':''" by (simp add: prefix_char_def is_lower_def is_digit_def)
  have "split_on CHR ''/'' (join ''/'' parts) = parts" using assms by (intro split_on_join) auto
  moreover have "list_all dot_char (join ''/'' parts)" using assms by (intro join_dot) auto
  ultimately show ?thesis
    using assms(2) prefix_ok [of connector] c
    by (simp add: parseLinkingKey_def buildLinkingKey_def takeWhile_stop dropWhile_stop Let_def)
qed

theorem linking_key_roundtrip_witness:
  "parseLinkingKey ''k8s://prod/web/api'' = Some (''k8s'', [''prod'', ''web'', ''api''])"
proof -
  have "buildLinkingKey Kubernetes [''prod'', ''web'', ''api''] = ''k8s://prod/web/api''" by code_simp
  with linking_key_roundtrip [of "[''prod'', ''web'', ''api'']" Kubernetes] show ?thesis
    by (simp add: dot_char_def)
qed


definition sample_node :: "string \<Rightarrow> string \<Rightarrow> canonical_node" where
  "sample_node i k = \<lparr>n_id = i, n_label = ''Repository'', n_properties = [], n_claims = [],
     n_source_system = ''github'', n_source_org = ''github/acme'', n_source_id = k,
     n_source_connector_id = None, n_last_synced = Some ''2026-10-03T00:00:00.000Z'',
     n_event_version = VNum 5\<rparr>"


end
