(* ===== verification/Graph.thy ===== *)
theory Graph
  imports Claims Identity
begin

text \<open>
  The graph store as the core writer's queries see it
  (\<open>packages/core-writer/src/neo4j/queries.ts\<close>): each query is one transaction, here one
  function on the graph. A node carries its label, its properties (among them \<open>id\<close>) and the
  bookkeeping fields the queries read and write; nodes are found by property \<open>id\<close>, merged by
  label and \<open>id\<close>. An edge joins two nodes by their position in the store. The two kinds of
  bookkeeping nodes, linking keys and the idempotency log, are maps of their own: they have
  no \<open>id\<close>, so no query on entities meets them.

  The stored \<open>_claims\<close> text is either the encoding of a claim list or text that does not
  parse; the encoding itself is not modelled.
\<close>

datatype claims_text = Encoded "claim list" | Corrupt

record gnode =
  g_label :: string
  g_props :: "string \<rightharpoonup> jsval"
  g_last_synced :: "string option"
  g_source_system :: "string option"
  g_source_org :: "string option"
  g_source_id :: "string option"
  g_connector_id :: "string option"
  g_event_version :: "event_version option"
  g_absent_since :: "string option"
  g_claims :: "claims_text option"
  g_claims_rev :: "nat option"

record gedge =
  ge_type :: string
  ge_from :: nat
  ge_to :: nat
  ge_props :: "string \<rightharpoonup> jsval"
  ge_source :: string
  ge_confidence :: rat
  ge_ingested_at :: string

record linking_entry =
  canonical_id :: string
  updated_at :: string

record idempotency_entry =
  created_at :: string
  expires_at :: string

record graph =
  nodes :: "gnode list"
  edges :: "gedge list"
  linking_keys :: "string \<rightharpoonup> linking_entry"
  idempotency_log :: "(string \<times> idempotency_entry) list"

definition empty_graph :: graph where
  "empty_graph = \<lparr>nodes = [], edges = [], linking_keys = Map.empty, idempotency_log = []\<rparr>"

section \<open>Sanitizing\<close>

definition safe_char :: "char \<Rightarrow> bool" where
  "safe_char c = (is_upper c \<or> is_lower c \<or> is_digit c \<or> c = CHR ''_'')"

definition sanitizeLabel :: "string \<Rightarrow> string" where
  "sanitizeLabel l = map (\<lambda>c. if safe_char c then c else CHR ''_'') l"

text \<open>The bound value of one property; an object or array becomes its JSON text.\<close>

definition sanitize_value :: "jsval \<Rightarrow> jsval" where
  "sanitize_value v = (if nullish v then JNull
     else case v of JArr xs \<Rightarrow> JStr (the (stringify v)) | JObj kvs \<Rightarrow> JStr (the (stringify v)) | _ \<Rightarrow> v)"

definition sanitizeProperties :: "(string \<rightharpoonup> jsval) \<Rightarrow> (string \<rightharpoonup> jsval)" where
  "sanitizeProperties props =
     (\<lambda>k. if starts_with k ''_'' then None else map_option sanitize_value (props k))"

text \<open>\<open>SET n += $props\<close>: a null removes the property.\<close>

definition add_props :: "(string \<rightharpoonup> jsval) \<Rightarrow> (string \<rightharpoonup> jsval) \<Rightarrow> (string \<rightharpoonup> jsval)" where
  "add_props m p = (\<lambda>k. case p k of None \<Rightarrow> m k | Some v \<Rightarrow> if v = JNull then None else Some v)"

section \<open>Finding nodes\<close>

definition has_id :: "string \<Rightarrow> gnode \<Rightarrow> bool" where
  "has_id i n = (g_props n ''id'' = Some (JStr i))"

definition is_entity :: "string \<Rightarrow> string \<Rightarrow> gnode \<Rightarrow> bool" where
  "is_entity l i n = (g_label n = l \<and> has_id i n)"

definition fresh_node :: "string \<Rightarrow> string \<Rightarrow> gnode" where
  "fresh_node l i = \<lparr>g_label = l, g_props = [''id'' \<mapsto> JStr i], g_last_synced = None,
     g_source_system = None, g_source_org = None, g_source_id = None, g_connector_id = None,
     g_event_version = None, g_absent_since = None, g_claims = None, g_claims_rev = None\<rparr>"

section \<open>\<open>mergeNode\<close>: two compare-and-set guards in one transaction\<close>

record merge_result =
  written :: bool
  claimsWritten :: bool
  claimsConflict :: bool

definition is_comparable :: "event_version \<Rightarrow> bool" where
  "is_comparable v = (case v of VNum _ \<Rightarrow> True | _ \<Rightarrow> False)"

text \<open>\<open>stored > incoming\<close> of the query: true only between two numbers.\<close>

definition version_greater :: "event_version \<Rightarrow> event_version \<Rightarrow> bool" where
  "version_greater stored incoming = (case incoming of
     VNum i \<Rightarrow> (case stored of VNum s \<Rightarrow> s > i | VPosInf \<Rightarrow> True | _ \<Rightarrow> False) | _ \<Rightarrow> False)"

definition freshness_reject :: "event_version option \<Rightarrow> event_version \<Rightarrow> bool" where
  "freshness_reject stored incoming = (case stored of None \<Rightarrow> False
     | Some s \<Rightarrow> is_comparable incoming \<and> version_greater s incoming)"

definition rev_of :: "gnode \<Rightarrow> nat" where
  "rev_of n = (case g_claims_rev n of None \<Rightarrow> 0 | Some r \<Rightarrow> r)"

definition claims_conflict :: "gnode \<Rightarrow> canonical_node \<Rightarrow> nat \<Rightarrow> bool" where
  "claims_conflict n node expectedClaimsRev =
     (\<not> freshness_reject (g_event_version n) (n_event_version node) \<and> rev_of n \<noteq> expectedClaimsRev)"

definition set_content :: "canonical_node \<Rightarrow> gnode \<Rightarrow> gnode" where
  "set_content node n = n\<lparr>g_props := add_props (g_props n) (sanitizeProperties (map_of (n_properties node))),
     g_last_synced := n_last_synced node,
     g_source_system := Some (n_source_system node),
     g_source_org := Some (n_source_org node),
     g_source_id := Some (n_source_id node),
     g_connector_id := n_source_connector_id node,
     g_event_version := Some (n_event_version node),
     g_absent_since := None\<rparr>"

definition set_claims :: "claim list \<Rightarrow> (string \<rightharpoonup> jsval) \<Rightarrow> gnode \<Rightarrow> gnode" where
  "set_claims mergedClaims effectiveProperties n =
     n\<lparr>g_props := add_props (g_props n) (sanitizeProperties effectiveProperties),
       g_claims := Some (Encoded mergedClaims),
       g_claims_rev := Some (rev_of n + 1)\<rparr>"

text \<open>What the query does to one matched node, and the row it returns for it.\<close>

definition merge_row ::
    "canonical_node \<Rightarrow> claim list \<Rightarrow> (string \<rightharpoonup> jsval) \<Rightarrow> nat \<Rightarrow> gnode \<Rightarrow> gnode \<times> merge_result" where
  "merge_row node mergedClaims effectiveProperties expectedClaimsRev n =
     (let reject = freshness_reject (g_event_version n) (n_event_version node);
          conflict = claims_conflict n node expectedClaimsRev;
          n1 = (if reject then n else set_content node n);
          n2 = (if \<not> reject \<and> \<not> conflict then set_claims mergedClaims effectiveProperties n1 else n1)
      in (n2, \<lparr>written = (\<not> reject), claimsWritten = (\<not> reject \<and> \<not> conflict), claimsConflict = conflict\<rparr>))"

definition mergeNode ::
    "graph \<Rightarrow> canonical_node \<Rightarrow> claim list \<Rightarrow> (string \<rightharpoonup> jsval) \<Rightarrow> nat \<Rightarrow> graph \<times> merge_result" where
  "mergeNode g node mergedClaims effectiveProperties expectedClaimsRev =
     (let l = sanitizeLabel (n_label node); i = n_id node;
          ns = (if \<exists>n \<in> set (nodes g). is_entity l i n then nodes g else nodes g @ [fresh_node l i]);
          row = merge_row node mergedClaims effectiveProperties expectedClaimsRev
      in (g\<lparr>nodes := map (\<lambda>n. if is_entity l i n then fst (row n) else n) ns\<rparr>,
          (case find_first (is_entity l i) ns of Some n \<Rightarrow> snd (row n)
           | None \<Rightarrow> \<lparr>written = False, claimsWritten = False, claimsConflict = False\<rparr>)))"

section \<open>Presence\<close>

text \<open>Clears the absence mark and advances \<open>_last_synced\<close>, never backwards.\<close>

definition touch_node :: "string \<Rightarrow> gnode \<Rightarrow> gnode" where
  "touch_node lastSynced n =
     (let n1 = n\<lparr>g_absent_since := None\<rparr> in
      case g_last_synced n1 of
        None \<Rightarrow> n1\<lparr>g_last_synced := Some lastSynced\<rparr>
      | Some t \<Rightarrow> if str_less t lastSynced then n1\<lparr>g_last_synced := Some lastSynced\<rparr> else n1)"

definition touchLastSynced :: "graph \<Rightarrow> string \<Rightarrow> string \<Rightarrow> graph" where
  "touchLastSynced g nodeId lastSynced =
     g\<lparr>nodes := map (\<lambda>n. if has_id nodeId n then touch_node lastSynced n else n) (nodes g)\<rparr>"

definition confirmed :: "string \<Rightarrow> string \<Rightarrow> gnode \<Rightarrow> bool" where
  "confirmed connectorId startedAt n = (g_connector_id n = Some connectorId \<and>
     (case g_last_synced n of None \<Rightarrow> False | Some t \<Rightarrow> \<not> str_less t startedAt))"

definition to_mark :: "string \<Rightarrow> string \<Rightarrow> gnode \<Rightarrow> bool" where
  "to_mark connectorId startedAt n = (g_connector_id n = Some connectorId \<and>
     (case g_last_synced n of None \<Rightarrow> False | Some t \<Rightarrow> str_less t startedAt) \<and>
     g_absent_since n = None)"

definition markAbsent :: "graph \<Rightarrow> string \<Rightarrow> string \<Rightarrow> string \<Rightarrow> graph \<times> nat" where
  "markAbsent g connectorId startedAt now =
     (if length (filter (confirmed connectorId startedAt) (nodes g)) = 0 then (g, 0)
      else (g\<lparr>nodes := map (\<lambda>n. if to_mark connectorId startedAt n then n\<lparr>g_absent_since := Some now\<rparr> else n)
              (nodes g)\<rparr>,
            length (filter (to_mark connectorId startedAt) (nodes g))))"

section \<open>Edges\<close>

definition same_edge :: "string \<Rightarrow> nat \<Rightarrow> nat \<Rightarrow> gedge \<Rightarrow> bool" where
  "same_edge t a b e = (ge_type e = t \<and> ge_from e = a \<and> ge_to e = b)"

definition set_edge :: "canonical_edge \<Rightarrow> gedge \<Rightarrow> gedge" where
  "set_edge edge e = e\<lparr>ge_props := add_props (ge_props e) (sanitizeProperties (map_of (e_properties edge))),
     ge_source := e_source edge, ge_confidence := e_confidence edge,
     ge_ingested_at := e_ingested_at edge\<rparr>"

definition merge_one_edge :: "canonical_edge \<Rightarrow> string \<Rightarrow> gedge list \<Rightarrow> nat \<times> nat \<Rightarrow> gedge list" where
  "merge_one_edge edge t es ab =
     (let es' = (if \<exists>e \<in> set es. same_edge t (fst ab) (snd ab) e then es
        else es @ [\<lparr>ge_type = t, ge_from = fst ab, ge_to = snd ab, ge_props = Map.empty,
          ge_source = [], ge_confidence = 0, ge_ingested_at = []\<rparr>])
      in map (\<lambda>e. if same_edge t (fst ab) (snd ab) e then set_edge edge e else e) es')"

definition positions :: "string \<Rightarrow> graph \<Rightarrow> nat list" where
  "positions i g = filter (\<lambda>k. has_id i (nodes g ! k)) [0..<length (nodes g)]"

definition mergeEdge :: "graph \<Rightarrow> canonical_edge \<Rightarrow> graph" where
  "mergeEdge g edge =
     g\<lparr>edges := foldl (merge_one_edge edge (sanitizeLabel (e_type edge))) (edges g)
        (List.product (positions (e_from edge) g) (positions (e_to edge) g))\<rparr>"

section \<open>The idempotency log\<close>

definition checkIdempotencyKey :: "graph \<Rightarrow> string \<Rightarrow> bool" where
  "checkIdempotencyKey g key = (map_of (idempotency_log g) key \<noteq> None)"

definition ms_per_ttl_day :: int where "ms_per_ttl_day = 24 * 60 * 60 * 1000"

text \<open>\<open>MERGE\<close> by key, then \<open>SET\<close> both times.\<close>

fun log_put :: "(string \<times> idempotency_entry) list \<Rightarrow> string \<Rightarrow> idempotency_entry \<Rightarrow> (string \<times> idempotency_entry) list" where
  "log_put [] k e = [(k, e)]"
| "log_put ((k', e') # rest) k e = (if k' = k then (k, e) # rest else (k', e') # log_put rest k e)"

definition writeIdempotencyKey :: "graph \<Rightarrow> string \<Rightarrow> int \<Rightarrow> int \<Rightarrow> graph" where
  "writeIdempotencyKey g key ttlDays now =
     g\<lparr>idempotency_log := log_put (idempotency_log g) key
        \<lparr>created_at = toISOString now, expires_at = toISOString (now + ttlDays * ms_per_ttl_day)\<rparr>\<rparr>"

definition cleanupExpiredIdempotencyKeys :: "graph \<Rightarrow> int \<Rightarrow> graph \<times> nat" where
  "cleanupExpiredIdempotencyKeys g now =
     (let expired = (\<lambda>(k, e). str_less (expires_at e) (toISOString now)) in
      (g\<lparr>idempotency_log := filter (\<lambda>x. \<not> expired x) (idempotency_log g)\<rparr>,
       length (filter expired (idempotency_log g))))"

section \<open>Linking keys\<close>

definition registerLinkingKey :: "graph \<Rightarrow> string \<Rightarrow> string \<Rightarrow> string \<Rightarrow> graph" where
  "registerLinkingKey g canonicalId linkingKey now =
     g\<lparr>linking_keys := (linking_keys g)(linkingKey \<mapsto> \<lparr>canonical_id = canonicalId, updated_at = now\<rparr>)\<rparr>"

definition lookupLinkingKey :: "graph \<Rightarrow> string \<Rightarrow> string option" where
  "lookupLinkingKey g linkingKey = map_option canonical_id (linking_keys g linkingKey)"

section \<open>Reading claims\<close>

record existing_claims =
  x_claims :: "claim list"
  x_claimsRev :: nat

definition getExistingClaims :: "graph \<Rightarrow> string \<Rightarrow> existing_claims" where
  "getExistingClaims g nodeId =
     (case find_first (has_id nodeId) (nodes g) of
        None \<Rightarrow> \<lparr>x_claims = [], x_claimsRev = 0\<rparr>
      | Some n \<Rightarrow>
          \<lparr>x_claims = (case g_claims n of Some (Encoded cs) \<Rightarrow> cs | _ \<Rightarrow> []), x_claimsRev = rev_of n\<rparr>)"

section \<open>The graph as an index of linking keys\<close>

text \<open>
  \<open>Neo4jLinkingKeyIndex\<close>: an empty key is never stored or looked up. The clock of a
  registration is the argument \<open>now\<close>.
\<close>

definition neo4j_lookup :: "graph \<Rightarrow> string \<Rightarrow> string option" where
  "neo4j_lookup g linkingKey = (if linkingKey = [] then None else lookupLinkingKey g linkingKey)"

definition neo4j_has :: "graph \<Rightarrow> string \<Rightarrow> bool" where
  "neo4j_has g i = (\<exists>n \<in> set (nodes g). has_id i n)"

definition neo4j_register :: "string \<Rightarrow> graph \<Rightarrow> string \<Rightarrow> string \<Rightarrow> graph" where
  "neo4j_register now g i linkingKey =
     (if linkingKey = [] then g else registerLinkingKey g i linkingKey now)"

definition neo4j_register_alias :: "string \<Rightarrow> graph \<Rightarrow> string \<Rightarrow> string \<Rightarrow> string \<Rightarrow> graph" where
  "neo4j_register_alias now g i oldLinkingKey newLinkingKey =
     (let g1 = (if oldLinkingKey \<noteq> [] then registerLinkingKey g i oldLinkingKey now else g) in
      if newLinkingKey \<noteq> [] then registerLinkingKey g1 i newLinkingKey now else g1)"

definition Neo4jLinkingKeyIndex :: "string \<Rightarrow> graph linking_key_index" where
  "Neo4jLinkingKeyIndex now = \<lparr>lookupByLinkingKey = neo4j_lookup, hasCanonicalId = neo4j_has,
     register = neo4j_register now, registerAlias = neo4j_register_alias now\<rparr>"

interpretation neo: linking_index "Neo4jLinkingKeyIndex now" for now
  by unfold_locales
    (auto simp: Neo4jLinkingKeyIndex_def neo4j_lookup_def neo4j_register_def neo4j_has_def
      registerLinkingKey_def lookupLinkingKey_def)

section \<open>Facts about \<open>mergeNode\<close>\<close>

lemma merge_row_reject:
  "freshness_reject (g_event_version n) (n_event_version node) \<Longrightarrow>
    merge_row node cs ps r n = (n, \<lparr>written = False, claimsWritten = False, claimsConflict = False\<rparr>)"
  by (simp add: merge_row_def claims_conflict_def Let_def)

lemma merge_row_conflict:
  "\<not> freshness_reject (g_event_version n) (n_event_version node) \<Longrightarrow> rev_of n \<noteq> r \<Longrightarrow>
    merge_row node cs ps r n =
      (set_content node n, \<lparr>written = True, claimsWritten = False, claimsConflict = True\<rparr>)"
  by (simp add: merge_row_def claims_conflict_def Let_def)

lemma merge_row_accept:
  "\<not> freshness_reject (g_event_version n) (n_event_version node) \<Longrightarrow> rev_of n = r \<Longrightarrow>
    merge_row node cs ps r n = (set_claims cs ps (set_content node n),
      \<lparr>written = True, claimsWritten = True, claimsConflict = False\<rparr>)"
  by (simp add: merge_row_def claims_conflict_def Let_def)

lemma merge_row_cases:
  obtains "freshness_reject (g_event_version n) (n_event_version node)"
      "merge_row node cs ps r n = (n, \<lparr>written = False, claimsWritten = False, claimsConflict = False\<rparr>)"
  | "\<not> freshness_reject (g_event_version n) (n_event_version node)" "rev_of n \<noteq> r"
      "merge_row node cs ps r n =
        (set_content node n, \<lparr>written = True, claimsWritten = False, claimsConflict = True\<rparr>)"
  | "\<not> freshness_reject (g_event_version n) (n_event_version node)" "rev_of n = r"
      "merge_row node cs ps r n = (set_claims cs ps (set_content node n),
        \<lparr>written = True, claimsWritten = True, claimsConflict = False\<rparr>)"
  using merge_row_reject merge_row_conflict merge_row_accept by metis

lemma set_content_simps [simp]:
  "g_label (set_content node n) = g_label n" "g_claims (set_content node n) = g_claims n"
  "g_claims_rev (set_content node n) = g_claims_rev n" "rev_of (set_content node n) = rev_of n"
  "g_event_version (set_content node n) = Some (n_event_version node)"
  "g_absent_since (set_content node n) = None"
  "g_connector_id (set_content node n) = n_source_connector_id node"
  "g_last_synced (set_content node n) = n_last_synced node"
  by (simp_all add: set_content_def rev_of_def)

lemma set_claims_simps [simp]:
  "g_label (set_claims cs ps n) = g_label n" "g_claims (set_claims cs ps n) = Some (Encoded cs)"
  "g_claims_rev (set_claims cs ps n) = Some (rev_of n + 1)" "rev_of (set_claims cs ps n) = rev_of n + 1"
  "g_event_version (set_claims cs ps n) = g_event_version n"
  "g_absent_since (set_claims cs ps n) = g_absent_since n"
  "g_connector_id (set_claims cs ps n) = g_connector_id n"
  "g_last_synced (set_claims cs ps n) = g_last_synced n"
  by (simp_all add: set_claims_def rev_of_def)

lemma merge_row_label: "g_label (fst (merge_row node cs ps r n)) = g_label n"
  by (rule merge_row_cases [of n node cs ps r]) auto

text \<open>The id of a node survives as long as nobody writes a property called \<open>id\<close>.\<close>

definition keeps_id :: "canonical_node \<Rightarrow> (string \<rightharpoonup> jsval) \<Rightarrow> bool" where
  "keeps_id node ps \<longleftrightarrow> map_of (n_properties node) ''id'' = None \<and> ps ''id'' = None"

lemma add_props_other: "p k = None \<Longrightarrow> add_props m p k = m k"
  by (simp add: add_props_def)

lemma sanitize_other: "ps k = None \<Longrightarrow> sanitizeProperties ps k = None"
  by (simp add: sanitizeProperties_def)

lemma merge_row_id:
  "keeps_id node ps \<Longrightarrow> g_props (fst (merge_row node cs ps r n)) ''id'' = g_props n ''id''"
  by (rule merge_row_cases [of n node cs ps r])
    (auto simp: keeps_id_def set_content_def set_claims_def add_props_other sanitize_other)

lemma is_entity_row:
  "keeps_id node ps \<Longrightarrow> is_entity l i (fst (merge_row node cs ps r n)) = is_entity l i n"
  by (simp add: is_entity_def has_id_def merge_row_id merge_row_label)

lemma is_entity_fresh [simp]: "is_entity l i (fresh_node l i)"
  by (simp add: is_entity_def has_id_def fresh_node_def)

lemma is_entity_same: "is_entity l i n \<Longrightarrow> is_entity l' i' n \<Longrightarrow> l = l' \<and> i = i'"
  by (auto simp: is_entity_def has_id_def)

definition stored_nodes :: "graph \<Rightarrow> string \<Rightarrow> string \<Rightarrow> gnode list" where
  "stored_nodes g l i = filter (is_entity l i) (nodes g)"

definition unique_entities :: "graph \<Rightarrow> bool" where
  "unique_entities g \<longleftrightarrow> (\<forall>l i. length (stored_nodes g l i) \<le> 1)"

lemma filter_map_keep:
  "(\<And>n. Q (f n) = Q n) \<Longrightarrow> filter Q (map f ns) = map f (filter Q ns)"
  by (induction ns) auto

lemma stored_nodes_merge:
  assumes "keeps_id node ps"
  shows "stored_nodes (fst (mergeNode g node cs ps r)) l i =
    (if l = sanitizeLabel (n_label node) \<and> i = n_id node
     then map (fst \<circ> merge_row node cs ps r)
       (if stored_nodes g l i = [] then [fresh_node l i] else stored_nodes g l i)
     else stored_nodes g l i)"
proof -
  let ?L = "sanitizeLabel (n_label node)" and ?I = "n_id node"
  let ?f = "\<lambda>n. if is_entity ?L ?I n then fst (merge_row node cs ps r n) else n"
  have q: "is_entity l i (?f n) = is_entity l i n" for n
    using is_entity_row [OF assms] by auto
  have ex: "(\<exists>n \<in> set (nodes g). is_entity ?L ?I n) \<longleftrightarrow> stored_nodes g ?L ?I \<noteq> []"
    by (auto simp: stored_nodes_def filter_empty_conv)
  have fresh: "is_entity l i (fresh_node ?L ?I) \<longleftrightarrow> l = ?L \<and> i = ?I"
    by (auto simp: is_entity_def has_id_def fresh_node_def)
  have "stored_nodes (fst (mergeNode g node cs ps r)) l i =
      map ?f (filter (is_entity l i) (if stored_nodes g ?L ?I \<noteq> [] then nodes g else nodes g @ [fresh_node ?L ?I]))"
    by (simp add: mergeNode_def Let_def stored_nodes_def filter_map_keep [of "is_entity l i" ?f, OF q] ex [unfolded stored_nodes_def])
  also have "\<dots> = map ?f (if l = ?L \<and> i = ?I \<and> stored_nodes g l i = [] then [fresh_node l i] else stored_nodes g l i)"
    by (auto simp: stored_nodes_def fresh)
  also have "\<dots> = (if l = ?L \<and> i = ?I
     then map (fst \<circ> merge_row node cs ps r)
       (if stored_nodes g l i = [] then [fresh_node l i] else stored_nodes g l i)
     else stored_nodes g l i)"
    by (auto simp: stored_nodes_def intro!: map_idI map_cong dest: is_entity_same)
  finally show ?thesis .
qed

lemma unique_entities_merge:
  "keeps_id node ps \<Longrightarrow> unique_entities g \<Longrightarrow> unique_entities (fst (mergeNode g node cs ps r))"
  by (simp add: unique_entities_def stored_nodes_merge)

lemma find_first_filter: "find_first P xs = (case filter P xs of [] \<Rightarrow> None | x # _ \<Rightarrow> Some x)"
  by (induction xs) auto

lemma mergeNode_result:
  "snd (mergeNode g node cs ps r) =
    snd (merge_row node cs ps r (case stored_nodes g (sanitizeLabel (n_label node)) (n_id node) of
      [] \<Rightarrow> fresh_node (sanitizeLabel (n_label node)) (n_id node) | n # _ \<Rightarrow> n))"
proof -
  show ?thesis
    by (cases "stored_nodes g (sanitizeLabel (n_label node)) (n_id node)")
      (auto simp: mergeNode_def Let_def find_first_filter stored_nodes_def filter_empty_conv split: list.splits)
qed

section \<open>Presence facts\<close>

lemma touch_node_simps [simp]:
  "g_absent_since (touch_node t n) = None" "g_claims (touch_node t n) = g_claims n"
  "g_props (touch_node t n) = g_props n" "g_connector_id (touch_node t n) = g_connector_id n"
  "rev_of (touch_node t n) = rev_of n" "g_event_version (touch_node t n) = g_event_version n"
  by (auto simp: touch_node_def rev_of_def Let_def split: option.splits)

lemma touch_node_synced:
  "g_last_synced (touch_node t n) =
    (case g_last_synced n of None \<Rightarrow> Some t | Some u \<Rightarrow> Some (if str_less u t then t else u))"
  by (auto simp: touch_node_def Let_def split: option.splits)

lemma touch_node_time:
  assumes "iso_stamp t" "g_last_synced n = Some u" "iso_stamp u"
  shows "\<exists>v. g_last_synced (touch_node t n) = Some v \<and> iso_stamp v \<and>
    the (date_parse v) = max (the (date_parse u)) (the (date_parse t))"
  using assms stamp_order [OF assms(3,1)] by (auto simp: touch_node_synced max_def)

lemma to_mark_not_confirmed: "to_mark c s n \<Longrightarrow> \<not> confirmed c s n"
  by (auto simp: to_mark_def confirmed_def split: option.splits)

section \<open>Log facts\<close>

lemma log_put_lookup: "map_of (log_put l k e) k' = (if k' = k then Some e else map_of l k')"
  by (induction l k e rule: log_put.induct) auto

lemma log_put_keys: "fst ` set (log_put l k e) = insert k (fst ` set l)"
  by (induction l k e rule: log_put.induct) auto

lemma log_put_distinct: "distinct (map fst l) \<Longrightarrow> distinct (map fst (log_put l k e))"
proof (induction l k e rule: log_put.induct)
  case (2 k' e' rest k e)
  then show ?case using log_put_keys [of rest k e] by auto
qed simp

lemma filter_lookup:
  "distinct (map fst l) \<Longrightarrow> map_of (filter P l) k =
    (case map_of l k of Some v \<Rightarrow> if P (k, v) then Some v else None | None \<Rightarrow> None)"
proof (induction l)
  case (Cons x l)
  obtain a b where x: "x = (a, b)" by (cases x)
  have "a = k \<Longrightarrow> map_of l k = None" using Cons.prems x by (auto simp: map_of_eq_None_iff)
  then show ?case using Cons x by auto
qed simp

section \<open>Properties\<close>

text \<open>
  C8: The freshness guard. A delivery whose numeric version is below the stored one leaves the
  graph as it is; any other delivery is written, so with numeric deliveries the stored version
  of an entity never decreases.
\<close>

theorem freshness_guard:
  assumes "stored_nodes g (sanitizeLabel (n_label node)) (n_id node) = [n]" and "keeps_id node ps"
    and "g_event_version n = Some (VNum stored)" and "n_event_version node = VNum incoming"
  shows "(incoming < stored \<longrightarrow> fst (mergeNode g node cs ps r) = g \<and> \<not> written (snd (mergeNode g node cs ps r))) \<and>
    (stored \<le> incoming \<longrightarrow> written (snd (mergeNode g node cs ps r))) \<and>
    map g_event_version (stored_nodes (fst (mergeNode g node cs ps r)) (sanitizeLabel (n_label node)) (n_id node))
      = [Some (VNum (max stored incoming))]"
proof -
  let ?L = "sanitizeLabel (n_label node)" and ?I = "n_id node"
  have rej: "freshness_reject (g_event_version n) (n_event_version node) \<longleftrightarrow> incoming < stored"
    using assms(3,4) by (simp add: freshness_reject_def is_comparable_def version_greater_def)
  have res: "snd (mergeNode g node cs ps r) = snd (merge_row node cs ps r n)"
    by (simp add: mergeNode_result assms(1))
  have ex: "\<exists>n \<in> set (nodes g). is_entity ?L ?I n"
    using assms(1) by (auto simp: stored_nodes_def filter_eq_Cons_iff)
  have only: "m = n" if "m \<in> set (nodes g)" "is_entity ?L ?I m" for m
  proof -
    have "m \<in> set (stored_nodes g ?L ?I)" using that by (simp add: stored_nodes_def)
    then show ?thesis by (simp add: assms(1))
  qed
  have "fst (mergeNode g node cs ps r) = g" if "incoming < stored"
  proof -
    have "fst (merge_row node cs ps r n) = n" using merge_row_reject that rej by simp
    then have "map (\<lambda>m. if is_entity ?L ?I m then fst (merge_row node cs ps r m) else m) (nodes g) = nodes g"
      using only by (intro map_idI) auto
    then show ?thesis using ex by (simp add: mergeNode_def Let_def)
  qed
  moreover have "map g_event_version (stored_nodes (fst (mergeNode g node cs ps r)) ?L ?I)
      = [Some (VNum (max stored incoming))]"
  proof -
    have "stored_nodes (fst (mergeNode g node cs ps r)) ?L ?I = [fst (merge_row node cs ps r n)]"
      by (simp add: stored_nodes_merge [OF assms(2)] assms(1))
    moreover have "g_event_version (fst (merge_row node cs ps r n)) = Some (VNum (max stored incoming))"
      by (rule merge_row_cases [of n node cs ps r]) (use rej assms(3,4) in auto)
    ultimately show ?thesis by simp
  qed
  moreover have "written (snd (merge_row node cs ps r n)) \<longleftrightarrow> \<not> incoming < stored"
    by (rule merge_row_cases [of n node cs ps r]) (use rej in auto)
  ultimately show ?thesis using res by auto
qed

definition sample_graph :: graph where
  "sample_graph = fst (mergeNode empty_graph (sample_node ''shipit://repository/default/a'' ''github://acme/a'')
     [] Map.empty 0)"

theorem freshness_guard_witness:
  "fst (mergeNode sample_graph ((sample_node ''shipit://repository/default/a'' ''github://acme/a'')
      \<lparr>n_event_version := VNum 4\<rparr>) [] Map.empty 0) = sample_graph"
proof -
  let ?n = "(sample_node ''shipit://repository/default/a'' ''github://acme/a'')\<lparr>n_event_version := VNum 4\<rparr>"
  have k: "keeps_id ?n Map.empty" "keeps_id (sample_node ''shipit://repository/default/a'' ''github://acme/a'') Map.empty"
    by (simp_all add: keeps_id_def sample_node_def)
  obtain n where n: "stored_nodes sample_graph (sanitizeLabel (n_label ?n)) (n_id ?n) = [n]"
      "g_event_version n = Some (VNum 5)"
    unfolding sample_graph_def stored_nodes_merge [OF k(2)]
    by (simp add: sample_node_def stored_nodes_def empty_graph_def merge_row_def fresh_node_def
        freshness_reject_def claims_conflict_def Let_def rev_of_def)
  have "n_event_version ?n = VNum 4" by simp
  from freshness_guard [OF n(1) k(1) n(2) this, of "[]" 0] show ?thesis by simp
qed

text \<open>
  The optimistic lock on claims. A write that passes the freshness guard replaces the
  stored claims exactly when the revision is still the one the writer read, and then advances
  it; otherwise claims and revision stay as they are and the conflict is reported. No other
  entity of the graph is touched.
\<close>

theorem claims_compare_and_set:
  assumes "stored_nodes g (sanitizeLabel (n_label node)) (n_id node) = [n]" and "keeps_id node ps"
  shows "let (g', res) = mergeNode g node cs ps r;
             fresh = (\<not> freshness_reject (g_event_version n) (n_event_version node)) in
    (claimsWritten res \<longleftrightarrow> fresh \<and> rev_of n = r) \<and>
    (claimsConflict res \<longleftrightarrow> fresh \<and> rev_of n \<noteq> r) \<and>
    (\<exists>m. stored_nodes g' (sanitizeLabel (n_label node)) (n_id node) = [m] \<and>
       (if claimsWritten res then g_claims m = Some (Encoded cs) \<and> rev_of m = rev_of n + 1
        else g_claims m = g_claims n \<and> rev_of m = rev_of n)) \<and>
    (\<forall>l i. (l, i) \<noteq> (sanitizeLabel (n_label node), n_id node) \<longrightarrow> stored_nodes g' l i = stored_nodes g l i)"
proof -
  have s: "stored_nodes (fst (mergeNode g node cs ps r)) (sanitizeLabel (n_label node)) (n_id node)
      = [fst (merge_row node cs ps r n)]"
    by (simp add: stored_nodes_merge [OF assms(2)] assms(1))
  have res: "snd (mergeNode g node cs ps r) = snd (merge_row node cs ps r n)"
    by (simp add: mergeNode_result assms(1))
  have o: "stored_nodes (fst (mergeNode g node cs ps r)) l i = stored_nodes g l i"
    if "(l, i) \<noteq> (sanitizeLabel (n_label node), n_id node)" for l i
    using that by (auto simp: stored_nodes_merge [OF assms(2)])
  show ?thesis
    by (rule merge_row_cases [of n node cs ps r])
      (use s res o in \<open>auto simp: case_prod_beta Let_def\<close>)
qed

theorem claims_compare_and_set_witness:
  "claimsConflict (snd (mergeNode sample_graph (sample_node ''shipit://repository/default/a'' ''github://acme/a'')
     sample_group Map.empty 0))"
proof -
  let ?n = "sample_node ''shipit://repository/default/a'' ''github://acme/a''"
  have k: "keeps_id ?n Map.empty" by (simp add: keeps_id_def sample_node_def)
  obtain n where n: "stored_nodes sample_graph (sanitizeLabel (n_label ?n)) (n_id ?n) = [n]"
      "g_event_version n = Some (VNum 5)" "rev_of n = 1"
    unfolding sample_graph_def stored_nodes_merge [OF k]
    by (simp add: sample_node_def stored_nodes_def empty_graph_def merge_row_def fresh_node_def
        freshness_reject_def claims_conflict_def Let_def rev_of_def)
  have "\<not> freshness_reject (g_event_version n) (n_event_version ?n)"
    by (simp add: n freshness_reject_def is_comparable_def version_greater_def sample_node_def)
  with claims_compare_and_set [OF n(1) k, of sample_group 0] n(3) show ?thesis
    by (simp add: case_prod_beta Let_def)
qed

text \<open>
  The absence sweep marks exactly the nodes of its connector that were last seen before the
  run began and carry no mark yet, and only when the run confirmed at least one node; a second
  sweep of the same run finds nothing to mark.
\<close>

theorem sweep_exact:
  assumes "markAbsent g c startedAt now = (g', k)"
  shows "(k > 0 \<longrightarrow> (\<exists>n \<in> set (nodes g). confirmed c startedAt n)) \<and>
    (\<exists>f. nodes g' = map f (nodes g) \<and>
      (\<forall>n. f n = (if to_mark c startedAt n \<and> (\<exists>n \<in> set (nodes g). confirmed c startedAt n)
        then n\<lparr>g_absent_since := Some now\<rparr> else n))) \<and>
    snd (markAbsent g' c startedAt now') = 0"
proof (cases "\<exists>n \<in> set (nodes g). confirmed c startedAt n")
  case False
  then have "length (filter (confirmed c startedAt) (nodes g)) = 0" by (simp add: filter_empty_conv)
  then have "g' = g" "k = 0" "snd (markAbsent g c startedAt now') = 0"
    using assms by (auto simp: markAbsent_def)
  then show ?thesis using False by (auto intro!: exI [of _ "\<lambda>n. n"])
next
  case True
  let ?f = "\<lambda>n. if to_mark c startedAt n then n\<lparr>g_absent_since := Some now\<rparr> else n"
  have "length (filter (confirmed c startedAt) (nodes g)) \<noteq> 0" using True by (auto simp: filter_empty_conv)
  then have g': "nodes g' = map ?f (nodes g)" using assms by (auto simp: markAbsent_def)
  have no: "\<not> to_mark c startedAt (?f n)" for n by (simp add: to_mark_def)
  have "filter (to_mark c startedAt) (map ?f ns) = []" for ns using no by (induction ns) auto
  then have "filter (to_mark c startedAt) (nodes g') = []" by (simp only: g')
  then have "snd (markAbsent g' c startedAt now') = 0" by (simp add: markAbsent_def)
  then show ?thesis using True g' by (intro conjI) (auto intro!: exI [of _ ?f])
qed

theorem sweep_exact_witness:
  "\<exists>g' k. markAbsent sample_graph ''gh'' ''2026-10-03T00:00:00.000Z'' ''2026-10-04T00:00:00.000Z'' = (g', k) \<and>
     snd (markAbsent g' ''gh'' ''2026-10-03T00:00:00.000Z'' ''2026-10-04T00:00:00.000Z'') = 0"
proof -
  obtain g' k where m: "markAbsent sample_graph ''gh'' ''2026-10-03T00:00:00.000Z'' ''2026-10-04T00:00:00.000Z'' = (g', k)"
    by fastforce
  from sweep_exact [OF m, of "''2026-10-04T00:00:00.000Z''"] m show ?thesis by blast
qed

text \<open>
  Confirming a node clears its absence mark and never moves its \<open>_last_synced\<close> back in
  time: a replayed older delivery leaves the later instant standing.
\<close>

theorem touch_monotone:
  assumes "n \<in> set (nodes g)" "has_id i n" "iso_stamp t" "g_last_synced n = Some u" "iso_stamp u"
  shows "\<exists>m \<in> set (nodes (touchLastSynced g i t)). has_id i m \<and> g_absent_since m = None \<and>
    (\<exists>v. g_last_synced m = Some v \<and> the (date_parse v) = max (the (date_parse u)) (the (date_parse t)))"
proof -
  have "touch_node t n \<in> set (nodes (touchLastSynced g i t))"
    using assms(1,2) by (auto simp: touchLastSynced_def)
  moreover have "has_id i (touch_node t n)" using assms(2) by (simp add: has_id_def)
  ultimately show ?thesis using touch_node_time [OF assms(3-5)] by auto
qed

theorem touch_monotone_witness:
  "\<exists>m \<in> set (nodes (touchLastSynced sample_graph ''shipit://repository/default/a'' ''2026-10-02T00:00:00.000Z'')).
     \<exists>v. g_last_synced m = Some v \<and> the (date_parse v) = 1790985600000"
proof -
  let ?n = "sample_node ''shipit://repository/default/a'' ''github://acme/a''"
  have k: "keeps_id ?n Map.empty" by (simp add: keeps_id_def sample_node_def)
  obtain n where n: "stored_nodes sample_graph (sanitizeLabel (n_label ?n)) (n_id ?n) = [n]"
      "g_last_synced n = Some ''2026-10-03T00:00:00.000Z''"
    unfolding sample_graph_def stored_nodes_merge [OF k]
    by (simp add: sample_node_def stored_nodes_def empty_graph_def merge_row_def fresh_node_def
        freshness_reject_def claims_conflict_def Let_def rev_of_def)
  then have m: "n \<in> set (nodes sample_graph)" "has_id ''shipit://repository/default/a'' n"
    by (auto simp: stored_nodes_def is_entity_def filter_eq_Cons_iff sample_node_def)
  have d: "date_parse ''2026-10-03T00:00:00.000Z'' = Some 1790985600000"
      "date_parse ''2026-10-02T00:00:00.000Z'' = Some 1790899200000" by code_simp+
  then have i: "iso_stamp ''2026-10-03T00:00:00.000Z''" "iso_stamp ''2026-10-02T00:00:00.000Z''"
    by (simp_all add: iso_stamp_def)
  from touch_monotone [OF m i(2) n(2) i(1)] show ?thesis by (auto simp: d)
qed

text \<open>
  A processed key stays known for its whole time to live: after it was recorded at \<open>t\<close> for
  \<open>ttl\<close> days it counts as a duplicate, and a cleanup removes it only when it runs later than
  \<open>ttl\<close> days after \<open>t\<close>.
\<close>

theorem idempotency_retention:
  assumes "distinct (map fst (idempotency_log g))"
    and "in_four_digit_years (t + ttl * ms_per_ttl_day)" "in_four_digit_years now"
  shows "checkIdempotencyKey (writeIdempotencyKey g key ttl t) key \<and>
    (checkIdempotencyKey (fst (cleanupExpiredIdempotencyKeys (writeIdempotencyKey g key ttl t) now)) key
      \<longleftrightarrow> now \<le> t + ttl * ms_per_ttl_day)"
proof -
  have "distinct (map fst (idempotency_log (writeIdempotencyKey g key ttl t)))"
    by (simp add: writeIdempotencyKey_def log_put_distinct [OF assms(1)])
  moreover have "str_less (toISOString (t + ttl * ms_per_ttl_day)) (toISOString now) \<longleftrightarrow> t + ttl * ms_per_ttl_day < now"
    using stamp_order [OF iso_stamp_toISOString iso_stamp_toISOString] assms
    by (simp add: date_parse_toISOString)
  ultimately show ?thesis
    by (auto simp: checkIdempotencyKey_def writeIdempotencyKey_def cleanupExpiredIdempotencyKeys_def
        log_put_lookup filter_lookup Let_def)
qed

theorem idempotency_retention_witness:
  "checkIdempotencyKey (fst (cleanupExpiredIdempotencyKeys (writeIdempotencyKey empty_graph ''k'' 30 0) 86400000)) ''k''"
proof -
  have "in_four_digit_years (0 + 30 * ms_per_ttl_day)" "in_four_digit_years 86400000"
    by (simp_all add: in_four_digit_years_def ms_per_day_def ms_per_ttl_day_def day_from_year_def)
  from idempotency_retention [OF _ this, of empty_graph "''k''"] show ?thesis
    by (simp add: empty_graph_def ms_per_ttl_day_def)
qed

end
