(* ===== verification/Event_Version.thy ===== *)
theory Event_Version
  imports Identity "HOL-Library.Multiset"
begin

text \<open>
  The two tokens of a delivery (\<open>packages/shared/src/utils/event-version.ts\<close>): the ordering
  version and the content fingerprint that the writer deduplicates by
  (\<open>buildNodeIdempotencyKey\<close> of \<open>packages/core-writer/src/idempotency.ts\<close>). The digest
  (SHA-256 in hexadecimal) and the text of a number are parameters. Keys of an object that
  look like array indices, which the language lists first whatever their insertion order, are
  not treated apart.
\<close>

section \<open>Versions\<close>

definition CONTENT_VERSION_PREFIX :: string where "CONTENT_VERSION_PREFIX = ''ch_''"

definition isContentVersion :: "event_version \<Rightarrow> bool" where
  "isContentVersion v = (case v of VStr s \<Rightarrow> starts_with s CONTENT_VERSION_PREFIX | _ \<Rightarrow> False)"

text \<open>An input is absent, an ISO text or a number; a number that is not finite is \<open>TNonFinite\<close>.\<close>

datatype time_input = TAbsent | TText string | TNumber int | TNonFinite

definition input_ms :: "time_input \<Rightarrow> int option" where
  "input_ms input = (case input of TText s \<Rightarrow> date_parse s | TNumber n \<Rightarrow> Some n | _ \<Rightarrow> None)"

fun deriveTimeVersion_from :: "int option \<Rightarrow> time_input list \<Rightarrow> int option" where
  "deriveTimeVersion_from best [] = best"
| "deriveTimeVersion_from best (input # inputs) =
     (case input_ms input of
        Some ms \<Rightarrow> deriveTimeVersion_from (Some (case best of None \<Rightarrow> ms | Some m \<Rightarrow> max m ms)) inputs
      | None \<Rightarrow> deriveTimeVersion_from best inputs)"

definition deriveTimeVersion :: "time_input list \<Rightarrow> int option" where
  "deriveTimeVersion inputs = deriveTimeVersion_from None inputs"

section \<open>Content\<close>

definition key_compare :: "string \<times> jsval \<Rightarrow> string \<times> jsval \<Rightarrow> rat" where
  "key_compare a b = text_compare (fst a) (fst b)"

fun canonicalize :: "jsval \<Rightarrow> jsval" where
  "canonicalize (JArr xs) = JArr (map canonicalize xs)"
| "canonicalize (JObj kvs) = JObj (js_sort key_compare (map (\<lambda>kv. (fst kv, canonicalize (snd kv))) kvs))"
| "canonicalize v = v"

definition content_json :: "jsval \<Rightarrow> string" where
  "content_json v = (case stringify (canonicalize v) of Some t \<Rightarrow> t | None \<Rightarrow> [])"

definition deriveContentVersion :: "(string \<Rightarrow> string) \<Rightarrow> jsval \<Rightarrow> string" where
  "deriveContentVersion digest content = CONTENT_VERSION_PREFIX @ digest (content_json content)"

definition claim_content :: "(rat \<Rightarrow> string) \<Rightarrow> claim \<Rightarrow> jsval" where
  "claim_content num c = JObj [(''property_key'', JStr (property_key c)), (''value'', c_value c),
     (''source'', JStr (c_source c)), (''confidence'', JNum (num (c_confidence c)))]"

definition node_content :: "(rat \<Rightarrow> string) \<Rightarrow> canonical_node \<Rightarrow> jsval" where
  "node_content num node = JObj [(''id'', JStr (n_id node)), (''label'', JStr (n_label node)),
     (''properties'', JObj (n_properties node)),
     (''source_system'', JStr (n_source_system node)), (''source_org'', JStr (n_source_org node)),
     (''source_id'', JStr (n_source_id node)),
     (''claims'', JArr (map (claim_content num) (n_claims node)))]"

definition deriveNodeContentHash ::
    "(string \<Rightarrow> string) \<Rightarrow> (rat \<Rightarrow> string) \<Rightarrow> canonical_node \<Rightarrow> string" where
  "deriveNodeContentHash digest num node = take 32 (digest (content_json (node_content num node)))"

definition buildNodeIdempotencyKey ::
    "(string \<Rightarrow> string) \<Rightarrow> (rat \<Rightarrow> string) \<Rightarrow> string \<Rightarrow> canonical_node \<Rightarrow> string" where
  "buildNodeIdempotencyKey digest num connectorId node =
     connectorId @ '':'' @ n_id node @ '':'' @ deriveNodeContentHash digest num node"

section \<open>Facts\<close>

lemma set_map_filter: "set (List.map_filter f xs) = {y. \<exists>x \<in> set xs. f x = Some y}"
  by (induction xs) (auto simp: map_filter_simps split: option.splits)

lemma deriveTimeVersion_from_Some:
  "deriveTimeVersion_from (Some m) inputs = Some (Max (insert m {t. \<exists>i \<in> set inputs. input_ms i = Some t}))"
proof (induction inputs arbitrary: m)
  case (Cons i inputs)
  let ?S = "{t. \<exists>i \<in> set inputs. input_ms i = Some t}"
  have fin: "finite ?S"
    by (rule finite_subset [of _ "(\<lambda>i. the (input_ms i)) ` set inputs"]) force+
  show ?case
  proof (cases "input_ms i")
    case None
    then have "{t. \<exists>j \<in> set (i # inputs). input_ms j = Some t} = ?S" by auto
    then show ?thesis using Cons.IH None by simp
  next
    case (Some ms)
    then have "{t. \<exists>j \<in> set (i # inputs). input_ms j = Some t} = insert ms ?S" by auto
    moreover have "Max (insert (max m ms) ?S) = Max (insert m (insert ms ?S))"
      using fin by (cases "?S = {}") (simp_all add: max.assoc)
    ultimately show ?thesis using Cons.IH Some by simp
  qed
qed simp

lemma js_sort_keys_perm:
  assumes "distinct (map fst xs)" "mset xs = mset ys"
  shows "js_sort key_compare xs = js_sort key_compare ys"
  using assms
proof (induction xs arbitrary: ys)
  case (Cons x xs)
  have tr: "\<not> str_less c a" if "\<not> str_less b a" "\<not> str_less c b" for a b c
    using that str_less_trans [of c a b] str_less_total [of a b] by auto
  have comm: "insert_by key_compare a (insert_by key_compare b zs) = insert_by key_compare b (insert_by key_compare a zs)"
    if "fst a \<noteq> fst b" for a b zs
  proof (rule insert_by_commute)
    show "a = b \<or> \<not> (key_compare a b \<le> 0 \<and> key_compare b a \<le> 0)"
      using that str_less_total [of "fst a" "fst b"] by (auto simp: key_compare_def text_compare_le)
    show "key_compare a b \<le> 0 \<or> key_compare b a \<le> 0"
      using str_less_asym [of "fst a" "fst b"] by (auto simp: key_compare_def text_compare_le)
  qed (use tr in \<open>auto simp: key_compare_def text_compare_le\<close>)
  have out: "js_sort key_compare (us @ x # vs) = insert_by key_compare x (js_sort key_compare (us @ vs))"
    if "fst x \<notin> fst ` set us" for us vs
    using that
  proof (induction us)
    case (Cons u us)
    then have "fst u \<noteq> fst x" by auto
    then show ?case using Cons comm [of u x] by simp
  qed simp
  have "x \<in> set ys" using Cons.prems by (metis list.set_intros(1) set_mset_mset)
  then obtain us vs where ys: "ys = us @ x # vs" by (auto dest: split_list)
  have m: "mset xs = mset (us @ vs)" using Cons.prems(2) by (simp add: ys)
  then have "set xs = set (us @ vs)" by (metis set_mset_mset)
  then have "fst x \<notin> fst ` set us" using Cons.prems(1) by auto
  then show ?case using Cons.IH [OF _ m] Cons.prems(1) by (simp add: ys out)
qed simp

text \<open>Two values that differ at most in the order of the keys of their objects.\<close>

inductive same_content :: "jsval \<Rightarrow> jsval \<Rightarrow> bool" where
  same: "same_content v v"
| arr: "list_all2 same_content xs ys \<Longrightarrow> same_content (JArr xs) (JArr ys)"
| obj: "list_all2 (\<lambda>a b. fst a = fst b \<and> same_content (snd a) (snd b)) kvs kvs' \<Longrightarrow>
    mset kvs' = mset kvs'' \<Longrightarrow> distinct (map fst kvs) \<Longrightarrow> same_content (JObj kvs) (JObj kvs'')"

lemma canonicalize_same_content: "same_content v w \<Longrightarrow> canonicalize v = canonicalize w"
proof (induction rule: same_content.induct)
  case (arr xs ys)
  then have "map canonicalize xs = map canonicalize ys"
    by (auto simp: list_all2_conv_all_nth intro: nth_equalityI)
  then show ?case by simp
next
  case (obj kvs kvs' kvs'')
  let ?c = "map (\<lambda>kv. (fst kv, canonicalize (snd kv)))"
  have "?c kvs = ?c kvs'"
    using obj(1) by (auto simp: list_all2_conv_all_nth intro: nth_equalityI)
  moreover have "mset (?c kvs') = mset (?c kvs'')" using obj.hyps by simp
  moreover have "distinct (map fst (?c kvs))" using obj.hyps by (simp add: comp_def)
  ultimately show ?case using js_sort_keys_perm [of "?c kvs" "?c kvs''"] by simp
qed simp

lemma canonicalize_node_content:
  assumes "n_id m = n_id n" "n_label m = n_label n" "n_source_system m = n_source_system n"
    "n_source_org m = n_source_org n" "n_source_id m = n_source_id n"
    "canonicalize (JObj (n_properties m)) = canonicalize (JObj (n_properties n))"
    "map (claim_content num) (n_claims m) = map (claim_content num) (n_claims n)"
  shows "canonicalize (node_content num m) = canonicalize (node_content num n)"
  unfolding node_content_def canonicalize.simps(2)
  by (rule arg_cong [where f = "\<lambda>xs. JObj (js_sort key_compare xs)"]) (use assms in simp)

section \<open>Properties\<close>

text \<open>
  The time version is the latest of the readable instants: absent, unreadable and
  non-finite inputs never enter it, and without a readable one there is no version.
\<close>

theorem time_version_latest:
  "deriveTimeVersion inputs =
    (if List.map_filter input_ms inputs = [] then None else Some (Max (set (List.map_filter input_ms inputs))))"
proof -
  have from_Some: "deriveTimeVersion_from (Some m) is = Some (Max (insert m (set (List.map_filter input_ms is))))" for m "is"
    by (simp add: deriveTimeVersion_from_Some set_map_filter)
  show ?thesis
  proof (induction inputs)
    case (Cons i inputs)
    then show ?case
      by (cases "input_ms i") (simp_all add: deriveTimeVersion_def map_filter_simps from_Some)
  qed (simp add: deriveTimeVersion_def map_filter_simps)
qed

lemma some_input_readable: "deriveTimeVersion [TAbsent, TText ''1970-01-01T00:00:00.005Z'', TNonFinite, TNumber 3] = Some 5"
  by code_simp

text \<open>
  The deduplication key sees content only: it ignores when a node was synced, its ordering
  version and when its claims were ingested, and it ignores the order of the keys of its
  properties.
\<close>

theorem dedup_key_content_only:
  assumes "same_content (JObj (n_properties node)) (JObj ps)"
  shows "buildNodeIdempotencyKey digest num c (node\<lparr>n_properties := ps, n_last_synced := t, n_event_version := v,
      n_claims := map (\<lambda>x. x\<lparr>ingested_at := f x\<rparr>) (n_claims node)\<rparr>)
    = buildNodeIdempotencyKey digest num c node"
proof -
  have "canonicalize (JObj (n_properties node)) = canonicalize (JObj ps)"
    by (rule canonicalize_same_content [OF assms])
  moreover have "claim_content num (x\<lparr>ingested_at := u\<rparr>) = claim_content num x" for x u
    by (simp add: claim_content_def)
  ultimately have "canonicalize (node_content num (node\<lparr>n_properties := ps, n_last_synced := t, n_event_version := v,
      n_claims := map (\<lambda>x. x\<lparr>ingested_at := f x\<rparr>) (n_claims node)\<rparr>)) = canonicalize (node_content num node)"
    by (intro canonicalize_node_content) (simp_all add: comp_def)
  then show ?thesis
    by (simp add: buildNodeIdempotencyKey_def deriveNodeContentHash_def content_json_def)
qed

theorem dedup_key_content_only_witness:
  "buildNodeIdempotencyKey id (\<lambda>_. ''1'') ''c''
      ((sample_node ''i'' ''k'')\<lparr>n_properties := [(''b'', JNull), (''a'', JNull)]\<rparr>)
   = buildNodeIdempotencyKey id (\<lambda>_. ''1'') ''c''
      ((sample_node ''i'' ''k'')\<lparr>n_properties := [(''a'', JNull), (''b'', JNull)]\<rparr>)"
proof -
  let ?n = "(sample_node ''i'' ''k'')\<lparr>n_properties := [(''a'', JNull), (''b'', JNull)]\<rparr>"
  have "same_content (JObj (n_properties ?n)) (JObj [(''b'', JNull), (''a'', JNull)])"
    by (rule same_content.obj [of _ "n_properties ?n"]) (auto intro: same_content.same)
  from dedup_key_content_only [OF this, where digest = id and num = "\<lambda>_. ''1''" and c = "''c''"
      and t = "n_last_synced ?n" and v = "n_event_version ?n" and f = ingested_at]
  show ?thesis by (simp add: sample_node_def)
qed

end
