(* ===== verification/Writer.thy ===== *)
theory Writer
  imports Graph Event_Version
begin

text \<open>
  The core writer (\<open>packages/core-writer/src/writer.ts\<close>) and the buffer in front of it
  (\<open>batch.ts\<close>). A writer is built from three interfaces, as its constructor is: the node
  writer, the idempotency checker and the reconciler, all acting on one state; every call may
  throw. The clock is read off the state. The console is not modelled.
\<close>

section \<open>Events\<close>

datatype event_kind = Entities | SyncCompleted
datatype sync_mode = Full | Incremental

record sync_control =
  startedAt :: string
  mode :: sync_mode

text \<open>A field of a payload is \<open>None\<close> when it is not an array.\<close>

record event_payload =
  payload_nodes :: "canonical_node list option"
  payload_edges :: "canonical_edge list option"

record event_envelope =
  ev_connector_id :: string
  ev_payload :: "event_payload option"
  ev_kind :: "event_kind option"
  ev_control :: "sync_control option"

section \<open>The interfaces of the writer\<close>

record 's node_writer =
  writeNode :: "canonical_node \<Rightarrow> claim list \<Rightarrow> (string \<rightharpoonup> jsval) \<Rightarrow> nat \<Rightarrow> ('s, merge_result) op"
  writeEdge :: "canonical_edge \<Rightarrow> ('s, unit) op"
  readClaims :: "string \<Rightarrow> ('s, existing_claims) op"
  touchNode :: "string \<Rightarrow> string \<Rightarrow> ('s, unit) op"
  sweep :: "string \<Rightarrow> string \<Rightarrow> string \<Rightarrow> ('s, nat) op"

record 's idempotency_checker =
  isDuplicate :: "string \<Rightarrow> ('s, bool) op"
  record_key :: "string \<Rightarrow> ('s, unit) op"

record 's core_writer =
  nodeWriter :: "'s node_writer"
  reconciler :: "canonical_node \<Rightarrow> ('s, reconciliation) op"
  idempotency :: "'s idempotency_checker"
  resolverOptions :: resolver_options
  clock :: "'s \<Rightarrow> int"
  nodeKey :: "string \<Rightarrow> canonical_node \<Rightarrow> string"

section \<open>One node\<close>

definition CLAIMS_REV_MAX_RETRIES :: nat where "CLAIMS_REV_MAX_RETRIES = 3"

text \<open>
  The loop on the claims revision: \<open>k\<close> attempts are left, \<open>prev\<close> holds \<open>written\<close> and
  \<open>claimsConflict\<close> of the attempt before.
\<close>

primrec write_attempts ::
    "nat \<Rightarrow> 's core_writer \<Rightarrow> canonical_node \<Rightarrow> canonical_node \<Rightarrow> bool \<times> bool \<Rightarrow> ('s, bool \<times> bool) op" where
  "write_attempts 0 w node nodeToWrite prev = op_return prev"
| "write_attempts (Suc k) w node nodeToWrite prev =
     op_bind (readClaims (nodeWriter w) (n_id nodeToWrite)) (\<lambda>existing s.
       (case resolve (resolverOptions w) (x_claims existing) (n_claims node) (clock w s) of
          (mergedClaims, effectiveProperties) \<Rightarrow>
            op_bind (writeNode (nodeWriter w) nodeToWrite mergedClaims effectiveProperties (x_claimsRev existing))
              (\<lambda>result.
                 if \<not> claimsConflict result then op_return (written result, False)
                 else write_attempts k w node nodeToWrite (written result, True)) s))"

datatype node_outcome = Duplicate | ConflictSkipped | NodeWritten | FreshnessSkipped

text \<open>A presence touch whose failure is swallowed; skipped without a text stamp.\<close>

definition touch_quietly :: "'s core_writer \<Rightarrow> string \<Rightarrow> string option \<Rightarrow> ('s, unit) op" where
  "touch_quietly w i lastSynced =
     (case lastSynced of None \<Rightarrow> op_return () | Some t \<Rightarrow> op_ignore (touchNode (nodeWriter w) i t))"

definition node_to_write :: "string \<Rightarrow> reconciliation \<Rightarrow> canonical_node \<Rightarrow> canonical_node" where
  "node_to_write connectorId r node =
     node\<lparr>n_id := r_canonicalId r, n_source_connector_id := Some connectorId\<rparr>"

definition write_new :: "'s core_writer \<Rightarrow> string \<Rightarrow> string \<Rightarrow> canonical_node \<Rightarrow> ('s, node_outcome) op" where
  "write_new w connectorId key node =
     op_bind (reconciler w node) (\<lambda>r.
       let nodeToWrite = node_to_write connectorId r node in
       op_bind (write_attempts CLAIMS_REV_MAX_RETRIES w node nodeToWrite (False, False)) (\<lambda>(written, conflict).
         if conflict then op_return ConflictSkipped
         else op_bind (record_key (idempotency w) key) (\<lambda>_.
           if written then op_return NodeWritten
           else op_bind (touch_quietly w (n_id nodeToWrite) (n_last_synced node))
             (\<lambda>_. op_return FreshnessSkipped))))"

definition deliver_node :: "'s core_writer \<Rightarrow> string \<Rightarrow> canonical_node \<Rightarrow> ('s, node_outcome) op" where
  "deliver_node w connectorId node =
     (let key = nodeKey w connectorId node in
      op_bind (isDuplicate (idempotency w) key) (\<lambda>dup.
        if dup then op_bind (touch_quietly w (n_id node) (n_last_synced node)) (\<lambda>_. op_return Duplicate)
        else write_new w connectorId key node))"

section \<open>A batch\<close>

record write_result =
  nodesWritten :: nat
  edgesWritten :: nat
  duplicatesSkipped :: nat
  freshnessSkipped :: nat
  claimsConflictSkipped :: nat
  absentMarked :: nat
  errors :: "string list"

record batch_state = write_result +
  failedConnectors :: "string set"

definition start_batch :: batch_state where
  "start_batch = \<lparr>nodesWritten = 0, edgesWritten = 0, duplicatesSkipped = 0, freshnessSkipped = 0,
     claimsConflictSkipped = 0, absentMarked = 0, errors = [], failedConnectors = {}\<rparr>"

definition failed_write :: "string \<Rightarrow> string \<Rightarrow> batch_state \<Rightarrow> batch_state" where
  "failed_write connectorId e acc = acc\<lparr>errors := errors acc @ [e],
     failedConnectors := insert connectorId (failedConnectors acc)\<rparr>"

fun count_outcome :: "node_outcome \<Rightarrow> batch_state \<Rightarrow> batch_state" where
  "count_outcome Duplicate acc = acc\<lparr>duplicatesSkipped := duplicatesSkipped acc + 1\<rparr>"
| "count_outcome ConflictSkipped acc = acc\<lparr>claimsConflictSkipped := claimsConflictSkipped acc + 1\<rparr>"
| "count_outcome NodeWritten acc = acc\<lparr>nodesWritten := nodesWritten acc + 1\<rparr>"
| "count_outcome FreshnessSkipped acc = acc\<lparr>freshnessSkipped := freshnessSkipped acc + 1\<rparr>"

definition process_node ::
    "'s core_writer \<Rightarrow> string \<Rightarrow> canonical_node \<Rightarrow> batch_state \<times> 's \<Rightarrow> batch_state \<times> 's" where
  "process_node w connectorId node = (\<lambda>(acc, s).
     case deliver_node w connectorId node s of
       (Inr out, s') \<Rightarrow> (count_outcome out acc, s')
     | (Inl e, s') \<Rightarrow> (failed_write connectorId (''Error writing node '' @ n_id node @ '': '' @ e) acc, s'))"

definition edge_error :: "canonical_edge \<Rightarrow> string \<Rightarrow> string" where
  "edge_error edge e =
     ''Error writing edge '' @ e_type edge @ '' '' @ e_from edge @ ''->'' @ e_to edge @ '': '' @ e"

definition process_edge ::
    "'s core_writer \<Rightarrow> string \<Rightarrow> canonical_edge \<Rightarrow> batch_state \<times> 's \<Rightarrow> batch_state \<times> 's" where
  "process_edge w connectorId edge = (\<lambda>(acc, s).
     case writeEdge (nodeWriter w) edge s of
       (Inr _, s') \<Rightarrow> (acc\<lparr>edgesWritten := edgesWritten acc + 1\<rparr>, s')
     | (Inl e, s') \<Rightarrow> (failed_write connectorId (edge_error edge e) acc, s'))"

definition process_sweep ::
    "'s core_writer \<Rightarrow> event_envelope \<Rightarrow> batch_state \<times> 's \<Rightarrow> batch_state \<times> 's" where
  "process_sweep w event = (\<lambda>(acc, s).
     case ev_control event of
       None \<Rightarrow> (acc, s)
     | Some control \<Rightarrow>
         if mode control \<noteq> Full then (acc, s)
         else if ev_connector_id event \<in> failedConnectors acc then (acc, s)
         else (case sweep (nodeWriter w) (ev_connector_id event) (startedAt control) (toISOString (clock w s)) s of
             (Inr marked, s') \<Rightarrow> (acc\<lparr>absentMarked := absentMarked acc + marked\<rparr>, s')
           | (Inl e, s') \<Rightarrow> (acc\<lparr>errors := errors acc @
                 [''Error sweeping absent nodes for '' @ ev_connector_id event @ '': '' @ e]\<rparr>, s')))"

definition process_event ::
    "'s core_writer \<Rightarrow> event_envelope \<Rightarrow> batch_state \<times> 's \<Rightarrow> batch_state \<times> 's" where
  "process_event w event st =
     (if ev_kind event = Some SyncCompleted then process_sweep w event st
      else (case ev_payload event of
          None \<Rightarrow> st
        | Some payload \<Rightarrow>
            (case payload_nodes payload of
               None \<Rightarrow> st
             | Some ns \<Rightarrow>
                 let st1 = fold (process_node w (ev_connector_id event)) ns st in
                 (case payload_edges payload of
                    None \<Rightarrow> st1
                  | Some es \<Rightarrow> fold (process_edge w (ev_connector_id event)) es st1))))"

definition processBatch :: "'s core_writer \<Rightarrow> event_envelope list \<Rightarrow> 's \<Rightarrow> write_result \<times> 's" where
  "processBatch w batch s =
     (case fold (process_event w) batch (start_batch, s) of (acc, s') \<Rightarrow> (write_result.truncate acc, s'))"

definition processEvent :: "'s core_writer \<Rightarrow> event_envelope \<Rightarrow> 's \<Rightarrow> write_result \<times> 's" where
  "processEvent w event s = processBatch w [event] s"

section \<open>The buffer\<close>

text \<open>\<open>BatchProcessor\<close>: \<open>onFlush\<close> is an argument of its operations; the timer calls \<open>flush\<close>.\<close>

record 'e batch_processor =
  buffer :: "'e list"
  batchSize :: nat

definition flush :: "('e list \<Rightarrow> ('s, unit) op) \<Rightarrow> 'e batch_processor \<times> 's \<Rightarrow> (string + unit) \<times> 'e batch_processor \<times> 's" where
  "flush onFlush = (\<lambda>(b, s).
     if buffer b = [] then (Inr (), b, s)
     else let batch = take (batchSize b) (buffer b);
              b' = b\<lparr>buffer := drop (batchSize b) (buffer b)\<rparr>;
              (r, s') = onFlush batch s
          in (r, b', s'))"

definition add :: "('e list \<Rightarrow> ('s, unit) op) \<Rightarrow> 'e \<Rightarrow> 'e batch_processor \<times> 's \<Rightarrow> (string + unit) \<times> 'e batch_processor \<times> 's" where
  "add onFlush event = (\<lambda>(b, s).
     let b' = b\<lparr>buffer := buffer b @ [event]\<rparr> in
     if batchSize b' \<le> length (buffer b') then flush onFlush (b', s) else (Inr (), b', s))"

definition pendingCount :: "'e batch_processor \<Rightarrow> nat" where
  "pendingCount b = length (buffer b)"

section \<open>The production writer\<close>

text \<open>
  \<open>Neo4jNodeWriter\<close> and \<open>Neo4jIdempotencyChecker\<close>: every operation is one transaction on the
  graph. The clock is fixed for the whole run; \<open>ttlDays\<close> and the digest are configuration.
\<close>

definition atomically :: "('s \<Rightarrow> 's \<times> 'r) \<Rightarrow> ('s, 'r) op" where
  "atomically f s = (case f s of (s', r) \<Rightarrow> (Inr r, s'))"

definition Neo4jNodeWriter :: "graph node_writer" where
  "Neo4jNodeWriter = \<lparr>
     writeNode = \<lambda>node mergedClaims effectiveProperties expectedClaimsRev.
       atomically (\<lambda>g. mergeNode g node mergedClaims effectiveProperties expectedClaimsRev),
     writeEdge = \<lambda>edge. atomically (\<lambda>g. (mergeEdge g edge, ())),
     readClaims = \<lambda>nodeId. atomically (\<lambda>g. (g, getExistingClaims g nodeId)),
     touchNode = \<lambda>nodeId lastSynced. atomically (\<lambda>g. (touchLastSynced g nodeId lastSynced, ())),
     sweep = \<lambda>connectorId started now. atomically (\<lambda>g. markAbsent g connectorId started now)\<rparr>"

definition Neo4jIdempotencyChecker :: "int \<Rightarrow> int \<Rightarrow> graph idempotency_checker" where
  "Neo4jIdempotencyChecker ttlDays now = \<lparr>
     isDuplicate = \<lambda>key. atomically (\<lambda>g. (g, checkIdempotencyKey g key)),
     record_key = \<lambda>key. atomically (\<lambda>g. (writeIdempotencyKey g key ttlDays now, ()))\<rparr>"

definition InMemoryIdempotencyChecker :: "string set idempotency_checker" where
  "InMemoryIdempotencyChecker = \<lparr>
     isDuplicate = \<lambda>key. atomically (\<lambda>seen. (seen, key \<in> seen)),
     record_key = \<lambda>key. atomically (\<lambda>seen. (insert key seen, ()))\<rparr>"

definition neo4j_core_writer ::
    "int \<Rightarrow> int \<Rightarrow> rat \<Rightarrow> (string \<Rightarrow> string) \<Rightarrow> (rat \<Rightarrow> string) \<Rightarrow> graph core_writer" where
  "neo4j_core_writer ttlDays now rate digest num = \<lparr>
     nodeWriter = Neo4jNodeWriter,
     reconciler = \<lambda>node. atomically (\<lambda>g.
       (snd (reconcile (Neo4jLinkingKeyIndex (toISOString now)) g node),
        fst (reconcile (Neo4jLinkingKeyIndex (toISOString now)) g node))),
     idempotency = Neo4jIdempotencyChecker ttlDays now,
     resolverOptions = DEFAULT_RESOLVER_OPTIONS\<lparr>resolverDecayRate := rate\<rparr>,
     clock = \<lambda>_. now,
     nodeKey = buildNodeIdempotencyKey digest num\<rparr>"

section \<open>What a delivery keeps\<close>

definition writer_keeps :: "('s \<Rightarrow> bool) \<Rightarrow> 's core_writer \<Rightarrow> bool" where
  "writer_keeps P w \<longleftrightarrow>
     (\<forall>n cs ps r. op_keeps P (writeNode (nodeWriter w) n cs ps r)) \<and>
     (\<forall>e. op_keeps P (writeEdge (nodeWriter w) e)) \<and>
     (\<forall>i. op_keeps P (readClaims (nodeWriter w) i)) \<and>
     (\<forall>i t. op_keeps P (touchNode (nodeWriter w) i t)) \<and>
     (\<forall>c t n. op_keeps P (sweep (nodeWriter w) c t n)) \<and>
     (\<forall>k. op_keeps P (isDuplicate (idempotency w) k)) \<and>
     (\<forall>k. op_keeps P (record_key (idempotency w) k)) \<and>
     (\<forall>n. op_keeps P (reconciler w n))"

lemma writer_keeps_call:
  assumes "writer_keeps P w"
  shows "op_keeps P (writeNode (nodeWriter w) n cs ps r)" "op_keeps P (writeEdge (nodeWriter w) e)"
    "op_keeps P (readClaims (nodeWriter w) i)" "op_keeps P (touchNode (nodeWriter w) i t)"
    "op_keeps P (sweep (nodeWriter w) c t u)" "op_keeps P (isDuplicate (idempotency w) k)"
    "op_keeps P (record_key (idempotency w) k)" "op_keeps P (reconciler w n)"
  using assms by (simp_all add: writer_keeps_def)

lemma op_keeps_split:
  "(\<And>a b. op_keeps P (f a b)) \<Longrightarrow> op_keeps P (\<lambda>s. case g s of (a, b) \<Rightarrow> f a b s)"
  by (simp add: op_keeps_def split: prod.split)

lemma write_attempts_keeps:
  "writer_keeps P w \<Longrightarrow> op_keeps P (write_attempts k w node nodeToWrite prev)"
proof (induction k arbitrary: prev)
  case (Suc k)
  have "op_keeps P (\<lambda>s. (case resolve (resolverOptions w) (x_claims existing) (n_claims node) (clock w s) of
          (mergedClaims, effectiveProperties) \<Rightarrow>
            op_bind (writeNode (nodeWriter w) nodeToWrite mergedClaims effectiveProperties (x_claimsRev existing))
              (\<lambda>result.
                 if \<not> claimsConflict result then op_return (written result, False)
                 else write_attempts k w node nodeToWrite (written result, True)) s))" for existing
    by (rule op_keeps_split, rule op_keeps_bind [OF writer_keeps_call(1) [OF Suc.prems]])
      (simp add: Suc.IH [OF Suc.prems])
  then show ?case
    by (simp only: write_attempts.simps) (rule op_keeps_bind [OF writer_keeps_call(3) [OF Suc.prems]])
qed simp

lemma touch_quietly_keeps: "writer_keeps P w \<Longrightarrow> op_keeps P (touch_quietly w i t)"
  by (auto simp: touch_quietly_def intro: op_keeps_ignore writer_keeps_call split: option.split)

lemma write_new_keeps: "writer_keeps P w \<Longrightarrow> op_keeps P (write_new w c key node)"
  unfolding write_new_def Let_def
  by (auto intro!: op_keeps_bind write_attempts_keeps touch_quietly_keeps writer_keeps_call)

lemma deliver_node_keeps: "writer_keeps P w \<Longrightarrow> op_keeps P (deliver_node w c node)"
  unfolding deliver_node_def Let_def
  by (auto intro!: op_keeps_bind write_new_keeps touch_quietly_keeps writer_keeps_call)

lemma process_node_keeps: "writer_keeps P w \<Longrightarrow> P (snd st) \<Longrightarrow> P (snd (process_node w c node st))"
  using deliver_node_keeps [of P w c node]
  by (auto simp: process_node_def op_keeps_def split: prod.splits sum.splits dest!: spec [of _ "snd st"])

lemma process_edge_keeps: "writer_keeps P w \<Longrightarrow> P (snd st) \<Longrightarrow> P (snd (process_edge w c e st))"
  using writer_keeps_call(2) [of P w e]
  by (auto simp: process_edge_def op_keeps_def split: prod.splits sum.splits dest!: spec [of _ "snd st"])

text \<open>A control envelope that must not sweep, and what one sweep adds to the accounts.\<close>

definition may_sweep :: "event_envelope \<Rightarrow> batch_state \<Rightarrow> bool" where
  "may_sweep e acc = (case ev_control e of None \<Rightarrow> False
     | Some control \<Rightarrow> mode control = Full \<and> ev_connector_id e \<notin> failedConnectors acc)"

lemma process_sweep_skip: "\<not> may_sweep e acc \<Longrightarrow> process_sweep w e (acc, s) = (acc, s)"
  by (cases "ev_control e") (auto simp: may_sweep_def process_sweep_def)

lemma process_sweep_run:
  assumes "may_sweep e acc"
  obtains c marked s' where "ev_control e = Some c"
      "sweep (nodeWriter w) (ev_connector_id e) (startedAt c) (toISOString (clock w s)) s = (Inr marked, s')"
      "process_sweep w e (acc, s) = (acc\<lparr>absentMarked := absentMarked acc + marked\<rparr>, s')"
  | c t s' where "ev_control e = Some c"
      "sweep (nodeWriter w) (ev_connector_id e) (startedAt c) (toISOString (clock w s)) s = (Inl t, s')"
      "process_sweep w e (acc, s) = (acc\<lparr>errors := errors acc @
         [''Error sweeping absent nodes for '' @ ev_connector_id e @ '': '' @ t]\<rparr>, s')"
proof -
  obtain c where c: "ev_control e = Some c" "mode c = Full" "ev_connector_id e \<notin> failedConnectors acc"
    using assms by (auto simp: may_sweep_def split: option.splits)
  obtain r s' where r: "sweep (nodeWriter w) (ev_connector_id e) (startedAt c) (toISOString (clock w s)) s = (r, s')"
    by (cases "sweep (nodeWriter w) (ev_connector_id e) (startedAt c) (toISOString (clock w s)) s")
  show ?thesis
  proof (cases r)
    case (Inl t)
    show ?thesis by (rule that(2) [OF c(1) r [unfolded Inl]]) (simp add: process_sweep_def c r Inl)
  next
    case (Inr m)
    show ?thesis by (rule that(1) [OF c(1) r [unfolded Inr]]) (simp add: process_sweep_def c r Inr)
  qed
qed

lemma process_sweep_keeps:
  assumes "writer_keeps P w" "P (snd st)"
  shows "P (snd (process_sweep w e st))"
proof -
  obtain acc s where st: "st = (acc, s)" by (cases st)
  have k: "P s'" if "sweep (nodeWriter w) c t u s = (r, s')" for c t u r s'
    using op_keepsD [OF writer_keeps_call(5) [OF assms(1)] that] assms(2) st by simp
  show ?thesis
  proof (cases "may_sweep e acc")
    case True
    then show ?thesis unfolding st
      by (rule process_sweep_run [of e acc w s]) (simp_all add: k)
  next
    case False
    then show ?thesis using assms(2) by (simp add: st process_sweep_skip)
  qed
qed

text \<open>An event is a sequence of sweeps, node and edge deliveries; so is a batch.\<close>

lemma process_event_invariant:
  assumes "Q st" and "\<And>st. Q st \<Longrightarrow> Q (process_sweep w e st)"
    and "\<And>n st. Q st \<Longrightarrow> Q (process_node w (ev_connector_id e) n st)"
    and "\<And>x st. Q st \<Longrightarrow> Q (process_edge w (ev_connector_id e) x st)"
  shows "Q (process_event w e st)"
proof -
  have nodes: "Q (fold (process_node w (ev_connector_id e)) ns st)" for ns
    by (rule fold_keeps) (use assms in auto)
  have edges: "Q st' \<Longrightarrow> Q (fold (process_edge w (ev_connector_id e)) es st')" for es st'
    by (rule fold_keeps) (use assms in auto)
  show ?thesis
    using assms(1,2) nodes edges by (simp add: process_event_def Let_def split: option.split)
qed

lemma process_batch_keeps:
  assumes "writer_keeps P w" "P (snd st)"
  shows "P (snd (fold (process_event w) batch st))"
  by (rule fold_keeps [where Q = "\<lambda>st. P (snd st)", OF _ assms(2)])
    (rule process_event_invariant [where Q = "\<lambda>st. P (snd st)"],
      use assms(1) in \<open>simp_all add: process_sweep_keeps process_node_keeps process_edge_keeps\<close>)

section \<open>Accounts of a batch\<close>

lemma process_node_run:
  obtains out s' where "deliver_node w c n s = (Inr out, s')" "process_node w c n (acc, s) = (count_outcome out acc, s')"
  | e s' where "deliver_node w c n s = (Inl e, s')"
      "process_node w c n (acc, s) = (failed_write c (''Error writing node '' @ n_id n @ '': '' @ e) acc, s')"
proof -
  obtain r s' where r: "deliver_node w c n s = (r, s')" by (cases "deliver_node w c n s")
  show ?thesis
  proof (cases r)
    case (Inl e)
    show ?thesis by (rule that(2) [OF r [unfolded Inl]]) (simp add: process_node_def r Inl)
  next
    case (Inr out)
    show ?thesis by (rule that(1) [OF r [unfolded Inr]]) (simp add: process_node_def r Inr)
  qed
qed

lemma process_edge_run:
  obtains s' where "process_edge w c x (acc, s) = (acc\<lparr>edgesWritten := edgesWritten acc + 1\<rparr>, s')"
  | e s' where "process_edge w c x (acc, s) = (failed_write c (edge_error x e) acc, s')"
proof -
  obtain r s' where r: "writeEdge (nodeWriter w) x s = (r, s')" by (cases "writeEdge (nodeWriter w) x s")
  show ?thesis
  proof (cases r)
    case (Inl e)
    show ?thesis by (rule that(2)) (simp add: process_edge_def r Inl)
  next
    case (Inr u)
    show ?thesis by (rule that(1)) (simp add: process_edge_def r Inr)
  qed
qed

text \<open>The counters of nodes, and everything a batch accounts for.\<close>

definition nodes_counted :: "('a) write_result_scheme \<Rightarrow> nat" where
  "nodes_counted r = nodesWritten r + duplicatesSkipped r + freshnessSkipped r + claimsConflictSkipped r"

definition accounted :: "('a) write_result_scheme \<Rightarrow> nat" where
  "accounted r = nodes_counted r + edgesWritten r + length (errors r)"

text \<open>Nodes, edges and sweeps that an event asks for.\<close>

definition event_nodes :: "event_envelope \<Rightarrow> canonical_node list" where
  "event_nodes e = (if ev_kind e = Some SyncCompleted then []
     else case ev_payload e of None \<Rightarrow> [] | Some p \<Rightarrow> (case payload_nodes p of None \<Rightarrow> [] | Some ns \<Rightarrow> ns))"

definition event_edges :: "event_envelope \<Rightarrow> canonical_edge list" where
  "event_edges e = (if ev_kind e = Some SyncCompleted then []
     else case ev_payload e of None \<Rightarrow> [] | Some p \<Rightarrow>
       (case payload_nodes p of None \<Rightarrow> [] | Some _ \<Rightarrow>
         (case payload_edges p of None \<Rightarrow> [] | Some es \<Rightarrow> es)))"

definition is_sweep :: "event_envelope \<Rightarrow> bool" where
  "is_sweep e = (ev_kind e = Some SyncCompleted)"

lemma process_event_entities:
  "\<not> is_sweep e \<Longrightarrow> process_event w e st =
    fold (process_edge w (ev_connector_id e)) (event_edges e)
      (fold (process_node w (ev_connector_id e)) (event_nodes e) st)"
  by (simp add: process_event_def event_nodes_def event_edges_def is_sweep_def Let_def split: option.split)

lemma process_event_sweep: "is_sweep e \<Longrightarrow> process_event w e st = process_sweep w e st"
  by (simp add: process_event_def is_sweep_def)

lemma no_entities_of_sweep: "is_sweep e \<Longrightarrow> event_nodes e = [] \<and> event_edges e = []"
  by (simp add: event_nodes_def event_edges_def is_sweep_def)

lemma count_outcome_accounts:
  "accounted (count_outcome out acc) = accounted acc + 1"
  "nodes_counted (count_outcome out acc) = nodes_counted acc + 1"
  "edgesWritten (count_outcome out acc) = edgesWritten acc"
  "errors (count_outcome out acc) = errors acc"
  "failedConnectors (count_outcome out acc) = failedConnectors acc"
  by (cases out; simp add: accounted_def nodes_counted_def)+

lemma failed_write_accounts:
  "accounted (failed_write c e acc) = accounted acc + 1"
  "nodes_counted (failed_write c e acc) = nodes_counted acc"
  "edgesWritten (failed_write c e acc) = edgesWritten acc"
  "errors (failed_write c e acc) = errors acc @ [e]"
  "failedConnectors (failed_write c e acc) = insert c (failedConnectors acc)"
  "claimsConflictSkipped (failed_write c e acc) = claimsConflictSkipped acc"
  by (simp_all add: accounted_def nodes_counted_def failed_write_def)

lemmas batch_accounts = count_outcome_accounts failed_write_accounts

lemma process_node_accounts:
  "accounted (fst (process_node w c n st)) = accounted (fst st) + 1"
  "nodes_counted (fst (process_node w c n st)) \<le> nodes_counted (fst st) + 1"
  "edgesWritten (fst (process_node w c n st)) = edgesWritten (fst st)"
  by (cases st; rule process_node_run [of w c n "snd st" "fst st"]; simp add: batch_accounts)+

lemma process_edge_accounts:
  "accounted (fst (process_edge w c x st)) = accounted (fst st) + 1"
  "nodes_counted (fst (process_edge w c x st)) = nodes_counted (fst st)"
  "edgesWritten (fst (process_edge w c x st)) \<le> edgesWritten (fst st) + 1"
  by (cases st; rule process_edge_run [of w c x "fst st" "snd st"];
      simp add: batch_accounts; simp add: accounted_def nodes_counted_def)+

lemma process_sweep_accounts:
  "accounted (fst st) \<le> accounted (fst (process_sweep w e st))"
  "accounted (fst (process_sweep w e st)) \<le> accounted (fst st) + 1"
  "nodes_counted (fst (process_sweep w e st)) = nodes_counted (fst st)"
  "edgesWritten (fst (process_sweep w e st)) = edgesWritten (fst st)"
  "failedConnectors (fst (process_sweep w e st)) = failedConnectors (fst st)"
proof -
  obtain acc s where st: "st = (acc, s)" by (cases st)
  have all: "accounted acc \<le> accounted (fst (process_sweep w e (acc, s))) \<and>
    accounted (fst (process_sweep w e (acc, s))) \<le> accounted acc + 1 \<and>
    nodes_counted (fst (process_sweep w e (acc, s))) = nodes_counted acc \<and>
    edgesWritten (fst (process_sweep w e (acc, s))) = edgesWritten acc \<and>
    failedConnectors (fst (process_sweep w e (acc, s))) = failedConnectors acc"
  proof (cases "may_sweep e acc")
    case True
    show ?thesis
      by (rule process_sweep_run [OF True, of w s]) (simp_all add: accounted_def nodes_counted_def)
  qed (simp add: process_sweep_skip)
  show "accounted (fst st) \<le> accounted (fst (process_sweep w e st))"
    "accounted (fst (process_sweep w e st)) \<le> accounted (fst st) + 1"
    "nodes_counted (fst (process_sweep w e st)) = nodes_counted (fst st)"
    "edgesWritten (fst (process_sweep w e st)) = edgesWritten (fst st)"
    "failedConnectors (fst (process_sweep w e st)) = failedConnectors (fst st)"
    using all by (simp_all add: st)
qed

lemma fold_nodes_accounts:
  "accounted (fst (fold (process_node w c) ns st)) = accounted (fst st) + length ns"
  "nodes_counted (fst (fold (process_node w c) ns st)) \<le> nodes_counted (fst st) + length ns"
  "edgesWritten (fst (fold (process_node w c) ns st)) = edgesWritten (fst st)"
proof (induction ns arbitrary: st)
  case (Cons n ns)
  { case 1 then show ?case using Cons(1) by (simp add: process_node_accounts) }
  { case 2 then show ?case using Cons(2) [of "process_node w c n st"] process_node_accounts(2) [of w c n st] by simp }
  { case 3 then show ?case using Cons(3) by (simp add: process_node_accounts) }
qed simp_all

lemma fold_edges_accounts:
  "accounted (fst (fold (process_edge w c) es st)) = accounted (fst st) + length es"
  "nodes_counted (fst (fold (process_edge w c) es st)) = nodes_counted (fst st)"
  "edgesWritten (fst (fold (process_edge w c) es st)) \<le> edgesWritten (fst st) + length es"
proof (induction es arbitrary: st)
  case (Cons x es)
  { case 1 then show ?case using Cons(1) by (simp add: process_edge_accounts) }
  { case 2 then show ?case using Cons(2) by (simp add: process_edge_accounts) }
  { case 3 then show ?case using Cons(3) [of "process_edge w c x st"] process_edge_accounts(3) [of w c x st] by simp }
qed simp_all

lemma process_event_accounts:
  "accounted (fst st) + length (event_nodes e) + length (event_edges e) \<le> accounted (fst (process_event w e st))"
  "accounted (fst (process_event w e st)) \<le>
     accounted (fst st) + length (event_nodes e) + length (event_edges e) + (if is_sweep e then 1 else 0)"
  "nodes_counted (fst (process_event w e st)) \<le> nodes_counted (fst st) + length (event_nodes e)"
  "edgesWritten (fst (process_event w e st)) \<le> edgesWritten (fst st) + length (event_edges e)"
proof -
  let ?n = "fold (process_node w (ev_connector_id e)) (event_nodes e) st"
  note n = fold_nodes_accounts [of w "ev_connector_id e" "event_nodes e" st]
  note x = fold_edges_accounts [of w "ev_connector_id e" "event_edges e" ?n]
  show "accounted (fst st) + length (event_nodes e) + length (event_edges e) \<le> accounted (fst (process_event w e st))"
    "accounted (fst (process_event w e st)) \<le>
     accounted (fst st) + length (event_nodes e) + length (event_edges e) + (if is_sweep e then 1 else 0)"
    "nodes_counted (fst (process_event w e st)) \<le> nodes_counted (fst st) + length (event_nodes e)"
    "edgesWritten (fst (process_event w e st)) \<le> edgesWritten (fst st) + length (event_edges e)"
    using n x process_sweep_accounts [where st = st and w = w and e = e] no_entities_of_sweep [of e]
    by (cases "is_sweep e"; simp add: process_event_entities process_event_sweep)+
qed

lemma fold_events_accounts:
  "accounted (fst st) + sum_list (map (\<lambda>e. length (event_nodes e) + length (event_edges e)) batch)
     \<le> accounted (fst (fold (process_event w) batch st)) \<and>
   accounted (fst (fold (process_event w) batch st)) \<le>
     accounted (fst st) + sum_list (map (\<lambda>e. length (event_nodes e) + length (event_edges e)) batch)
       + length (filter is_sweep batch) \<and>
   nodes_counted (fst (fold (process_event w) batch st))
     \<le> nodes_counted (fst st) + sum_list (map (\<lambda>e. length (event_nodes e)) batch) \<and>
   edgesWritten (fst (fold (process_event w) batch st))
     \<le> edgesWritten (fst st) + sum_list (map (\<lambda>e. length (event_edges e)) batch)"
proof (induction batch arbitrary: st)
  case (Cons e batch)
  show ?case
    using Cons.IH [of "process_event w e st"] process_event_accounts [where st = st and e = e and w = w] by auto
qed simp

lemma truncate_counters [simp]:
  "nodesWritten (write_result.truncate r) = nodesWritten r"
  "edgesWritten (write_result.truncate r) = edgesWritten r"
  "duplicatesSkipped (write_result.truncate r) = duplicatesSkipped r"
  "freshnessSkipped (write_result.truncate r) = freshnessSkipped r"
  "claimsConflictSkipped (write_result.truncate r) = claimsConflictSkipped r"
  "absentMarked (write_result.truncate r) = absentMarked r"
  "errors (write_result.truncate r) = errors r"
  by (simp_all add: write_result.truncate_def)

lemma processBatch_parts:
  "fst (processBatch w batch s) = write_result.truncate (fst (fold (process_event w) batch (start_batch, s)))"
  "snd (processBatch w batch s) = snd (fold (process_event w) batch (start_batch, s))"
  by (simp_all add: processBatch_def split: prod.split)

text \<open>
  Nothing of a batch is lost from the books: every delivered node and edge is counted
  exactly once, as written, as skipped for one of the three reasons, or as an error; beyond
  that only a failed sweep adds an error. Counters never exceed what was delivered. This holds
  whatever the stores do, failures at any call included.
\<close>

theorem batch_accounting:
  "let r = fst (processBatch w batch s);
       ns = sum_list (map (\<lambda>e. length (event_nodes e)) batch);
       es = sum_list (map (\<lambda>e. length (event_edges e)) batch)
   in ns + es \<le> accounted r \<and> accounted r \<le> ns + es + length (filter is_sweep batch) \<and>
      nodes_counted r \<le> ns \<and> edgesWritten r \<le> es"
  using fold_events_accounts [of "(start_batch, s)" batch w]
  by (simp add: Let_def processBatch_parts sum_list_addf accounted_def nodes_counted_def start_batch_def)

section \<open>Sweeps after failures\<close>

lemma process_node_failed:
  "failedConnectors (fst (process_node w c n st)) =
     (if errors (fst (process_node w c n st)) = errors (fst st) then failedConnectors (fst st)
      else insert c (failedConnectors (fst st)))"
  by (cases st; rule process_node_run [of w c n "snd st" "fst st"]; simp add: batch_accounts)

lemma process_edge_failed:
  "failedConnectors (fst (process_edge w c n st)) =
     (if errors (fst (process_edge w c n st)) = errors (fst st) then failedConnectors (fst st)
      else insert c (failedConnectors (fst st)))"
  by (cases st; rule process_edge_run [of w c n "fst st" "snd st"]; simp add: batch_accounts)

text \<open>Errors and failed connectors only grow; the books of one connector's entities.\<close>

definition books_grow :: "string \<Rightarrow> batch_state \<Rightarrow> batch_state \<Rightarrow> bool" where
  "books_grow c a b \<longleftrightarrow> length (errors a) \<le> length (errors b) \<and>
     (failedConnectors b = failedConnectors a \<and> errors b = errors a \<or>
      failedConnectors b = insert c (failedConnectors a) \<and> length (errors a) < length (errors b))"

lemma books_grow_refl: "books_grow c a a"
  by (simp add: books_grow_def)

lemma books_grow_trans: "books_grow c a b \<Longrightarrow> books_grow c b d \<Longrightarrow> books_grow c a d"
  by (auto simp: books_grow_def)

lemma process_node_books: "books_grow c (fst st) (fst (process_node w c n st))"
  by (cases st; rule process_node_run [of w c n "snd st" "fst st"]; simp add: batch_accounts books_grow_def)

lemma process_edge_books: "books_grow c (fst st) (fst (process_edge w c x st))"
  by (cases st; rule process_edge_run [of w c x "fst st" "snd st"]; simp add: batch_accounts books_grow_def)

lemma fold_books: "(\<And>x st. books_grow c (fst st) (fst (f x st))) \<Longrightarrow> books_grow c (fst st) (fst (fold f xs st))"
proof (induction xs arbitrary: st)
  case (Cons x xs)
  have "books_grow c (fst (f x st)) (fst (fold f xs (f x st)))" by (rule Cons.IH [OF Cons.prems])
  with Cons.prems [of st x] show ?case by (auto intro: books_grow_trans)
qed (simp add: books_grow_refl)

lemma process_event_books:
  "\<not> is_sweep e \<Longrightarrow> books_grow (ev_connector_id e) (fst st) (fst (process_event w e st))"
  unfolding process_event_entities
  by (rule books_grow_trans; rule fold_books; rule process_node_books process_edge_books)

lemma process_event_failed_grows:
  "failedConnectors (fst st) \<subseteq> failedConnectors (fst (process_event w e st))"
  using process_event_books [of e st w] process_sweep_accounts(5) [of w e st]
  by (cases "is_sweep e") (auto simp: books_grow_def process_event_sweep)

lemma fold_event_failed_grows:
  "failedConnectors (fst st) \<subseteq> failedConnectors (fst (fold (process_event w) batch st))"
proof (induction batch arbitrary: st)
  case (Cons e batch)
  then show ?case using process_event_failed_grows [of st w e] by fastforce
qed simp

text \<open>
  C29: A connector one of whose writes failed earlier in the batch is not swept: the full
  \<open>sync.completed\<close> envelope that follows changes neither the store nor the accounts. Without a
  failed write of that connector the sweep is performed.
\<close>

theorem sweep_not_after_failure:
  assumes "is_sweep e" "ev_control e = Some control" "mode control = Full"
    and "st1 = fold (process_event w) before st0" "st2 = fold (process_event w) later (process_event w failing st1)"
    and "\<not> is_sweep failing" "ev_connector_id failing = ev_connector_id e"
  shows "(errors (fst (process_event w failing st1)) \<noteq> errors (fst st1) \<longrightarrow> process_event w e st2 = st2) \<and>
    (ev_connector_id e \<notin> failedConnectors (fst st2) \<longrightarrow>
       snd (process_event w e st2) = snd (sweep (nodeWriter w) (ev_connector_id e) (startedAt control)
         (toISOString (clock w (snd st2))) (snd st2)))"
proof (intro conjI impI)
  assume "errors (fst (process_event w failing st1)) \<noteq> errors (fst st1)"
  then have "ev_connector_id e \<in> failedConnectors (fst (process_event w failing st1))"
    using process_event_books [OF assms(6), of st1 w] assms(7) by (auto simp: books_grow_def)
  then have "ev_connector_id e \<in> failedConnectors (fst st2)"
    using fold_event_failed_grows [of "process_event w failing st1" w later] by (auto simp: assms(5))
  then have "\<not> may_sweep e (fst st2)" by (simp add: may_sweep_def assms(2))
  then show "process_event w e st2 = st2"
    using process_sweep_skip [of e "fst st2" w "snd st2"] by (simp add: process_event_sweep [OF assms(1)])
next
  assume "ev_connector_id e \<notin> failedConnectors (fst st2)"
  then have run: "may_sweep e (fst st2)" using assms(2,3) by (simp add: may_sweep_def)
  obtain acc s where st2: "st2 = (acc, s)" by (cases st2)
  show "snd (process_event w e st2) = snd (sweep (nodeWriter w) (ev_connector_id e) (startedAt control)
      (toISOString (clock w (snd st2))) (snd st2))"
    unfolding process_event_sweep [OF assms(1)] st2
    by (rule process_sweep_run [of e acc w s]) (use run assms(2) in \<open>auto simp: st2\<close>)
qed

definition sample_edge :: canonical_edge where
  "sample_edge = \<lparr>e_type = ''OWNS'', e_from = ''a'', e_to = ''b'', e_properties = [],
     e_source = ''github'', e_confidence = 1, e_ingested_at = ''2026-10-03T00:00:00.000Z''\<rparr>"

definition sample_sweep :: event_envelope where
  "sample_sweep = \<lparr>ev_connector_id = ''gh'', ev_payload = None, ev_kind = Some SyncCompleted,
     ev_control = Some \<lparr>startedAt = ''2026-10-03T00:00:00.000Z'', mode = Full\<rparr>\<rparr>"

definition sample_event :: event_envelope where
  "sample_event = \<lparr>ev_connector_id = ''gh'',
     ev_payload = Some \<lparr>payload_nodes = Some [], payload_edges = Some [sample_edge]\<rparr>,
     ev_kind = None, ev_control = None\<rparr>"

definition edgeless_writer :: "graph core_writer" where
  "edgeless_writer = (neo4j_core_writer 30 0 (1/100) id (\<lambda>_. ''1''))
     \<lparr>nodeWriter := Neo4jNodeWriter\<lparr>writeEdge := \<lambda>_ g. (Inl ''timeout'', g)\<rparr>\<rparr>"

theorem sweep_not_after_failure_witness:
  "process_event edgeless_writer sample_sweep (process_event edgeless_writer sample_event (start_batch, sample_graph)) =
    process_event edgeless_writer sample_event (start_batch, sample_graph)"
proof -
  let ?st = "(start_batch, sample_graph)"
  have s: "is_sweep sample_sweep" "ev_control sample_sweep = Some \<lparr>startedAt = ''2026-10-03T00:00:00.000Z'', mode = Full\<rparr>"
    "mode \<lparr>startedAt = ''2026-10-03T00:00:00.000Z'', mode = Full\<rparr> = Full"
    "\<not> is_sweep sample_event" "ev_connector_id sample_event = ev_connector_id sample_sweep"
    by (simp_all add: is_sweep_def sample_sweep_def sample_event_def)
  have "errors (fst (process_event edgeless_writer sample_event ?st)) \<noteq> errors (fst ?st)"
    by (simp add: process_event_def sample_event_def process_edge_def edgeless_writer_def failed_write_def start_batch_def)
  with sweep_not_after_failure [OF s(1-3) _ _ s(4,5), of ?st edgeless_writer "[]" ?st
      "process_event edgeless_writer sample_event ?st" "[]"]
  show ?thesis by simp
qed

section \<open>Redelivery\<close>

text \<open>
  The contract of an idempotency checker: \<open>log s\<close> are the keys known in \<open>s\<close>; a recorded key
  is known, and only a recorded key becomes known.
\<close>

locale idempotency_contract =
  fixes chk :: "'s idempotency_checker" and known :: "'s \<Rightarrow> string set"
  assumes check: "isDuplicate chk k s = (Inr (k \<in> known s), s)"
    and recorded: "\<exists>s'. record_key chk k s = (Inr (), s') \<and> known s' = insert k (known s)"
begin

lemma check_keeps: "op_keeps P (isDuplicate chk k)"
  by (simp add: op_keeps_def check)

lemma record_keeps: "op_keeps (\<lambda>s. k' \<in> known s) (record_key chk k)"
  unfolding op_keeps_def using recorded by (metis insertCI snd_conv)

lemma record_known: "record_key chk k s = (r, s') \<Longrightarrow> k \<in> known s'"
  using recorded [of k s] by auto

end

interpretation memory_checker: idempotency_contract InMemoryIdempotencyChecker "\<lambda>seen. seen"
  by unfold_locales (auto simp: InMemoryIdempotencyChecker_def atomically_def)

definition logged_keys :: "graph \<Rightarrow> string set" where
  "logged_keys g = fst ` set (idempotency_log g)"

interpretation neo4j_checker: idempotency_contract "Neo4jIdempotencyChecker ttlDays now" logged_keys
  for ttlDays now
  by unfold_locales
    (auto simp: Neo4jIdempotencyChecker_def atomically_def logged_keys_def checkIdempotencyKey_def
      writeIdempotencyKey_def log_put_keys map_of_eq_None_iff)

text \<open>
  A writer whose other calls never forget a key: what it has delivered without error or
  conflict it recognises.
\<close>

definition delivered :: "event_envelope \<Rightarrow> (string \<times> canonical_node) list" where
  "delivered e = map (\<lambda>n. (ev_connector_id e, n)) (event_nodes e)"

definition trouble :: "('a) write_result_scheme \<Rightarrow> nat" where
  "trouble r = length (errors r) + claimsConflictSkipped r"

lemma trouble_process_node: "trouble (fst st) \<le> trouble (fst (process_node w c n st))"
proof -
  have t: "trouble acc \<le> trouble (count_outcome out acc)" for out acc
    by (cases out) (simp_all add: trouble_def)
  obtain acc s where st: "st = (acc, s)" by (cases st)
  show ?thesis unfolding st
    by (rule process_node_run [of w c n s acc]) (simp_all add: t, simp add: trouble_def failed_write_accounts)
qed

lemma trouble_process_edge: "trouble (fst st) \<le> trouble (fst (process_edge w c x st))"
  by (cases st; rule process_edge_run [of w c x "fst st" "snd st"]) (simp_all add: trouble_def failed_write_accounts)

lemma trouble_process_sweep: "trouble (fst st) \<le> trouble (fst (process_sweep w e st))"
proof -
  obtain acc s where st: "st = (acc, s)" by (cases st)
  show ?thesis
  proof (cases "may_sweep e acc")
    case True
    show ?thesis unfolding st by (rule process_sweep_run [OF True, of w s]) (simp_all add: trouble_def)
  qed (simp add: st process_sweep_skip)
qed

lemma trouble_process_event: "trouble (fst st) \<le> trouble (fst (process_event w e st))"
  by (rule process_event_invariant [where Q = "\<lambda>st'. trouble (fst st) \<le> trouble (fst st')"])
    (auto intro: order_trans trouble_process_node trouble_process_edge trouble_process_sweep)

lemma trouble_fold: "(\<And>x st. trouble (fst st) \<le> trouble (fst (f x st))) \<Longrightarrow> trouble (fst st) \<le> trouble (fst (fold f xs st))"
  by (rule fold_keeps [where Q = "\<lambda>st'. trouble (fst st) \<le> trouble (fst st')"]) (auto intro: order_trans)

locale deduplicating_writer = idempotency_contract "idempotency w" known
  for w :: "'s core_writer" and known :: "'s \<Rightarrow> string set" +
  assumes keeps: "writer_keeps (\<lambda>s. k \<in> known s) w"
begin

lemma deliver_known:
  "nodeKey w c n \<in> known s \<Longrightarrow> \<exists>s'. deliver_node w c n s = (Inr Duplicate, s')"
  by (simp add: deliver_node_def Let_def op_bind_def check touch_quietly_def op_ignore_def split: option.split)

lemma write_new_logs:
  assumes "write_new w c key n s = (Inr out, s')" "out \<noteq> ConflictSkipped"
  shows "key \<in> known s'"
proof -
  obtain r s1 where r: "op_bind (write_attempts CLAIMS_REV_MAX_RETRIES w n (node_to_write c r n) (False, False))
      (\<lambda>(written, conflict). if conflict then op_return ConflictSkipped
         else op_bind (record_key (idempotency w) key) (\<lambda>_. if written then op_return NodeWritten
           else op_bind (touch_quietly w (n_id (node_to_write c r n)) (n_last_synced n))
             (\<lambda>_. op_return FreshnessSkipped))) s1 = (Inr out, s')"
    using assms(1) by (auto simp: write_new_def Let_def elim: op_bind_InrE)
  obtain a s2 where a: "(case a of (wr, cf) \<Rightarrow> if cf then op_return ConflictSkipped
         else op_bind (record_key (idempotency w) key) (\<lambda>_. if wr then op_return NodeWritten
           else op_bind (touch_quietly w (n_id (node_to_write c r n)) (n_last_synced n))
             (\<lambda>_. op_return FreshnessSkipped))) s2 = (Inr out, s')"
    using r by (rule op_bind_InrE)
  then have "op_bind (record_key (idempotency w) key) (\<lambda>_. if fst a then op_return NodeWritten
       else op_bind (touch_quietly w (n_id (node_to_write c r n)) (n_last_synced n))
         (\<lambda>_. op_return FreshnessSkipped)) s2 = (Inr out, s')"
    using assms(2) by (cases a) (auto split: if_splits)
  then obtain u s3 where k: "record_key (idempotency w) key s2 = (Inr u, s3)"
    "(if fst a then op_return NodeWritten
       else op_bind (touch_quietly w (n_id (node_to_write c r n)) (n_last_synced n))
         (\<lambda>_. op_return FreshnessSkipped)) s3 = (Inr out, s')"
    by (rule op_bind_InrE)
  have "op_keeps (\<lambda>s. key \<in> known s) (if fst a then op_return NodeWritten
       else op_bind (touch_quietly w (n_id (node_to_write c r n)) (n_last_synced n))
         (\<lambda>_. op_return FreshnessSkipped))"
    by (auto intro!: op_keeps_bind touch_quietly_keeps [OF keeps])
  from op_keepsD [OF this k(2)] show ?thesis using record_known [OF k(1)] by simp
qed

lemma deliver_logs:
  assumes "deliver_node w c n s = (Inr out, s')" "out \<noteq> ConflictSkipped"
  shows "nodeKey w c n \<in> known s'"
proof (cases "nodeKey w c n \<in> known s")
  case True
  then show ?thesis using op_keepsD [OF deliver_node_keeps [OF keeps] assms(1)] by simp
next
  case False
  then have "write_new w c (nodeKey w c n) n s = (Inr out, s')"
    using assms(1) by (simp add: deliver_node_def Let_def op_bind_def check)
  then show ?thesis using write_new_logs assms(2) by simp
qed

lemma process_node_logs:
  assumes "trouble (fst (process_node w c n st)) = trouble (fst st)"
  shows "nodeKey w c n \<in> known (snd (process_node w c n st))"
proof -
  obtain acc s where st: "st = (acc, s)" by (cases st)
  show ?thesis
  proof (rule process_node_run [of w c n s acc])
    fix out s' assume d: "deliver_node w c n s = (Inr out, s')" "process_node w c n (acc, s) = (count_outcome out acc, s')"
    then have "out \<noteq> ConflictSkipped" using assms by (auto simp: st trouble_def)
    then show ?thesis using d deliver_logs by (simp add: st)
  next
    fix e s' assume "process_node w c n (acc, s) = (failed_write c (''Error writing node '' @ n_id n @ '': '' @ e) acc, s')"
    then show ?thesis using assms by (simp add: st trouble_def failed_write_accounts)
  qed
qed

lemma known_nodes: "k \<in> known (snd st) \<Longrightarrow> k \<in> known (snd (fold (process_node w c) ns st))"
  by (rule fold_keeps [where Q = "\<lambda>st. k \<in> known (snd st)"]) (rule process_node_keeps [OF keeps])

lemma known_edges: "k \<in> known (snd st) \<Longrightarrow> k \<in> known (snd (fold (process_edge w c) es st))"
  by (rule fold_keeps [where Q = "\<lambda>st. k \<in> known (snd st)"]) (rule process_edge_keeps [OF keeps])

lemma fold_nodes_logs:
  assumes "trouble (fst (fold (process_node w c) ns st)) = trouble (fst st)" "n \<in> set ns"
  shows "nodeKey w c n \<in> known (snd (fold (process_node w c) ns st))"
  using assms
proof (induction ns arbitrary: st)
  case (Cons m ns)
  let ?st = "process_node w c m st"
  have t: "trouble (fst st) \<le> trouble (fst ?st)" "trouble (fst ?st) \<le> trouble (fst (fold (process_node w c) ns ?st))"
    by (rule trouble_process_node, rule trouble_fold, rule trouble_process_node)
  then have eq: "trouble (fst ?st) = trouble (fst st)" "trouble (fst (fold (process_node w c) ns ?st)) = trouble (fst ?st)"
    using Cons.prems(1) by simp_all
  show ?case
  proof (cases "n = m")
    case True
    then show ?thesis using process_node_logs [OF eq(1)] known_nodes by simp
  next
    case False
    then show ?thesis using Cons.IH [OF eq(2)] Cons.prems(2) by simp
  qed
qed simp

lemma process_event_logs:
  assumes "trouble (fst (process_event w e st)) = trouble (fst st)" "(c, n) \<in> set (delivered e)"
  shows "nodeKey w c n \<in> known (snd (process_event w e st))"
proof -
  have ns: "\<not> is_sweep e" using assms(2) no_entities_of_sweep [of e] by (auto simp: delivered_def)
  let ?c = "ev_connector_id e" let ?n = "fold (process_node w ?c) (event_nodes e) st"
  have "trouble (fst st) \<le> trouble (fst ?n)"
    "trouble (fst ?n) \<le> trouble (fst (fold (process_edge w ?c) (event_edges e) ?n))"
    by (rule trouble_fold, rule trouble_process_node, rule trouble_fold, rule trouble_process_edge)
  then have "trouble (fst ?n) = trouble (fst st)" using assms(1) ns by (simp add: process_event_entities)
  then have "nodeKey w c n \<in> known (snd ?n)"
    using fold_nodes_logs [of ?c "event_nodes e" st n] assms(2) by (auto simp: delivered_def)
  then show ?thesis using known_edges ns by (simp add: process_event_entities)
qed

lemma batch_logs:
  assumes "trouble (fst (fold (process_event w) batch st)) = trouble (fst st)"
    and "(c, n) \<in> set (concat (map delivered batch))"
  shows "nodeKey w c n \<in> known (snd (fold (process_event w) batch st))"
  using assms
proof (induction batch arbitrary: st)
  case (Cons e batch)
  let ?st = "process_event w e st"
  have "trouble (fst st) \<le> trouble (fst ?st)" "trouble (fst ?st) \<le> trouble (fst (fold (process_event w) batch ?st))"
    by (rule trouble_process_event, rule trouble_fold, rule trouble_process_event)
  then have eq: "trouble (fst ?st) = trouble (fst st)" "trouble (fst (fold (process_event w) batch ?st)) = trouble (fst ?st)"
    using Cons.prems(1) by simp_all
  show ?case
  proof (cases "(c, n) \<in> set (delivered e)")
    case True
    then show ?thesis using process_event_logs [OF eq(1)] process_batch_keeps [OF keeps] by simp
  next
    case False
    then show ?thesis using Cons.IH [OF eq(2)] Cons.prems(2) by simp
  qed
qed simp

text \<open>The second pass: what is known is counted as a duplicate and only touched.\<close>

definition counts_duplicates :: "nat \<Rightarrow> batch_state \<Rightarrow> batch_state \<Rightarrow> bool" where
  "counts_duplicates k a b \<longleftrightarrow> duplicatesSkipped b = duplicatesSkipped a + k \<and> nodesWritten b = nodesWritten a \<and>
     freshnessSkipped b = freshnessSkipped a \<and> claimsConflictSkipped b = claimsConflictSkipped a"

lemma process_node_known:
  assumes "nodeKey w c n \<in> known (snd st)"
  shows "counts_duplicates 1 (fst st) (fst (process_node w c n st))"
  using deliver_known [OF assms] by (cases st) (auto simp: process_node_def counts_duplicates_def)

lemma fold_nodes_known:
  assumes "\<forall>n \<in> set ns. nodeKey w c n \<in> known (snd st)"
  shows "counts_duplicates (length ns) (fst st) (fst (fold (process_node w c) ns st))"
  using assms
proof (induction ns arbitrary: st)
  case (Cons n ns)
  have "\<forall>m \<in> set ns. nodeKey w c m \<in> known (snd (process_node w c n st))"
    using Cons.prems process_node_keeps [OF keeps] by simp
  from Cons.IH [OF this] process_node_known [of c n st] Cons.prems show ?case
    by (simp add: counts_duplicates_def)
qed (simp add: counts_duplicates_def)

lemma edges_count: "counts_duplicates 0 (fst st) (fst (fold (process_edge w c) es st))"
proof (rule fold_keeps [where Q = "\<lambda>st'. counts_duplicates 0 (fst st) (fst st')"])
  fix x and st' :: "batch_state \<times> 's"
  assume c: "counts_duplicates 0 (fst st) (fst st')"
  obtain acc s where st': "st' = (acc, s)" by (cases st')
  show "counts_duplicates 0 (fst st) (fst (process_edge w c x st'))"
    unfolding st' by (rule process_edge_run [of w c x acc s])
      (use c in \<open>simp_all add: st' counts_duplicates_def failed_write_def\<close>)
qed (simp add: counts_duplicates_def)

lemma sweep_counts: "counts_duplicates 0 (fst st) (fst (process_sweep w e st))"
proof -
  obtain acc s where st: "st = (acc, s)" by (cases st)
  show ?thesis
  proof (cases "may_sweep e acc")
    case True
    show ?thesis unfolding st by (rule process_sweep_run [OF True, of w s]) (simp_all add: counts_duplicates_def)
  qed (simp add: st process_sweep_skip counts_duplicates_def)
qed

lemma process_event_known:
  assumes "\<forall>(c, n) \<in> set (delivered e). nodeKey w c n \<in> known (snd st)"
  shows "counts_duplicates (length (event_nodes e)) (fst st) (fst (process_event w e st))"
proof (cases "is_sweep e")
  case True
  then show ?thesis using sweep_counts by (simp add: process_event_sweep no_entities_of_sweep)
next
  case False
  let ?c = "ev_connector_id e" let ?n = "fold (process_node w ?c) (event_nodes e) st"
  have "counts_duplicates (length (event_nodes e)) (fst st) (fst ?n)"
    using assms by (intro fold_nodes_known) (auto simp: delivered_def)
  with edges_count [of ?n ?c "event_edges e"] False show ?thesis
    by (simp add: process_event_entities counts_duplicates_def)
qed

lemma batch_known:
  assumes "\<forall>(c, n) \<in> set (concat (map delivered batch)). nodeKey w c n \<in> known (snd st)"
  shows "counts_duplicates (sum_list (map (\<lambda>e. length (event_nodes e)) batch)) (fst st)
    (fst (fold (process_event w) batch st))"
  using assms
proof (induction batch arbitrary: st)
  case (Cons e batch)
  have "\<forall>(c, n) \<in> set (concat (map delivered batch)). nodeKey w c n \<in> known (snd (process_event w e st))"
    using Cons.prems process_batch_keeps [OF keeps, of _ st "[e]"] by auto
  from Cons.IH [OF this] process_event_known [of e st] Cons.prems show ?case
    by (simp add: counts_duplicates_def)
qed (simp add: counts_duplicates_def)

end

lemma atomically_keeps: "(\<And>s. P s \<Longrightarrow> P (fst (f s))) \<Longrightarrow> op_keeps P (atomically f)"
  by (simp add: op_keeps_def atomically_def case_prod_beta)

lemma logged_keys_kept:
  "logged_keys (fst (mergeNode g n cs ps r)) = logged_keys g" "logged_keys (mergeEdge g e) = logged_keys g"
  "logged_keys (touchLastSynced g i t) = logged_keys g" "logged_keys (fst (markAbsent g c t u)) = logged_keys g"
  "logged_keys (snd (reconcile (Neo4jLinkingKeyIndex t) g n)) = logged_keys g"
  by (auto simp: logged_keys_def mergeNode_def mergeEdge_def touchLastSynced_def markAbsent_def reconcile_def
      Neo4jLinkingKeyIndex_def neo4j_register_def registerLinkingKey_def Let_def split: option.split)

interpretation neo4j_writer: deduplicating_writer "neo4j_core_writer ttlDays now rate digest num" logged_keys
  for ttlDays now rate digest num
proof
  fix k s
  let ?w = "neo4j_core_writer ttlDays now rate digest num"
  show "isDuplicate (idempotency ?w) k s = (Inr (k \<in> logged_keys s), s)"
    using neo4j_checker.check by (simp add: neo4j_core_writer_def)
  show "\<exists>s'. record_key (idempotency ?w) k s = (Inr (), s') \<and> logged_keys s' = insert k (logged_keys s)"
    using neo4j_checker.recorded by (simp add: neo4j_core_writer_def)
  show "writer_keeps (\<lambda>s. k \<in> logged_keys s) ?w"
    unfolding writer_keeps_def
    by (simp add: neo4j_core_writer_def Neo4jNodeWriter_def atomically_keeps logged_keys_kept
        neo4j_checker.check_keeps neo4j_checker.record_keeps)
qed

text \<open>
  C30: Redelivery. When a batch went through without an error and without an exhausted claims
  conflict, delivering it again writes no node: every node of it is counted as a duplicate.
\<close>

theorem redelivery_all_duplicates:
  assumes "processBatch (neo4j_core_writer ttlDays now rate digest num) batch g = (r, g')"
    and "errors r = []" "claimsConflictSkipped r = 0"
  shows "let again = fst (processBatch (neo4j_core_writer ttlDays later rate digest num) batch g') in
    nodesWritten again = 0 \<and> freshnessSkipped again = 0 \<and> claimsConflictSkipped again = 0 \<and>
    duplicatesSkipped again = sum_list (map (\<lambda>e. length (event_nodes e)) batch)"
proof -
  let ?w = "neo4j_core_writer ttlDays now rate digest num"
  let ?w' = "neo4j_core_writer ttlDays later rate digest num"
  let ?f = "fold (process_event ?w) batch (start_batch, g)"
  have "trouble (fst ?f) = trouble (fst (start_batch, g))"
    using assms processBatch_parts(1) [of ?w batch g] by (simp add: trouble_def start_batch_def)
  from neo4j_writer.batch_logs [OF this]
  have "\<forall>(c, n) \<in> set (concat (map delivered batch)). nodeKey ?w' c n \<in> logged_keys (snd (start_batch, g'))"
    using assms(1) processBatch_parts(2) [of ?w batch g] by (auto simp: neo4j_core_writer_def)
  from neo4j_writer.batch_known [OF this] show ?thesis
    by (simp add: Let_def processBatch_parts neo4j_writer.counts_duplicates_def start_batch_def)
qed

definition sample_delivery :: event_envelope where
  "sample_delivery = \<lparr>ev_connector_id = ''gh'', ev_payload = Some \<lparr>payload_nodes = Some
       [sample_node ''shipit://repository/default/a'' ''github://acme/a''], payload_edges = None\<rparr>,
     ev_kind = None, ev_control = None\<rparr>"

theorem redelivery_all_duplicates_witness:
  "duplicatesSkipped (fst (processBatch (neo4j_core_writer 30 0 0 (\<lambda>_. ''d'') (\<lambda>_. ''1'')) [sample_delivery]
     (snd (processBatch (neo4j_core_writer 30 0 0 (\<lambda>_. ''d'') (\<lambda>_. ''1'')) [sample_delivery] empty_graph)))) = 1"
proof -
  let ?w = "neo4j_core_writer 30 0 0 (\<lambda>_. ''d'') (\<lambda>_. ''1'')"
  obtain r g' where p: "processBatch ?w [sample_delivery] empty_graph = (r, g')" by fastforce
  have "errors (fst (processBatch ?w [sample_delivery] empty_graph)) = []"
    "claimsConflictSkipped (fst (processBatch ?w [sample_delivery] empty_graph)) = 0" by code_simp+
  then have "errors r = []" "claimsConflictSkipped r = 0" by (simp_all add: p)
  moreover have "length (event_nodes sample_delivery) = 1" by (simp add: event_nodes_def sample_delivery_def)
  ultimately show ?thesis using redelivery_all_duplicates [OF p, of 0] by (simp add: p Let_def)
qed

section \<open>The buffer\<close>

text \<open>
  A run of the buffer: events arrive, the timer flushes at any time. the log records what
  was handed to \<open>onFlush\<close>, which may fail.
\<close>

datatype 'e buffer_step = Arrive 'e | Tick

definition run_step ::
    "('e list \<Rightarrow> ('s, unit) op) \<Rightarrow> 'e buffer_step \<Rightarrow> 'e batch_processor \<times> 's \<Rightarrow> 'e batch_processor \<times> 's" where
  "run_step onFlush x st = (case x of Arrive e \<Rightarrow> snd (add onFlush e st) | Tick \<Rightarrow> snd (flush onFlush st))"

fun arrivals :: "'e buffer_step list \<Rightarrow> 'e list" where
  "arrivals [] = []"
| "arrivals (Arrive e # xs) = e # arrivals xs"
| "arrivals (Tick # xs) = arrivals xs"

text \<open>An \<open>onFlush\<close> that logs the batches it is given and fails when \<open>bad\<close> says so.\<close>

definition logging :: "('e list \<Rightarrow> bool) \<Rightarrow> 'e list \<Rightarrow> ('e list list, unit) op" where
  "logging bad batch batches = ((if bad batch then Inl ''failed'' else Inr ()), batches @ [batch])"

definition buffer_inv :: "nat \<Rightarrow> 'e list \<Rightarrow> 'e batch_processor \<times> 'e list list \<Rightarrow> bool" where
  "buffer_inv k seen st \<longleftrightarrow> batchSize (fst st) = k \<and> length (buffer (fst st)) < k \<and>
     concat (snd st) @ buffer (fst st) = seen \<and> (\<forall>b \<in> set (snd st). b \<noteq> [] \<and> length b \<le> k)"

lemma buffer_inv_flush:
  "buffer_inv k seen st \<Longrightarrow> buffer_inv k seen (snd (flush (logging bad) st))"
  by (cases st) (auto simp: buffer_inv_def flush_def logging_def Let_def)

lemma buffer_inv_add:
  "buffer_inv k seen st \<Longrightarrow> buffer_inv k (seen @ [e]) (snd (add (logging bad) e st))"
  by (cases st) (auto simp: buffer_inv_def add_def flush_def logging_def Let_def)

lemma buffer_inv_run:
  "buffer_inv k seen st \<Longrightarrow> buffer_inv k (seen @ arrivals xs) (fold (run_step (logging bad)) xs st)"
proof (induction xs arbitrary: seen st rule: arrivals.induct)
  case (2 e xs)
  from "2.IH" [OF buffer_inv_add [OF "2.prems"], of e bad] show ?case by (simp add: run_step_def)
next
  case (3 xs)
  from "3.IH" [OF buffer_inv_flush [OF "3.prems"], of bad] show ?case by (simp add: run_step_def)
qed simp

text \<open>
  The buffer hands over every event exactly once and in order, in batches of at most
  \<open>batchSize\<close> events, whenever the timer fires and whether or not a flush fails; fewer than
  \<open>batchSize\<close> events wait at any time, so the flush of \<open>stop()\<close> empties it.
\<close>

theorem buffer_exactly_once:
  assumes "0 < k" "fold (run_step (logging bad)) xs (\<lparr>buffer = [], batchSize = k\<rparr>, []) = st"
  shows "pendingCount (fst st) < k \<and> concat (snd st) @ buffer (fst st) = arrivals xs \<and>
    (\<forall>b \<in> set (snd st). b \<noteq> [] \<and> length b \<le> k) \<and>
    (let stopped = snd (flush (logging bad) st) in
       pendingCount (fst stopped) = 0 \<and> concat (snd stopped) = arrivals xs)"
proof -
  have "buffer_inv k [] (\<lparr>buffer = [], batchSize = k\<rparr>, [])" using assms(1) by (simp add: buffer_inv_def)
  from buffer_inv_run [OF this, of xs bad] have inv: "buffer_inv k (arrivals xs) st" by (simp add: assms(2))
  moreover have "buffer (fst (snd (flush (logging bad) st))) = []"
    using inv by (cases st) (auto simp: buffer_inv_def flush_def logging_def Let_def)
  ultimately show ?thesis
    using buffer_inv_flush [OF inv, of bad] by (auto simp: buffer_inv_def pendingCount_def Let_def)
qed

theorem buffer_exactly_once_witness:
  "concat (snd (snd (flush (logging (\<lambda>_. True))
     (fold (run_step (logging (\<lambda>_. True))) [Arrive 1, Arrive 2, Arrive 3, Tick, Arrive 4]
       (\<lparr>buffer = [], batchSize = 2\<rparr>, []))))) = [1, 2, 3, 4 :: nat]"
  using buffer_exactly_once [of 2 "\<lambda>_. True" "[Arrive (1 :: nat), Arrive 2, Arrive 3, Tick, Arrive 4]" _, OF _ refl]
  by (simp add: Let_def)

end
