(* ===== verification/Schema.thy ===== *)
theory Schema
  imports Source_Reliability
begin

text \<open>
  The graph schema (\<open>packages/shared/src/types/schema.ts\<close>) and its referential check
  (\<open>validateSchemaRelationships\<close> of \<open>packages/shared/src/schema/validator.ts\<close>). The record
  types of the schema are association lists in the order of the file, keys distinct. The shape
  check itself is the third-party validator's and is not modelled.
\<close>

datatype schema_mode = FullMode | SimpleMode
datatype cardinality = One_One | One_Many | Many_One | Many_Many

record property_def =
  pd_type :: string
  pd_required :: bool
  pd_strategy :: "strategy option"
  pd_enum :: "string list option"
  pd_description :: "string option"

record node_type_def =
  nt_description :: string
  nt_properties :: "(string \<times> property_def) list"
  nt_unique_key :: "string option"

record rel_type_def =
  rt_from :: string
  rt_to :: string
  rt_cardinality :: cardinality
  rt_properties :: "(string \<times> property_def) list option"
  rt_description :: "string option"
  rt_ownership :: bool

record schema =
  schema_version :: string
  schema_mode :: schema_mode
  node_types :: "(string \<times> node_type_def) list"
  relationship_types :: "(string \<times> rel_type_def) list"
  resolution_defaults :: "(string \<times> strategy) list option"

definition endpoint_error :: "string \<Rightarrow> string \<Rightarrow> string \<Rightarrow> string" where
  "endpoint_error relType side label =
     ''Relationship '' @ relType @ '': '' @ [CHR 0x27] @ side @ [CHR 0x27] @ '' label '' @
     [CHR 0x27] @ label @ [CHR 0x27] @ '' not found in node_types''"

fun relationship_errors :: "string set \<Rightarrow> (string \<times> rel_type_def) list \<Rightarrow> string list" where
  "relationship_errors nodeLabels [] = []"
| "relationship_errors nodeLabels ((relType, relDef) # rest) =
     (if rt_from relDef \<notin> nodeLabels then [endpoint_error relType ''from'' (rt_from relDef)] else []) @
     (if rt_to relDef \<notin> nodeLabels then [endpoint_error relType ''to'' (rt_to relDef)] else []) @
     relationship_errors nodeLabels rest"

definition validateSchemaRelationships :: "schema \<Rightarrow> string list" where
  "validateSchemaRelationships s =
     relationship_errors (set (map fst (node_types s))) (relationship_types s)"

lemma relationship_errors_count:
  "length (relationship_errors L rs) =
    sum_list (map (\<lambda>(_, d). of_bool (rt_from d \<notin> L) + of_bool (rt_to d \<notin> L)) rs)"
  by (induction L rs rule: relationship_errors.induct) auto

text \<open>
  The schema check is exact: it reports one error for every endpoint of a relationship that
  names no node type, so it accepts exactly the schemas whose relationships join declared types.
\<close>

theorem schema_check_exact:
  "(validateSchemaRelationships s = [] \<longleftrightarrow>
     (\<forall>(r, d) \<in> set (relationship_types s). rt_from d \<in> fst ` set (node_types s) \<and> rt_to d \<in> fst ` set (node_types s))) \<and>
   length (validateSchemaRelationships s) =
     sum_list (map (\<lambda>(_, d). of_bool (rt_from d \<notin> fst ` set (node_types s)) + of_bool (rt_to d \<notin> fst ` set (node_types s)))
       (relationship_types s))"
proof -
  have "relationship_errors L rs = [] \<longleftrightarrow> (\<forall>(r, d) \<in> set rs. rt_from d \<in> L \<and> rt_to d \<in> L)" for L rs
    by (induction L rs rule: relationship_errors.induct) auto
  then show ?thesis by (simp add: validateSchemaRelationships_def relationship_errors_count)
qed

definition sample_schema :: "string \<Rightarrow> schema" where
  "sample_schema target = \<lparr>schema_version = ''1'', schema_mode = FullMode,
     node_types = [(''Team'', \<lparr>nt_description = [], nt_properties = [], nt_unique_key = None\<rparr>)],
     relationship_types = [(''OWNS'', \<lparr>rt_from = ''Team'', rt_to = target, rt_cardinality = One_Many,
       rt_properties = None, rt_description = None, rt_ownership = True\<rparr>)],
     resolution_defaults = None\<rparr>"

theorem schema_check_exact_witness:
  "validateSchemaRelationships (sample_schema ''Team'') = [] \<and>
    length (validateSchemaRelationships (sample_schema ''Repo'')) = 1"
  using schema_check_exact [of "sample_schema ''Team''"] schema_check_exact [of "sample_schema ''Repo''"]
  by (simp add: sample_schema_def)

end
