(* ===== verification/Claim_Service.thy ===== *)
theory Claim_Service
  imports Claims Graph Schema
begin

text \<open>
  The read path of claims (\<open>packages/api-server/src/services/claim-service.ts\<close>): which claim
  wins a property on a page, its score, its conflicts and its need of review. The clock is an
  argument. \<open>localeCompare\<close> of two ISO stamps is their lexical order; of property keys it is a
  parameter \<open>collate\<close>.
\<close>

section \<open>Picking a winner\<close>

definition locale_compare_stamps :: "string \<Rightarrow> string \<Rightarrow> rat" where
  "locale_compare_stamps a b = text_compare a b"

definition read_compare :: "int \<Rightarrow> claim \<Rightarrow> claim \<Rightarrow> rat" where
  "read_compare now a b =
     (let ea = computeEffectiveConfidence (c_confidence a) (ingested_at a) now DEFAULT_DECAY_RATE;
          eb = computeEffectiveConfidence (c_confidence b) (ingested_at b) now DEFAULT_DECAY_RATE in
      case (ea, eb) of
        (Some x, Some y) \<Rightarrow> (if y \<noteq> x then y - x else locale_compare_stamps (ingested_at b) (ingested_at a))
      | _ \<Rightarrow> 0)"

text \<open>Members of a \<open>Set\<close>: objects and arrays are compared by identity, so each is new.\<close>

definition is_reference :: "jsval \<Rightarrow> bool" where
  "is_reference v = (case v of JArr _ \<Rightarrow> True | JObj _ \<Rightarrow> True | _ \<Rightarrow> False)"

definition js_set_add :: "jsval list \<Rightarrow> jsval \<Rightarrow> jsval list" where
  "js_set_add s v = (if \<not> is_reference v \<and> v \<in> set s then s else s @ [v])"

definition raw_values :: "jsval \<Rightarrow> jsval list" where
  "raw_values v = (case v of JArr vs \<Rightarrow> vs | _ \<Rightarrow> [v])"

definition pick_highest :: "claim list \<Rightarrow> int \<Rightarrow> claim option \<times> jsval" where
  "pick_highest claims now =
     (let w = hd (js_sort (read_compare now) claims) in (Some w, c_value w))"

definition pickByStrategy :: "claim list \<Rightarrow> strategy \<Rightarrow> int \<Rightarrow> claim option \<times> jsval" where
  "pickByStrategy claims strategy now =
     (if claims = [] then (None, JNull)
      else case strategy of
        MANUAL_OVERRIDE_FIRST \<Rightarrow>
          (case pickManualOverride claims of
             Some override \<Rightarrow> (Some override, c_value override)
           | None \<Rightarrow> pick_highest claims now)
      | HIGHEST_CONFIDENCE \<Rightarrow> pick_highest claims now
      | LATEST_TIMESTAMP \<Rightarrow>
          (let w = hd (js_sort (\<lambda>a b. locale_compare_stamps (ingested_at b) (ingested_at a)) claims)
           in (Some w, c_value w))
      | AUTHORITATIVE_ORDER \<Rightarrow>
          (let w = hd (js_sort (\<lambda>a b. of_nat (sourceRank (c_source a)) - of_nat (sourceRank (c_source b))) claims)
           in (Some w, c_value w))
      | MERGE_SET \<Rightarrow>
          (let merged = fold (\<lambda>c s. fold (\<lambda>v s. js_set_add s v) (raw_values (c_value c)) s) claims [];
               w = hd (js_sort (\<lambda>a b. c_confidence b - c_confidence a) claims)
           in (Some w, JArr merged)))"

section \<open>Review, conflicts, strategy\<close>

definition effective_verified_value :: "claim \<Rightarrow> jsval" where
  "effective_verified_value c = coalesce (verified_value c) (c_value c)"

definition effective_verified_at :: "claim \<Rightarrow> string" where
  "effective_verified_at c = (case verified_at c of Some t \<Rightarrow> t | None \<Rightarrow> ingested_at c)"

definition computeNeedsReview :: "claim list \<Rightarrow> bool" where
  "computeNeedsReview cs =
     (case find_first (\<lambda>c. sourceKey (c_source c) = ''verified'') cs of
        None \<Rightarrow> False
      | Some verified \<Rightarrow>
          (\<exists>c \<in> set cs. sourceKey (c_source c) \<noteq> ''verified'' \<and>
             stringify (c_value c) \<noteq> stringify (effective_verified_value verified) \<and>
             str_less (effective_verified_at verified) (ingested_at c)))"

definition has_conflict :: "claim list \<Rightarrow> bool" where
  "has_conflict claims =
     (case claims of [] \<Rightarrow> False | [c] \<Rightarrow> False
      | c # cs \<Rightarrow> (\<exists>d \<in> set cs. stringify (c_value d) \<noteq> stringify (c_value c)))"

definition strategyFor :: "schema option \<Rightarrow> string \<Rightarrow> string \<Rightarrow> strategy" where
  "strategyFor sch lbl key =
     (let typeDef = Option.bind sch (\<lambda>s. map_of (node_types s) lbl);
          propDef = Option.bind typeDef (\<lambda>t. map_of (nt_properties t) key) in
      case Option.bind propDef pd_strategy of
        Some st \<Rightarrow> st
      | None \<Rightarrow> (case Option.bind (Option.bind sch resolution_defaults) (\<lambda>d. map_of d key) of
          Some st \<Rightarrow> st | None \<Rightarrow> HIGHEST_CONFIDENCE))"

section \<open>One property and a whole entity\<close>

record resolved_property =
  rp_property_key :: string
  rp_effective_value :: jsval
  rp_winning_claim :: "claim option"
  rp_strategy :: strategy
  rp_has_conflict :: bool
  rp_claims :: "claim list"
  rp_confidence :: "rat option"
  rp_breakdown :: breakdown
  rp_status :: verification_status
  rp_needs_review :: bool

definition empty_breakdown :: breakdown where
  "empty_breakdown = \<lparr>b_base = 0, base_source = ''none'', b_decay = Some 0, corroboration = 0,
     corroboration_sources = [], conflict = 0, conflict_sources = [], ambiguity = 0,
     ambiguity_reason = None, b_verified = False, b_verified_by = None, effective = Some 0, terms = []\<rparr>"

definition is_stale :: "breakdown \<Rightarrow> claim \<Rightarrow> int \<Rightarrow> bool" where
  "is_stale b winner now = (\<not> b_verified b \<and>
     (case weeksSince (ingested_at winner) now of Some w \<Rightarrow> w > staleWeeks DEFAULT_CONFIDENCE_TUNING | None \<Rightarrow> False))"

definition default_options :: "int \<Rightarrow> field_confidence_options" where
  "default_options now = \<lparr>o_now = now, o_tuning = Some DEFAULT_CONFIDENCE_TUNING,
     o_ambiguityCount = None, o_ambiguityReason = None\<rparr>"

definition resolved_row :: "claim list \<Rightarrow> string \<Rightarrow> strategy \<Rightarrow> claim \<Rightarrow> jsval \<Rightarrow> int \<Rightarrow> resolved_property" where
  "resolved_row cs propertyKey st winner eff now =
     (let b = computeFieldConfidence cs winner (default_options now);
          review = computeNeedsReview cs;
          status = deriveVerificationStatus \<lparr>vs_breakdown = b, hasConflict = has_conflict cs,
            isStale = is_stale b winner now, needsReview = review\<rparr>
      in \<lparr>rp_property_key = propertyKey, rp_effective_value = eff, rp_winning_claim = Some winner,
          rp_strategy = st, rp_has_conflict = has_conflict cs, rp_claims = cs,
          rp_confidence = effective b, rp_breakdown = b, rp_status = status, rp_needs_review = review\<rparr>)"

definition service_resolveProperty ::
    "schema option \<Rightarrow> claim list \<Rightarrow> string \<Rightarrow> string \<Rightarrow> int \<Rightarrow> resolved_property" where
  "service_resolveProperty sch cs lbl propertyKey now =
     (let st = strategyFor sch lbl propertyKey in
      case pickByStrategy cs st now of
        (None, eff) \<Rightarrow> \<lparr>rp_property_key = propertyKey, rp_effective_value = eff, rp_winning_claim = None,
          rp_strategy = st, rp_has_conflict = has_conflict cs, rp_claims = cs, rp_confidence = Some 0,
          rp_breakdown = empty_breakdown, rp_status = UNVERIFIED, rp_needs_review = False\<rparr>
      | (Some winner, eff) \<Rightarrow> resolved_row cs propertyKey st winner eff now)"

record entity_claims =
  ec_entityId :: string
  ec_label :: string
  ec_name :: string
  ec_properties :: "resolved_property list"

definition prop_of :: "gnode \<Rightarrow> string \<Rightarrow> jsval" where
  "prop_of n k = (case g_props n k of Some v \<Rightarrow> v | None \<Rightarrow> JNull)"

definition stored_claims :: "gnode \<Rightarrow> claim list" where
  "stored_claims n = (case g_claims n of Some (Encoded cs) \<Rightarrow> cs | _ \<Rightarrow> [])"

text \<open>\<open>RETURN DISTINCT coalesce(o.name, o.login, o.id)\<close> over the incoming owner edges.\<close>

definition codeowners :: "graph \<Rightarrow> string \<Rightarrow> jsval list" where
  "codeowners g i = fold (\<lambda>e s.
       if ge_type e = ''CODEOWNER_OF'' \<and> has_id i (nodes g ! ge_to e)
       then let o1 = nodes g ! ge_from e in
         set_add s (coalesce (prop_of o1 ''name'') (coalesce (prop_of o1 ''login'') (prop_of o1 ''id'')))
       else s) (edges g) []"

definition owner_row :: "string \<Rightarrow> jsval list \<Rightarrow> int \<Rightarrow> resolved_property" where
  "owner_row entityId ownerRecords now =
     (let owners = map js_String ownerRecords; ownerCount = length owners;
          ownerWinner = \<lparr>property_key = ''ownership_clarity'',
            c_value = (if ownerCount = 1 then JStr (hd owners) else JArr (map JStr owners)),
            c_source = ''github'', c_source_id = entityId @ ''#codeowners'', ingested_at = toISOString now,
            c_confidence = 95/100, evidence = None, verified_by = None, verified_at = None,
            verified_value = JUndefined\<rparr>;
          b = computeFieldConfidence [ownerWinner] ownerWinner \<lparr>o_now = now,
            o_tuning = Some DEFAULT_CONFIDENCE_TUNING, o_ambiguityCount = Some ownerCount,
            o_ambiguityReason = Some (show_nat ownerCount @ '' codeowner'' @ (if ownerCount = 1 then [] else ''s''))\<rparr>
      in \<lparr>rp_property_key = ''ownership_clarity'', rp_effective_value = c_value ownerWinner,
          rp_winning_claim = Some ownerWinner, rp_strategy = MERGE_SET, rp_has_conflict = (ownerCount > 1),
          rp_claims = [ownerWinner], rp_confidence = effective b, rp_breakdown = b,
          rp_status = deriveVerificationStatus \<lparr>vs_breakdown = b, hasConflict = (ownerCount > 1),
            isStale = False, needsReview = False\<rparr>,
          rp_needs_review = False\<rparr>)"

definition property_order ::
    "(string \<Rightarrow> string \<Rightarrow> rat) \<Rightarrow> resolved_property \<Rightarrow> resolved_property \<Rightarrow> rat" where
  "property_order collate a b =
     (let d = of_bool (rp_has_conflict b) - of_bool (rp_has_conflict a) in
      if d \<noteq> 0 then d else collate (rp_property_key a) (rp_property_key b))"

definition claim_groups :: "claim list \<Rightarrow> (string \<times> claim list) list" where
  "claim_groups cs = fold (\<lambda>c m. group_add m c) cs []"

definition getClaimsForEntity ::
    "(string \<Rightarrow> string \<Rightarrow> rat) \<Rightarrow> schema option \<Rightarrow> graph \<Rightarrow> string \<Rightarrow> int \<Rightarrow> entity_claims option" where
  "getClaimsForEntity collate sch g entityId now =
     (case find_first (has_id entityId) (nodes g) of
        None \<Rightarrow> None
      | Some n \<Rightarrow>
          let rows = map (\<lambda>(k, cs). service_resolveProperty sch cs (g_label n) k now) (claim_groups (stored_claims n));
              ownerRecords = codeowners g entityId;
              rows' = (if length ownerRecords > 0 then rows @ [owner_row entityId ownerRecords now] else rows)
          in Some \<lparr>ec_entityId = entityId, ec_label = g_label n,
               ec_name = js_String (coalesce (prop_of n ''name'') (JStr (last (split_on CHR ''/'' entityId)))),
               ec_properties = js_sort (property_order collate) rows'\<rparr>)"

record conflict_row =
  cr_entityId :: string
  cr_label :: string
  cr_name :: string
  cr_propertyKey :: string
  cr_sources :: "string list"
  cr_values :: "string option list"
  cr_claimCount :: nat

text \<open>
  The conflicts of one scanned node. The values are kept as their JSON texts; the scan's
  tier filter, its limits and the order of the page are not modelled.
\<close>

definition node_conflicts :: "gnode \<Rightarrow> conflict_row list" where
  "node_conflicts n =
     (if length (stored_claims n) < 2 then []
      else map (\<lambda>(k, cs). \<lparr>cr_entityId = js_String (prop_of n ''id''), cr_label = g_label n,
             cr_name = js_String (coalesce (prop_of n ''name'') (prop_of n ''id'')), cr_propertyKey = k,
             cr_sources = fold (\<lambda>c s. set_add s (c_source c)) cs [],
             cr_values = fold (\<lambda>c s. set_add s (stringify (c_value c))) cs [],
             cr_claimCount = length cs\<rparr>)
           (filter (\<lambda>(k, cs). has_conflict cs) (claim_groups (stored_claims n))))"

section \<open>The read path and the write path\<close>

lemma insert_by_cong:
  "(\<And>y. y \<in> set ys \<Longrightarrow> cmp x y \<le> 0 \<longleftrightarrow> cmp' x y \<le> 0) \<Longrightarrow> insert_by cmp x ys = insert_by cmp' x ys"
  by (induction ys) auto

lemma js_sort_cong:
  "(\<And>x y. x \<in> set xs \<Longrightarrow> y \<in> set xs \<Longrightarrow> cmp x y \<le> 0 \<longleftrightarrow> cmp' x y \<le> 0) \<Longrightarrow> js_sort cmp xs = js_sort cmp' xs"
proof (induction xs)
  case (Cons x xs)
  then have "js_sort cmp xs = js_sort cmp' xs" by simp
  then show ?case using Cons.prems by (auto intro: insert_by_cong)
qed simp

definition stamped :: "claim \<Rightarrow> bool" where
  "stamped c = iso_stamp (ingested_at c)"

lemma stamped_dated: "stamped c \<Longrightarrow> dated c"
  by (auto simp: stamped_def dated_def iso_stamp_def)

lemma stamps_compare:
  assumes "stamped a" "stamped b"
  shows "locale_compare_stamps (ingested_at b) (ingested_at a) \<le> 0 \<longleftrightarrow> claim_time b \<le> claim_time a"
  using stamp_order [of "ingested_at a" "ingested_at b"] assms
  by (auto simp: locale_compare_stamps_def text_compare_le stamped_def claim_time_def)

lemma latest_compare:
  "stamped a \<Longrightarrow> stamped b \<Longrightarrow>
    locale_compare_stamps (ingested_at b) (ingested_at a) \<le> 0 \<longleftrightarrow> latest_first (ingested_at a) (ingested_at b) \<le> 0"
  by (simp add: stamps_compare latest_first_dated stamped_dated)

lemma read_write_compare:
  assumes "stamped a" "stamped b"
  shows "read_compare now a b \<le> 0 \<longleftrightarrow> compare_effective now DEFAULT_DECAY_RATE a b \<le> 0"
  using assms latest_compare [OF assms] computeEffectiveConfidence_dated [OF stamped_dated]
  by (simp add: read_compare_def compare_effective_def)

lemma pick_highest_writer:
  assumes "\<forall>c \<in> set cs. stamped c"
  shows "pick_highest cs now = (Some (winning_claim (resolveHighestConfidence cs DEFAULT_DECAY_RATE now)),
    effective_value (resolveHighestConfidence cs DEFAULT_DECAY_RATE now))"
proof -
  have "js_sort (read_compare now) cs = js_sort (compare_effective now DEFAULT_DECAY_RATE) cs"
    using assms by (intro js_sort_cong read_write_compare) auto
  then show ?thesis by (simp add: pick_highest_def resolveHighestConfidence_def Let_def)
qed


definition sample_claim :: "string \<Rightarrow> string \<Rightarrow> string \<Rightarrow> claim" where
  "sample_claim key src v = \<lparr>property_key = key, c_value = JStr v, c_source = src, c_source_id = ''x'',
     ingested_at = ''2026-10-03T00:00:00.000Z'', c_confidence = 9/10, evidence = None,
     verified_by = None, verified_at = None, verified_value = JUndefined\<rparr>"


end
