(* ===== verification/Claim_Edits.thy ===== *)
theory Claim_Edits
  imports Claim_Service
begin

text \<open>
  Human edits of claims: the locked read-modify-write
  (\<open>packages/api-server/src/services/claim-write-helpers.ts\<close>), manual overrides
  (\<open>manual-edit-service.ts\<close>), verification and the review queue (\<open>verification-service.ts\<close>).
  Each write is one transaction on the graph and the audit log; a transaction that throws
  leaves both as they were. The clock is read once per transaction; the random ids of audit
  events are not modelled.
\<close>

section \<open>The locked read-modify-write\<close>

record locked_claims =
  lk_claims :: "claim list"
  lk_name :: string
  lk_label :: string

definition bump_rev :: "gnode \<Rightarrow> gnode" where
  "bump_rev n = n\<lparr>g_claims_rev := Some (rev_of n + 1)\<rparr>"

definition bump_all :: "graph \<Rightarrow> string \<Rightarrow> graph" where
  "bump_all g entityId = g\<lparr>nodes := map (\<lambda>n. if has_id entityId n then bump_rev n else n) (nodes g)\<rparr>"

definition loadClaimsLocked :: "graph \<Rightarrow> string \<Rightarrow> locked_claims option \<times> graph" where
  "loadClaimsLocked g entityId =
     (let g' = bump_all g entityId in
      case find_first (has_id entityId) (nodes g') of
        None \<Rightarrow> (None, g')
      | Some n \<Rightarrow> (Some \<lparr>lk_claims = stored_claims n,
          lk_name = js_String (coalesce (prop_of n ''name'') (JStr (last (split_on CHR ''/'' entityId)))),
          lk_label = g_label n\<rparr>, g'))"

definition writeClaims :: "graph \<Rightarrow> string \<Rightarrow> claim list \<Rightarrow> graph" where
  "writeClaims g entityId cs =
     g\<lparr>nodes := map (\<lambda>n. if has_id entityId n then n\<lparr>g_claims := Some (Encoded cs)\<rparr> else n) (nodes g)\<rparr>"

section \<open>Manual overrides\<close>

datatype audit_kind = ManualSet | ManualRevert | Contradicted | Verified | ReviewAccepted | ReviewRejected

record audit_event =
  ae_kind :: audit_kind
  ae_actor :: string
  ae_entity :: string
  ae_property :: string
  ae_prior :: "string option"
  ae_new :: "string option"

type_synonym api_store = "graph \<times> audit_event list"

datatype edit_error = INVALID_VALUE_TYPE | ENTITY_NOT_FOUND | NO_MANUAL_CLAIM | NO_OVERRIDE

record set_manual_input =
  sm_entityId :: string
  sm_propertyKey :: string
  sm_value :: jsval
  sm_evidence :: jsval
  sm_actor :: string

record revert_manual_input =
  rm_entityId :: string
  rm_propertyKey :: string
  rm_actor :: string
  rm_targetActor :: "string option"

record edit_result =
  er_property :: resolved_property
  er_claimsRev :: nat

definition MANUAL_RELIABILITY :: rat where
  "MANUAL_RELIABILITY = reliability (getSourceReliability ''manual'')"

definition json_or_null :: "jsval \<Rightarrow> string option" where
  "json_or_null v = (if v = JUndefined then None else stringify v)"

definition recordEvent :: "api_store \<Rightarrow> audit_event \<Rightarrow> api_store" where
  "recordEvent st e = (fst st, snd st @ map (\<lambda>_. e) (filter (has_id (ae_entity e)) (nodes (fst st))))"

definition resolveEffective :: "schema option \<Rightarrow> claim list \<Rightarrow> string \<Rightarrow> string \<Rightarrow> int \<Rightarrow> jsval" where
  "resolveEffective sch claims lbl propertyKey now =
     snd (pickByStrategy (filter (\<lambda>c. property_key c = propertyKey) claims) (strategyFor sch lbl propertyKey) now)"

definition buildResult ::
    "schema option \<Rightarrow> graph \<Rightarrow> string \<Rightarrow> claim list \<Rightarrow> string \<Rightarrow> string \<Rightarrow> int \<Rightarrow> edit_result" where
  "buildResult sch g entityId claims lbl propertyKey now =
     \<lparr>er_property = service_resolveProperty sch claims lbl propertyKey now,
      er_claimsRev = (case find_first (has_id entityId) (nodes g) of None \<Rightarrow> 0 | Some n \<Rightarrow> rev_of n)\<rparr>"

definition own_claim :: "string \<Rightarrow> string \<Rightarrow> claim \<Rightarrow> bool" where
  "own_claim source propertyKey c = (c_source c = source \<and> property_key c = propertyKey)"

definition manual_claim :: "set_manual_input \<Rightarrow> string \<Rightarrow> string option \<Rightarrow> int \<Rightarrow> claim" where
  "manual_claim inp v ev now = \<lparr>property_key = sm_propertyKey inp, c_value = JStr v,
     c_source = ''manual:'' @ sm_actor inp,
     c_source_id = ''manual://'' @ sm_entityId inp @ ''#'' @ sm_propertyKey inp,
     ingested_at = toISOString now, c_confidence = MANUAL_RELIABILITY, evidence = ev,
     verified_by = None, verified_at = None, verified_value = JUndefined\<rparr>"

definition set_manual_tx ::
    "schema option \<Rightarrow> set_manual_input \<Rightarrow> string \<Rightarrow> string option \<Rightarrow> int \<Rightarrow> api_store \<Rightarrow> (edit_error + edit_result) \<times> api_store" where
  "set_manual_tx sch inp v ev now st =
     (case loadClaimsLocked (fst st) (sm_entityId inp) of
        (None, _) \<Rightarrow> (Inl ENTITY_NOT_FOUND, st)
      | (Some loaded, g) \<Rightarrow>
          let priorValue = resolveEffective sch (lk_claims loaded) (lk_label loaded) (sm_propertyKey inp) now;
              claim = manual_claim inp v ev now;
              nxt = filter (\<lambda>c. \<not> own_claim (c_source claim) (sm_propertyKey inp) c) (lk_claims loaded) @ [claim];
              g' = writeClaims g (sm_entityId inp) nxt;
              st' = recordEvent (g', snd st) \<lparr>ae_kind = ManualSet, ae_actor = sm_actor inp,
                ae_entity = sm_entityId inp, ae_property = sm_propertyKey inp,
                ae_prior = json_or_null priorValue, ae_new = json_or_null (JStr v)\<rparr>
          in (Inr (buildResult sch g' (sm_entityId inp) nxt (lk_label loaded) (sm_propertyKey inp) now), st'))"

definition setManualClaim ::
    "schema option \<Rightarrow> set_manual_input \<Rightarrow> int \<Rightarrow> api_store \<Rightarrow> (edit_error + edit_result) \<times> api_store" where
  "setManualClaim sch inp now st =
     (case sm_value inp of
        JStr v \<Rightarrow>
          (if nullish (sm_evidence inp) then set_manual_tx sch inp v None now st
           else case sm_evidence inp of JStr e \<Rightarrow> set_manual_tx sch inp v (Some e) now st
              | _ \<Rightarrow> (Inl INVALID_VALUE_TYPE, st))
      | _ \<Rightarrow> (Inl INVALID_VALUE_TYPE, st))"

definition revertManualClaim ::
    "schema option \<Rightarrow> revert_manual_input \<Rightarrow> int \<Rightarrow> api_store \<Rightarrow> (edit_error + edit_result) \<times> api_store" where
  "revertManualClaim sch inp now st =
     (let removedActor = (case rm_targetActor inp of Some a \<Rightarrow> a | None \<Rightarrow> rm_actor inp);
          removedSource = ''manual:'' @ removedActor in
      case loadClaimsLocked (fst st) (rm_entityId inp) of
        (None, _) \<Rightarrow> (Inl ENTITY_NOT_FOUND, st)
      | (Some loaded, g) \<Rightarrow>
          (case find_first (own_claim removedSource (rm_propertyKey inp)) (lk_claims loaded) of
             None \<Rightarrow> (Inl NO_MANUAL_CLAIM, st)
           | Some removed \<Rightarrow>
               let priorValue = resolveEffective sch (lk_claims loaded) (lk_label loaded) (rm_propertyKey inp) now;
                   nxt = filter (\<lambda>c. \<not> own_claim removedSource (rm_propertyKey inp) c) (lk_claims loaded);
                   newValue = resolveEffective sch nxt (lk_label loaded) (rm_propertyKey inp) now;
                   g' = writeClaims g (rm_entityId inp) nxt;
                   st' = recordEvent (g', snd st) \<lparr>ae_kind = ManualRevert, ae_actor = rm_actor inp,
                     ae_entity = rm_entityId inp, ae_property = rm_propertyKey inp,
                     ae_prior = json_or_null priorValue, ae_new = json_or_null newValue\<rparr>
               in (Inr (buildResult sch g' (rm_entityId inp) nxt (lk_label loaded) (rm_propertyKey inp) now), st')))"

section \<open>Verification\<close>

definition VERIFIED_RELIABILITY :: rat where
  "VERIFIED_RELIABILITY = reliability (getSourceReliability ''verified'')"

definition verify ::
    "string \<Rightarrow> string \<Rightarrow> jsval \<Rightarrow> string \<Rightarrow> string option \<Rightarrow> int \<Rightarrow> api_store \<Rightarrow> (edit_error + unit) \<times> api_store" where
  "verify entityId propertyKey v actor ev now st =
     (case loadClaimsLocked (fst st) entityId of
        (None, _) \<Rightarrow> (Inl ENTITY_NOT_FOUND, st)
      | (Some loaded, g) \<Rightarrow>
          let sourceId = ''verified://'' @ entityId @ ''#'' @ propertyKey;
              claim = \<lparr>property_key = propertyKey, c_value = v, c_source = ''verified:'' @ actor,
                c_source_id = sourceId, ingested_at = toISOString now, c_confidence = VERIFIED_RELIABILITY,
                evidence = ev, verified_by = Some actor, verified_at = Some (toISOString now), verified_value = v\<rparr>;
              nxt = filter (\<lambda>c. \<not> (sourceKey (c_source c) = ''verified'' \<and> c_source_id c = sourceId \<and>
                property_key c = propertyKey)) (lk_claims loaded) @ [claim]
          in (Inr (), recordEvent (writeClaims g entityId nxt, snd st) \<lparr>ae_kind = Verified, ae_actor = actor,
                ae_entity = entityId, ae_property = propertyKey, ae_prior = None, ae_new = stringify v\<rparr>))"

text \<open>The connector claims that contradict an override and are newer, newest first.\<close>

definition contradicts :: "jsval \<Rightarrow> string \<Rightarrow> claim \<Rightarrow> bool" where
  "contradicts overrideValue overrideAt c = (\<not> is_override c \<and>
     stringify (c_value c) \<noteq> stringify overrideValue \<and> str_less overrideAt (ingested_at c))"

definition newest_contradiction :: "claim list \<Rightarrow> claim \<Rightarrow> claim option" where
  "newest_contradiction cs override =
     (case js_sort (\<lambda>a b. locale_compare_stamps (ingested_at b) (ingested_at a))
        (filter (contradicts (effective_verified_value override) (effective_verified_at override)) cs) of
        [] \<Rightarrow> None | c # _ \<Rightarrow> Some c)"

record review_row =
  rr_entityId :: string
  rr_name :: string
  rr_label :: string
  rr_propertyKey :: string
  rr_verifiedValue :: jsval
  rr_verifiedBy :: "string option"
  rr_overrideSource :: string
  rr_proposedValue :: jsval
  rr_proposedSource :: string

definition verified_by_of :: "claim \<Rightarrow> string option" where
  "verified_by_of c = (case verified_by c of Some u \<Rightarrow> Some u
     | None \<Rightarrow> (case split_on CHR '':'' (c_source c) of _ # u # _ \<Rightarrow> Some u | _ \<Rightarrow> None))"

definition review_row :: "gnode \<Rightarrow> string \<times> claim list \<Rightarrow> review_row option" where
  "review_row n kcs =
     (case pickManualOverride (snd kcs) of None \<Rightarrow> None
      | Some override \<Rightarrow>
          (case newest_contradiction (snd kcs) override of None \<Rightarrow> None
           | Some c \<Rightarrow> Some \<lparr>rr_entityId = js_String (prop_of n ''id''),
               rr_name = js_String (coalesce (prop_of n ''name'') (prop_of n ''id'')), rr_label = g_label n,
               rr_propertyKey = fst kcs, rr_verifiedValue = effective_verified_value override,
               rr_verifiedBy = verified_by_of override, rr_overrideSource = sourceKey (c_source override),
               rr_proposedValue = c_value c, rr_proposedSource = c_source c\<rparr>))"

definition node_review_rows :: "gnode \<Rightarrow> review_row list" where
  "node_review_rows n = List.map_filter (review_row n) (claim_groups (stored_claims n))"

text \<open>The database's own filter and order; the application builds the rows and stops at the limit.\<close>

definition review_candidate :: "gnode \<Rightarrow> bool" where
  "review_candidate n =
     (\<exists>vc \<in> set (stored_claims n). is_override vc \<and>
        (\<exists>c \<in> set (stored_claims n). property_key c = property_key vc \<and>
           contradicts (effective_verified_value vc) (effective_verified_at vc) c))"

definition id_compare :: "gnode \<Rightarrow> gnode \<Rightarrow> rat" where
  "id_compare a b = text_compare (js_String (prop_of a ''id'')) (js_String (prop_of b ''id''))"

definition review_rows :: "nat \<Rightarrow> graph \<Rightarrow> review_row list" where
  "review_rows limit g =
     take limit (concat (map node_review_rows (take limit (js_sort id_compare (filter review_candidate (nodes g))))))"

definition contradictionKey :: "string \<Rightarrow> string \<Rightarrow> jsval \<Rightarrow> string" where
  "contradictionKey entityId propertyKey newValue =
     the (stringify (JArr [JStr entityId, JStr propertyKey, newValue]))"

definition null_text :: "string option \<Rightarrow> string" where
  "null_text v = (case v of Some t \<Rightarrow> t | None \<Rightarrow> ''null'')"

definition contradiction_event :: "review_row \<Rightarrow> audit_event" where
  "contradiction_event row = \<lparr>ae_kind = Contradicted,
     ae_actor = (if rr_proposedSource row = [] then ''system'' else rr_proposedSource row),
     ae_entity = rr_entityId row, ae_property = rr_propertyKey row,
     ae_prior = stringify (rr_verifiedValue row), ae_new = stringify (rr_proposedValue row)\<rparr>"

definition row_key :: "review_row \<Rightarrow> string" where
  "row_key row = contradictionKey (rr_entityId row) (rr_propertyKey row)
     (case stringify (rr_proposedValue row) of Some t \<Rightarrow> JStr t | None \<Rightarrow> JUndefined)"

definition event_key :: "audit_event \<Rightarrow> string" where
  "event_key e = contradictionKey (ae_entity e) (ae_property e) (JStr (null_text (ae_new e)))"

fun emit_rows :: "string list \<Rightarrow> review_row list \<Rightarrow> api_store \<Rightarrow> api_store" where
  "emit_rows seen [] st = st"
| "emit_rows seen (row # rows) st =
     (if row_key row \<in> set seen then emit_rows seen rows st
      else emit_rows (row_key row # seen) rows (recordEvent st (contradiction_event row)))"

definition emitContradictions :: "review_row list \<Rightarrow> api_store \<Rightarrow> api_store" where
  "emitContradictions rows st =
     (if rows = [] then st
      else emit_rows (map event_key (filter (\<lambda>e. ae_kind e = Contradicted) (snd st))) rows st)"

definition listReviewQueue :: "nat \<Rightarrow> api_store \<Rightarrow> review_row list \<times> api_store" where
  "listReviewQueue limit st =
     (let rows = review_rows limit (fst st) in (rows, emitContradictions rows st))"

definition repin :: "string \<Rightarrow> string \<Rightarrow> jsval \<Rightarrow> string \<Rightarrow> claim \<Rightarrow> claim" where
  "repin overrideSource propertyKey newValue t c =
     (if own_claim overrideSource propertyKey c
      then c\<lparr>c_value := newValue, verified_value := newValue, verified_at := Some t, ingested_at := t\<rparr> else c)"

definition newest_ms :: "claim list \<Rightarrow> int" where
  "newest_ms cs = fold (\<lambda>c m. case date_parse (ingested_at c) of Some t \<Rightarrow> max m t | None \<Rightarrow> m) cs 0"

definition review_time :: "claim list \<Rightarrow> int \<Rightarrow> string" where
  "review_time cs now = toISOString (max now (newest_ms cs + 1000))"

definition review_value :: "bool \<Rightarrow> claim list \<Rightarrow> claim \<Rightarrow> jsval" where
  "review_value accept cs override = (if accept then
       (case newest_contradiction cs override of Some c \<Rightarrow> c_value c | None \<Rightarrow> effective_verified_value override)
     else effective_verified_value override)"

definition resolveReview ::
    "string \<Rightarrow> string \<Rightarrow> bool \<Rightarrow> string \<Rightarrow> int \<Rightarrow> api_store \<Rightarrow> (edit_error + unit) \<times> api_store" where
  "resolveReview entityId propertyKey accept actor now st =
     (case loadClaimsLocked (fst st) entityId of
        (None, _) \<Rightarrow> (Inl ENTITY_NOT_FOUND, st)
      | (Some loaded, g) \<Rightarrow>
          let cs = filter (\<lambda>c. property_key c = propertyKey) (lk_claims loaded) in
          (case pickManualOverride cs of
             None \<Rightarrow> (Inl NO_OVERRIDE, st)
           | Some override \<Rightarrow>
               let newValue = review_value accept cs override;
                   t = review_time (lk_claims loaded) now;
                   nxt = map (repin (c_source override) propertyKey newValue t) (lk_claims loaded)
               in (Inr (), recordEvent (writeClaims g entityId nxt, snd st)
                    \<lparr>ae_kind = (if accept then ReviewAccepted else ReviewRejected), ae_actor = actor,
                     ae_entity = entityId, ae_property = propertyKey,
                     ae_prior = json_or_null (effective_verified_value override), ae_new = stringify newValue\<rparr>)))"

section \<open>What an edit does to the stored claims\<close>

text \<open>The claims and the revision a reader of an entity sees.\<close>

definition claims_at :: "graph \<Rightarrow> string \<Rightarrow> (claim list \<times> nat) option" where
  "claims_at g i = map_option (\<lambda>n. (stored_claims n, rev_of n)) (find_first (has_id i) (nodes g))"

lemma getExistingClaims_at:
  "getExistingClaims g i = (case claims_at g i of None \<Rightarrow> \<lparr>x_claims = [], x_claimsRev = 0\<rparr>
     | Some (cs, r) \<Rightarrow> \<lparr>x_claims = cs, x_claimsRev = r\<rparr>)"
  by (simp add: getExistingClaims_def claims_at_def stored_claims_def split: option.split)

lemma has_id_update [simp]:
  "has_id i (bump_rev n) = has_id i n" "has_id i (n\<lparr>g_claims := c\<rparr>) = has_id i n"
  "has_id i (n\<lparr>g_absent_since := a\<rparr>) = has_id i n"
  by (simp_all add: has_id_def bump_rev_def)

lemma has_id_unique: "has_id i n \<Longrightarrow> has_id j n \<Longrightarrow> i = j"
  by (simp add: has_id_def)

lemma stored_claims_bump [simp]:
  "stored_claims (bump_rev n) = stored_claims n" "rev_of (bump_rev n) = rev_of n + 1"
  by (simp_all add: stored_claims_def bump_rev_def rev_of_def)

lemma find_bump:
  "find_first (has_id i) (nodes (bump_all g e)) =
    map_option (\<lambda>n. if i = e then bump_rev n else n) (find_first (has_id i) (nodes g))"
proof -
  have "find_first (has_id i) (nodes (bump_all g e)) =
      map_option (\<lambda>n. if has_id e n then bump_rev n else n) (find_first (has_id i) (nodes g))"
    by (simp add: bump_all_def find_first_map_same)
  then show ?thesis
    using has_id_unique by (cases "find_first (has_id i) (nodes g)") (auto dest!: find_first_Some)
qed

lemma find_write:
  "find_first (has_id i) (nodes (writeClaims g e cs)) =
    map_option (\<lambda>n. if i = e then n\<lparr>g_claims := Some (Encoded cs)\<rparr> else n) (find_first (has_id i) (nodes g))"
proof -
  have "find_first (has_id i) (nodes (writeClaims g e cs)) =
      map_option (\<lambda>n. if has_id e n then n\<lparr>g_claims := Some (Encoded cs)\<rparr> else n) (find_first (has_id i) (nodes g))"
    by (simp add: writeClaims_def find_first_map_same)
  then show ?thesis
    using has_id_unique by (cases "find_first (has_id i) (nodes g)") (auto dest!: find_first_Some)
qed

lemma claims_at_edit:
  "claims_at (writeClaims (bump_all g e) e cs) i =
    (if i = e then map_option (\<lambda>(_, r). (cs, r + 1)) (claims_at g i) else claims_at g i)"
  by (cases "find_first (has_id i) (nodes g)")
    (auto simp: claims_at_def find_write find_bump stored_claims_def bump_rev_def rev_of_def)

lemma loadClaimsLocked_cases:
  obtains "claims_at g e = None" "loadClaimsLocked g e = (None, bump_all g e)"
  | cs r nm lbl where "claims_at g e = Some (cs, r)"
      "loadClaimsLocked g e = (Some \<lparr>lk_claims = cs, lk_name = nm, lk_label = lbl\<rparr>, bump_all g e)"
proof (cases "find_first (has_id e) (nodes g)")
  case None
  then show ?thesis using that(1) by (simp add: claims_at_def loadClaimsLocked_def find_bump)
next
  case (Some n)
  then show ?thesis using that(2) by (simp add: claims_at_def loadClaimsLocked_def find_bump)
qed

text \<open>
  The shape of every edit of an entity: it fails and changes nothing, or it replaces the
  claims of that entity by a function of the old ones, advances the revision by one and
  appends to the log.
\<close>

definition edits :: "string \<Rightarrow> (claim list \<Rightarrow> claim list) \<Rightarrow> api_store \<Rightarrow> api_store \<Rightarrow> bool" where
  "edits e f st st' \<longleftrightarrow> (\<exists>cs r log. claims_at (fst st) e = Some (cs, r) \<and>
     st' = (writeClaims (bump_all (fst st) e) e (f cs), snd st @ log))"

lemma recordEvent_state: "\<exists>log. recordEvent (g, l) ev = (g, l @ log)"
  by (simp add: recordEvent_def)

definition without_own :: "string \<Rightarrow> string \<Rightarrow> claim list \<Rightarrow> claim list" where
  "without_own source k cs = filter (\<lambda>c. \<not> own_claim source k c) cs"

lemma set_manual_tx_edits:
  assumes "set_manual_tx sch inp v ev now st = (res, st')"
  shows "(\<exists>e. res = Inl e) \<and> st' = st \<or>
    (\<exists>r. res = Inr r) \<and> edits (sm_entityId inp)
      (\<lambda>cs. without_own (''manual:'' @ sm_actor inp) (sm_propertyKey inp) cs @ [manual_claim inp v ev now]) st st'"
proof (rule loadClaimsLocked_cases [of "fst st" "sm_entityId inp"])
  assume "loadClaimsLocked (fst st) (sm_entityId inp) = (None, bump_all (fst st) (sm_entityId inp))"
  then show ?thesis using assms by (auto simp: set_manual_tx_def)
next
  fix cs r nm lbl
  assume c: "claims_at (fst st) (sm_entityId inp) = Some (cs, r)"
    and l: "loadClaimsLocked (fst st) (sm_entityId inp) =
      (Some \<lparr>lk_claims = cs, lk_name = nm, lk_label = lbl\<rparr>, bump_all (fst st) (sm_entityId inp))"
  have "c_source (manual_claim inp v ev now) = ''manual:'' @ sm_actor inp" by (simp add: manual_claim_def)
  then show ?thesis
    using assms c by (auto simp: set_manual_tx_def l Let_def edits_def without_own_def recordEvent_def)
qed

lemma setManualClaim_edits:
  assumes "setManualClaim sch inp now st = (res, st')"
  shows "(\<exists>e. res = Inl e) \<and> st' = st \<or>
    (\<exists>r v ev. res = Inr r \<and> sm_value inp = JStr v \<and> edits (sm_entityId inp)
      (\<lambda>cs. without_own (''manual:'' @ sm_actor inp) (sm_propertyKey inp) cs @ [manual_claim inp v ev now]) st st')"
proof (cases "\<exists>v ev. sm_value inp = JStr v \<and> setManualClaim sch inp now st = set_manual_tx sch inp v ev now st")
  case True
  then obtain v ev where v: "sm_value inp = JStr v" "set_manual_tx sch inp v ev now st = (res, st')"
    using assms by auto
  from set_manual_tx_edits [OF v(2)] v(1) show ?thesis by blast
next
  case False
  then have "setManualClaim sch inp now st = (Inl INVALID_VALUE_TYPE, st)"
    by (auto simp: setManualClaim_def split: jsval.splits)
  then show ?thesis using assms by simp
qed

lemma revertManualClaim_edits:
  assumes "revertManualClaim sch inp now st = (res, st')"
  shows "(\<exists>e. res = Inl e) \<and> st' = st \<or>
    (\<exists>r. res = Inr r) \<and> edits (rm_entityId inp)
      (without_own (''manual:'' @ (case rm_targetActor inp of Some a \<Rightarrow> a | None \<Rightarrow> rm_actor inp)) (rm_propertyKey inp)) st st'"
proof (rule loadClaimsLocked_cases [of "fst st" "rm_entityId inp"])
  assume "loadClaimsLocked (fst st) (rm_entityId inp) = (None, bump_all (fst st) (rm_entityId inp))"
  then show ?thesis using assms by (auto simp: revertManualClaim_def Let_def)
next
  fix cs r nm lbl
  assume c: "claims_at (fst st) (rm_entityId inp) = Some (cs, r)"
    and l: "loadClaimsLocked (fst st) (rm_entityId inp) =
      (Some \<lparr>lk_claims = cs, lk_name = nm, lk_label = lbl\<rparr>, bump_all (fst st) (rm_entityId inp))"
  show ?thesis
    using assms c by (auto simp: revertManualClaim_def l Let_def edits_def without_own_def recordEvent_def
        split: option.splits)
qed

definition verified_claim :: "string \<Rightarrow> string \<Rightarrow> jsval \<Rightarrow> string \<Rightarrow> string option \<Rightarrow> int \<Rightarrow> claim" where
  "verified_claim e k v actor ev now = \<lparr>property_key = k, c_value = v, c_source = ''verified:'' @ actor,
     c_source_id = ''verified://'' @ e @ ''#'' @ k, ingested_at = toISOString now,
     c_confidence = VERIFIED_RELIABILITY, evidence = ev, verified_by = Some actor,
     verified_at = Some (toISOString now), verified_value = v\<rparr>"

lemma verify_edits:
  assumes "verify e k v actor ev now st = (res, st')"
  shows "(\<exists>x. res = Inl x) \<and> st' = st \<or> res = Inr () \<and> edits e
    (\<lambda>cs. filter (\<lambda>c. \<not> (sourceKey (c_source c) = ''verified'' \<and> c_source_id c = ''verified://'' @ e @ ''#'' @ k \<and>
       property_key c = k)) cs @ [verified_claim e k v actor ev now]) st st'"
proof (rule loadClaimsLocked_cases [of "fst st" e])
  assume "loadClaimsLocked (fst st) e = (None, bump_all (fst st) e)"
  then show ?thesis using assms by (auto simp: verify_def)
next
  fix cs r nm lbl
  assume c: "claims_at (fst st) e = Some (cs, r)"
    and l: "loadClaimsLocked (fst st) e = (Some \<lparr>lk_claims = cs, lk_name = nm, lk_label = lbl\<rparr>, bump_all (fst st) e)"
  show ?thesis
    using assms c by (auto simp: verify_def l Let_def edits_def verified_claim_def recordEvent_def)
qed

definition reviewed :: "string \<Rightarrow> bool \<Rightarrow> int \<Rightarrow> claim \<Rightarrow> claim list \<Rightarrow> claim list" where
  "reviewed k accept now override cs = map (repin (c_source override) k
     (review_value accept (filter (\<lambda>c. property_key c = k) cs) override) (review_time cs now)) cs"

lemma resolveReview_edits:
  assumes "resolveReview e k accept actor now st = (res, st')"
  shows "(\<exists>x. res = Inl x) \<and> st' = st \<or> (\<exists>cs r override. res = Inr () \<and> claims_at (fst st) e = Some (cs, r) \<and>
    pickManualOverride (filter (\<lambda>c. property_key c = k) cs) = Some override \<and>
    edits e (reviewed k accept now override) st st')"
proof (rule loadClaimsLocked_cases [of "fst st" e])
  assume "loadClaimsLocked (fst st) e = (None, bump_all (fst st) e)"
  then show ?thesis using assms by (auto simp: resolveReview_def)
next
  fix cs r nm lbl
  assume c: "claims_at (fst st) e = Some (cs, r)"
    and l: "loadClaimsLocked (fst st) e = (Some \<lparr>lk_claims = cs, lk_name = nm, lk_label = lbl\<rparr>, bump_all (fst st) e)"
  show ?thesis
    using assms c by (auto simp: resolveReview_def l Let_def edits_def reviewed_def recordEvent_def split: option.splits)
qed

lemma edits_claims_at:
  assumes "edits e f st st'"
  shows "claims_at (fst st') i = (if i = e then map_option (\<lambda>(cs, r). (f cs, r + 1)) (claims_at (fst st) i)
    else claims_at (fst st) i)"
  using assms by (auto simp: edits_def claims_at_edit)

section \<open>Properties\<close>

text \<open>The claim that outranks every other attestation is the one that is picked.\<close>

lemma pickManualOverride_best:
  assumes "w \<in> set cs" "is_override w" "\<And>c. c \<in> set cs \<Longrightarrow> is_override c \<Longrightarrow> c \<noteq> w \<Longrightarrow> compareOverride w c < 0"
  shows "pickManualOverride cs = Some w"
proof -
  obtain p where p: "pickManualOverride cs = Some p"
    using assms(1,2) pickManualOverride_None_iff [of cs] by (cases "pickManualOverride cs") auto
  have "p = w"
    using pickManualOverride_min [OF p] assms by auto
  with p show ?thesis by simp
qed

lemma manual_source: "sourceKey (''manual:'' @ a) = ''manual''" "sourceKey (''verified:'' @ a) = ''verified''"
  using sourceKey_namespaced [of "''manual''" a] sourceKey_namespaced [of "''verified''" a] by simp_all


text \<open>
  C34: Reverting undoes an override: when the actor had no claim of their own on the property,
  setting one and reverting it leaves exactly the claims there were, two revisions later.
\<close>

theorem set_then_revert:
  assumes "setManualClaim sch inp now st = (Inr r, st1)"
    and "claims_at (fst st) (sm_entityId inp) = Some (cs, rv)"
    and "\<forall>c \<in> set cs. \<not> own_claim (''manual:'' @ sm_actor inp) (sm_propertyKey inp) c"
  shows "\<exists>r2 st2. revertManualClaim sch \<lparr>rm_entityId = sm_entityId inp, rm_propertyKey = sm_propertyKey inp,
      rm_actor = sm_actor inp, rm_targetActor = None\<rparr> later st1 = (Inr r2, st2) \<and>
    claims_at (fst st2) (sm_entityId inp) = Some (cs, rv + 2)"
proof -
  let ?src = "''manual:'' @ sm_actor inp" and ?k = "sm_propertyKey inp"
  let ?rm = "\<lparr>rm_entityId = sm_entityId inp, rm_propertyKey = ?k, rm_actor = sm_actor inp, rm_targetActor = None\<rparr>"
  obtain v ev where e: "edits (sm_entityId inp) (\<lambda>cs. without_own ?src ?k cs @ [manual_claim inp v ev now]) st st1"
    using setManualClaim_edits [OF assms(1)] by auto
  let ?w = "manual_claim inp v ev now"
  have own: "own_claim ?src ?k ?w" by (simp add: own_claim_def manual_claim_def)
  have same: "without_own ?src ?k cs = cs" using assms(3) by (simp add: without_own_def)
  have c1: "claims_at (fst st1) (sm_entityId inp) = Some (cs @ [?w], rv + 1)"
    using edits_claims_at [OF e] assms(2) same by simp
  obtain res st2 where r: "revertManualClaim sch ?rm later st1 = (res, st2)"
    by (cases "revertManualClaim sch ?rm later st1")
  have "\<exists>r2. res = Inr r2"
  proof (rule loadClaimsLocked_cases [of "fst st1" "sm_entityId inp"])
    fix ds q nm lbl
    assume "claims_at (fst st1) (sm_entityId inp) = Some (ds, q)" and l: "loadClaimsLocked (fst st1) (sm_entityId inp) =
      (Some \<lparr>lk_claims = ds, lk_name = nm, lk_label = lbl\<rparr>, bump_all (fst st1) (sm_entityId inp))"
    then have "ds = cs @ [?w]" using c1 by simp
    then have "find_first (own_claim ?src ?k) ds \<noteq> None" using own by (auto simp: find_first_None)
    then show ?thesis using r l by (auto simp: revertManualClaim_def Let_def)
  qed (use c1 in simp)
  then obtain r2 where r2: "res = Inr r2" by blast
  then have "edits (sm_entityId inp) (without_own ?src ?k) st1 st2"
    using revertManualClaim_edits [OF r] by simp
  from edits_claims_at [OF this] c1 have "claims_at (fst st2) (sm_entityId inp) = Some (cs, rv + 2)"
    using same own by (simp add: without_own_def)
  then show ?thesis using r r2 by auto
qed

section \<open>Adjudicated reviews\<close>

lemma claim_groups_key:
  assumes "(k, xs) \<in> set (claim_groups cs)"
  shows "xs = filter (\<lambda>c. property_key c = k) cs"
proof -
  note g = group_all [of "[]" cs k]
  have "map_of (claim_groups cs) k = Some xs"
    unfolding claim_groups_def by (rule map_of_is_SomeI) (use g assms in \<open>simp_all add: claim_groups_def\<close>)
  then show ?thesis using g by (simp add: claim_groups_def Let_def split: if_splits)
qed

lemma newest_ms_bound:
  assumes "c \<in> set cs" "date_parse (ingested_at c) = Some t"
  shows "t \<le> newest_ms cs"
proof -
  let ?f = "\<lambda>c m. case date_parse (ingested_at c) of Some t \<Rightarrow> max m t | None \<Rightarrow> m"
  have mono: "m \<le> fold ?f xs m" for xs m
  proof (induction xs arbitrary: m)
    case (Cons x xs)
    show ?case using Cons [of "?f x m"] by (simp split: option.splits)
  qed simp
  have "c \<in> set xs \<Longrightarrow> t \<le> fold ?f xs m" for xs m
  proof (induction xs arbitrary: m)
    case (Cons x xs)
    then show ?case using mono [of "?f c m" xs] assms(2) by auto
  qed simp
  then show ?thesis using assms(1) by (simp add: newest_ms_def)
qed

lemma review_time_later:
  assumes "in_four_digit_years (max now (newest_ms cs + 1000))" "c \<in> set cs" "iso_stamp (ingested_at c)"
  shows "str_less (ingested_at c) (review_time cs now)"
proof -
  obtain t where t: "date_parse (ingested_at c) = Some t" using assms(3) by (auto simp: iso_stamp_def)
  then have "t < max now (newest_ms cs + 1000)" using newest_ms_bound [OF assms(2) t] by simp
  then show ?thesis
    using stamp_order [OF assms(3) iso_stamp_toISOString [OF assms(1)]] t
    by (simp add: review_time_def date_parse_toISOString [OF assms(1)])
qed

lemma repin_simps [simp]:
  "property_key (repin s k v t c) = property_key c" "c_source (repin s k v t c) = c_source c"
  by (simp_all add: repin_def)

lemma repin_own: "own_claim s k c \<Longrightarrow> ingested_at (repin s k v t c) = t \<and> effective_verified_at (repin s k v t c) = t"
  by (simp add: repin_def effective_verified_at_def)

lemma repin_other: "\<not> own_claim s k c \<Longrightarrow> repin s k v t c = c"
  by (simp add: repin_def)

text \<open>After re-pinning, the attestation that wins carries the time of the decision.\<close>

lemma repinned_winner:
  assumes "pickManualOverride grp = Some override" "\<forall>c \<in> set grp. property_key c = k \<and> str_less (ingested_at c) t"
    and "pickManualOverride (map (repin (c_source override) k v t) grp) = Some q"
  shows "effective_verified_at q = t" "c_source q = c_source override"
proof -
  let ?r = "repin (c_source override) k v t"
  note o1 = pickManualOverride_min [OF assms(1)] and q = pickManualOverride_min [OF assms(3)]
  obtain c where c: "c \<in> set grp" "q = ?r c" using q(1) by auto
  have own: "own_claim (c_source override) k override" using o1(1) assms(2) by (simp add: own_claim_def)
  have "own_claim (c_source override) k c"
  proof (rule ccontr)
    assume no: "\<not> own_claim (c_source override) k c"
    have "is_override c" using q(2) c(2) by (simp add: is_override_def)
    then have "\<not> compareOverride c override < 0" using o1(3) c(1) by auto
    then have "sourceRank (c_source override) \<le> sourceRank (c_source c)" by (auto simp: compareOverride_neg)
    moreover have "str_less (ingested_at c) t" using assms(2) c(1) by auto
    ultimately have "compareOverride (?r override) q < 0"
      using repin_own [OF own, of v t] c(2) repin_other [OF no] by (auto simp: compareOverride_neg)
    moreover have "?r override \<in> set (map ?r grp)" "is_override (?r override)"
      using o1(1,2) by (auto simp: is_override_def)
    ultimately show False using q(3) by blast
  qed
  then show "effective_verified_at q = t" "c_source q = c_source override"
    using repin_own [of "c_source override" k c v t] c(2) by (simp_all add: own_claim_def)
qed

text \<open>
  A decided review stays decided: after accepting or rejecting, the property is not in the
  review queue of the entity, since the decision is stamped later than every claim the entity
  carries.
\<close>

theorem resolved_review_settles:
  assumes "resolveReview e k accept actor now st = (Inr (), st')"
    and "claims_at (fst st) e = Some (cs, rv)"
    and "\<forall>c \<in> set cs. iso_stamp (ingested_at c)" "in_four_digit_years (max now (newest_ms cs + 1000))"
    and "find_first (has_id e) (nodes (fst st')) = Some n"
  shows "rev_of n = rv + 1 \<and> (\<forall>row \<in> set (node_review_rows n). rr_propertyKey row \<noteq> k)"
proof -
  obtain override where o1: "pickManualOverride (filter (\<lambda>c. property_key c = k) cs) = Some override"
    and ed: "edits e (reviewed k accept now override) st st'"
    using resolveReview_edits [OF assms(1)] assms(2) by auto
  let ?t = "review_time cs now" and ?grp = "filter (\<lambda>c. property_key c = k) cs"
  let ?r = "repin (c_source override) k (review_value accept ?grp override) ?t"
  have n: "stored_claims n = map ?r cs" "rev_of n = rv + 1"
    using edits_claims_at [OF ed, of e] assms(2,5) by (auto simp: claims_at_def reviewed_def)
  have older: "\<forall>c \<in> set cs. str_less (ingested_at c) ?t" using review_time_later assms(3,4) by blast
  have grp: "filter (\<lambda>c. property_key c = k) (stored_claims n) = map ?r ?grp"
    by (simp add: n filter_map comp_def)
  have "review_row n (k, map ?r ?grp) = None"
  proof (cases "pickManualOverride (map ?r ?grp)")
    case None
    then show ?thesis by (simp add: review_row_def)
  next
    case (Some q)
    have "effective_verified_at q = ?t" by (rule repinned_winner(1) [OF o1 _ Some]) (use older in auto)
    moreover have "\<not> str_less ?t (ingested_at d)" if "d \<in> set (map ?r ?grp)" "\<not> is_override d" for d
    proof -
      obtain c where c: "c \<in> set cs" "d = ?r c" using \<open>d \<in> set (map ?r ?grp)\<close> by auto
      have "\<not> own_claim (c_source override) k c"
        using \<open>\<not> is_override d\<close> c(2) pickManualOverride_min(2) [OF o1] by (auto simp: own_claim_def is_override_def)
      then have "d = c" using c(2) by (simp add: repin_other)
      then show ?thesis using older c(1) str_less_asym by blast
    qed
    ultimately have "filter (contradicts (effective_verified_value q) (effective_verified_at q)) (map ?r ?grp) = []"
      by (auto simp: filter_empty_conv contradicts_def)
    then show ?thesis by (simp add: review_row_def Some newest_contradiction_def del: filter_map)
  qed
  moreover have "\<exists>xs. (rr_propertyKey row, xs) \<in> set (claim_groups (stored_claims n)) \<and> review_row n (rr_propertyKey row, xs) = Some row"
    if "row \<in> set (node_review_rows n)" for row
    using that by (fastforce simp: node_review_rows_def map_filter_def review_row_def split: option.splits)
  ultimately show ?thesis
    using n(2) claim_groups_key grp by (metis option.distinct(1))
qed

section \<open>Concrete runs\<close>

definition sample_id :: string where "sample_id = ''shipit://repository/default/a''"

definition sample_set :: set_manual_input where
  "sample_set = \<lparr>sm_entityId = sample_id, sm_propertyKey = ''tier'', sm_value = JStr ''1'',
     sm_evidence = JNull, sm_actor = ''ann''\<rparr>"

definition sample_now :: int where "sample_now = 1790985600000"

text \<open>An entity with a verified owner that a later sync contradicts.\<close>

definition reviewed_graph :: graph where
  "reviewed_graph = fst (mergeNode empty_graph (sample_node sample_id ''github://acme/a'')
     [(sample_claim ''owner'' ''verified:bob'' ''team-a'')\<lparr>ingested_at := ''2026-10-01T00:00:00.000Z'', c_confidence := 99/100\<rparr>,
      sample_claim ''owner'' ''github'' ''team-b''] Map.empty 0)"


theorem set_then_revert_witness:
  "claims_at (fst (snd (revertManualClaim None \<lparr>rm_entityId = sample_id, rm_propertyKey = ''tier'', rm_actor = ''ann'',
      rm_targetActor = None\<rparr> sample_now (snd (setManualClaim None sample_set sample_now (sample_graph, [])))))) sample_id = Some ([], 3)"
proof -
  obtain res st' where r: "setManualClaim None sample_set sample_now (sample_graph, []) = (res, st')"
    by (cases "setManualClaim None sample_set sample_now (sample_graph, [])")
  have "\<not> isl (fst (setManualClaim None sample_set sample_now (sample_graph, [])))" by code_simp
  then obtain x where x: "res = Inr x" using r by (cases res) auto
  have c: "claims_at (fst (sample_graph, [])) (sm_entityId sample_set) = Some ([], 1)" by code_simp
  have f: "sm_entityId sample_set = sample_id" "sm_propertyKey sample_set = ''tier''" "sm_actor sample_set = ''ann''"
    by (simp_all add: sample_set_def)
  from set_then_revert [OF r [unfolded x] c, of sample_now] show ?thesis by (auto simp: f r)
qed

theorem resolved_review_settles_witness:
  "\<exists>n. find_first (has_id sample_id) (nodes (fst (snd (resolveReview sample_id ''owner'' True ''ann'' sample_now (reviewed_graph, []))))) = Some n \<and>
    (\<forall>row \<in> set (node_review_rows n). rr_propertyKey row \<noteq> ''owner'')"
proof -
  let ?run = "resolveReview sample_id ''owner'' True ''ann'' sample_now (reviewed_graph, [])"
  let ?cs = "[(sample_claim ''owner'' ''verified:bob'' ''team-a'')\<lparr>ingested_at := ''2026-10-01T00:00:00.000Z'', c_confidence := 99/100\<rparr>,
      sample_claim ''owner'' ''github'' ''team-b'']"
  obtain res st' where r: "?run = (res, st')" by (cases ?run)
  have "\<not> isl (fst ?run)" by code_simp
  then have x: "res = Inr ()" using r by (cases res) auto
  have c: "claims_at (fst (reviewed_graph, [])) sample_id = Some (?cs, 1)" by code_simp
  have i: "\<forall>c \<in> set ?cs. iso_stamp (ingested_at c)" by code_simp
  have "newest_ms ?cs = 1790985600000" by code_simp
  then have y: "in_four_digit_years (max sample_now (newest_ms ?cs + 1000))"
    by (simp add: in_four_digit_years_def ms_per_day_def day_from_year_def sample_now_def)
  have "find_first (has_id sample_id) (nodes (fst (snd ?run))) \<noteq> None" by code_simp
  then obtain n where n: "find_first (has_id sample_id) (nodes (fst st')) = Some n" using r by auto
  from resolved_review_settles [OF r [unfolded x] c i y n] n r show ?thesis by auto
qed

text \<open>
  C37: The answer to an edit is resolved from all claims of the entity instead of the claims of
  the edited property: setting \<open>tier\<close> of an entity whose \<open>owner\<close> is verified answers with the
  owner as the value of \<open>tier\<close>, while the property itself holds the edited value.
\<close>

theorem edit_answer_mixes_properties:
  "\<exists>r st' cs. setManualClaim None sample_set sample_now (reviewed_graph, []) = (Inr r, st') \<and>
    claims_at (fst st') sample_id = Some cs \<and>
    rp_property_key (er_property r) = ''tier'' \<and>
    rp_effective_value (er_property r) = JStr ''team-a'' \<and>
    resolveEffective None (fst cs) ''Repository'' ''tier'' sample_now = JStr ''1''"
proof -
  let ?run = "setManualClaim None sample_set sample_now (reviewed_graph, [])"
  obtain res st' where r: "?run = (res, st')" by (cases ?run)
  have "\<not> isl (fst ?run)" by code_simp
  then obtain x where x: "res = Inr x" using r by (cases res) auto
  have "(case fst ?run of Inr x \<Rightarrow> (rp_property_key (er_property x), rp_effective_value (er_property x)))
      = (''tier'', JStr ''team-a'')" by code_simp
  moreover have "map_option (\<lambda>cs. resolveEffective None (fst cs) ''Repository'' ''tier'' sample_now)
      (claims_at (fst (snd ?run)) sample_id) = Some (JStr ''1'')" by code_simp
  ultimately show ?thesis using r x by auto
qed

end
