(* ===== verification/Writer_Concurrent.thy ===== *)
theory Writer_Concurrent
  imports Writer Claim_Edits
begin

text \<open>
  The writer among other writers. Every database call of the writer may find that somebody
  else has committed transactions in between: a run carries a list of environment
  transactions, one of which (possibly a composition of many, possibly none) commits before
  each call, and the history of the graphs that were committed. The retry loop on
  \<open>_claims_rev\<close> (\<open>packages/core-writer/src/writer.ts\<close>) is shown to lose no claim that
  another writer stored; the edits of theory \<open>Claim_Edits\<close> are such writers.
\<close>

record world =
  w_graph :: graph
  w_pending :: "(graph \<Rightarrow> graph) list"
  w_history :: "graph list"

definition next_transaction :: "world \<Rightarrow> graph \<Rightarrow> graph" where
  "next_transaction w = (case w_pending w of [] \<Rightarrow> (\<lambda>g. g) | e # _ \<Rightarrow> e)"

definition interleaved :: "(graph, 'r) op \<Rightarrow> (world, 'r) op" where
  "interleaved m w = (let g1 = next_transaction w (w_graph w) in
     case m g1 of (r, g2) \<Rightarrow>
       (r, \<lparr>w_graph = g2, w_pending = tl (w_pending w), w_history = w_history w @ [g1, g2]\<rparr>))"

definition interleaved_writer :: "graph core_writer \<Rightarrow> world core_writer" where
  "interleaved_writer w = \<lparr>
     nodeWriter = \<lparr>
       writeNode = \<lambda>n cs ps r. interleaved (writeNode (nodeWriter w) n cs ps r),
       writeEdge = \<lambda>e. interleaved (writeEdge (nodeWriter w) e),
       readClaims = \<lambda>i. interleaved (readClaims (nodeWriter w) i),
       touchNode = \<lambda>i t. interleaved (touchNode (nodeWriter w) i t),
       sweep = \<lambda>c t u. interleaved (sweep (nodeWriter w) c t u)\<rparr>,
     reconciler = \<lambda>n. interleaved (reconciler w n),
     idempotency = \<lparr>isDuplicate = \<lambda>k. interleaved (isDuplicate (idempotency w) k),
       record_key = \<lambda>k. interleaved (record_key (idempotency w) k)\<rparr>,
     resolverOptions = resolverOptions w,
     clock = \<lambda>s. clock w (w_graph s),
     nodeKey = nodeKey w\<rparr>"

section \<open>Entities and other writers\<close>

text \<open>
  An entity is well stored when one node at most carries its id, under one label, and none of
  its claims is about the property \<open>id\<close> itself.
\<close>

definition entity_ok :: "string \<Rightarrow> string \<Rightarrow> graph \<Rightarrow> bool" where
  "entity_ok l e g \<longleftrightarrow> (\<forall>n \<in> set (nodes g). has_id e n \<longrightarrow> g_label n = l) \<and>
     length (filter (has_id e) (nodes g)) \<le> 1 \<and>
     (\<forall>c \<in> set (x_claims (getExistingClaims g e)). property_key c \<noteq> ''id'')"

definition holds_claim :: "string \<Rightarrow> claim \<Rightarrow> graph \<Rightarrow> bool" where
  "holds_claim e c g \<longleftrightarrow> c \<in> set (x_claims (getExistingClaims g e))"

text \<open>
  What another writer must do to keep a claim: leave the entity well stored, advance the
  revision whenever it changes the claims, and not remove the claim itself.
\<close>

definition polite :: "string \<Rightarrow> string \<Rightarrow> claim \<Rightarrow> (graph \<Rightarrow> graph) \<Rightarrow> bool" where
  "polite l e c f \<longleftrightarrow> (\<forall>g. entity_ok l e g \<longrightarrow> entity_ok l e (f g) \<and>
     (getExistingClaims (f g) e = getExistingClaims g e \<or>
      x_claimsRev (getExistingClaims g e) < x_claimsRev (getExistingClaims (f g) e)) \<and>
     (holds_claim e c g \<longrightarrow> holds_claim e c (f g)))"

lemma polite_comp: "polite l e c f \<Longrightarrow> polite l e c f' \<Longrightarrow> polite l e c (\<lambda>g. f' (f g))"
  unfolding polite_def
proof (intro allI impI)
  fix g
  assume a: "\<forall>g. entity_ok l e g \<longrightarrow> entity_ok l e (f g) \<and>
     (getExistingClaims (f g) e = getExistingClaims g e \<or>
      x_claimsRev (getExistingClaims g e) < x_claimsRev (getExistingClaims (f g) e)) \<and>
     (holds_claim e c g \<longrightarrow> holds_claim e c (f g))"
    and b: "\<forall>g. entity_ok l e g \<longrightarrow> entity_ok l e (f' g) \<and>
     (getExistingClaims (f' g) e = getExistingClaims g e \<or>
      x_claimsRev (getExistingClaims g e) < x_claimsRev (getExistingClaims (f' g) e)) \<and>
     (holds_claim e c g \<longrightarrow> holds_claim e c (f' g))"
    and ok: "entity_ok l e g"
  note fa = a [rule_format, OF ok]
  note fb = b [rule_format, of "f g"]
  show "entity_ok l e (f' (f g)) \<and>
     (getExistingClaims (f' (f g)) e = getExistingClaims g e \<or>
      x_claimsRev (getExistingClaims g e) < x_claimsRev (getExistingClaims (f' (f g)) e)) \<and>
     (holds_claim e c g \<longrightarrow> holds_claim e c (f' (f g)))"
    using fa fb by auto
qed

lemma polite_id: "polite l e c (\<lambda>g. g)"
  by (simp add: polite_def)

section \<open>The writer's own transaction\<close>

lemma entity_ok_find:
  assumes "entity_ok l e g"
  shows "filter (has_id e) (nodes g) = stored_nodes g l e"
    "find_first (has_id e) (nodes g) = (case stored_nodes g l e of [] \<Rightarrow> None | n # _ \<Rightarrow> Some n)"
proof -
  show f: "filter (has_id e) (nodes g) = stored_nodes g l e"
    using assms by (auto simp: stored_nodes_def is_entity_def entity_ok_def intro: filter_cong)
  show "find_first (has_id e) (nodes g) = (case stored_nodes g l e of [] \<Rightarrow> None | n # _ \<Rightarrow> Some n)"
    by (simp add: find_first_filter f)
qed

definition node_claims :: "gnode list \<Rightarrow> existing_claims" where
  "node_claims ns = (case ns of [] \<Rightarrow> \<lparr>x_claims = [], x_claimsRev = 0\<rparr>
     | n # _ \<Rightarrow> \<lparr>x_claims = stored_claims n, x_claimsRev = rev_of n\<rparr>)"

lemma entity_ok_claims: "entity_ok l e g \<Longrightarrow> getExistingClaims g e = node_claims (stored_nodes g l e)"
  by (simp add: getExistingClaims_def entity_ok_find(2) node_claims_def stored_claims_def split: list.split)

lemma stored_claims_row:
  "stored_claims (fst (merge_row node cs ps r n)) =
     (if claimsWritten (snd (merge_row node cs ps r n)) then cs else stored_claims n)"
  "rev_of (fst (merge_row node cs ps r n)) =
     (if claimsWritten (snd (merge_row node cs ps r n)) then rev_of n + 1 else rev_of n)"
  "claimsWritten (snd (merge_row node cs ps r n)) \<Longrightarrow> rev_of n = r"
  by (rule merge_row_cases [of n node cs ps r]; simp add: stored_claims_def)+

lemma mergeNode_labels:
  assumes "\<forall>n \<in> set (nodes g). has_id e n \<longrightarrow> g_label n = l"
    and "n_id node = e" "sanitizeLabel (n_label node) = l" "keeps_id node ps"
    and "m \<in> set (nodes (fst (mergeNode g node cs ps r)))" "has_id e m"
  shows "g_label m = l"
proof -
  obtain n where n: "n \<in> set (nodes g) \<or> n = fresh_node l e"
    "m = (if is_entity l e n then fst (merge_row node cs ps r n) else n)"
  proof -
    let ?f = "\<lambda>n. if is_entity l e n then fst (merge_row node cs ps r n) else n"
    let ?ns = "if \<exists>n \<in> set (nodes g). is_entity l e n then nodes g else nodes g @ [fresh_node l e]"
    have "nodes (fst (mergeNode g node cs ps r)) = map ?f ?ns"
      using assms(2,3) by (simp add: mergeNode_def Let_def)
    then have "m \<in> ?f ` set ?ns" using assms(5) by (simp only: set_map)
    then obtain n where "n \<in> set ?ns" "m = ?f n" by (elim imageE)
    moreover then have "n \<in> set (nodes g) \<or> n = fresh_node l e" by (auto split: if_splits)
    ultimately show ?thesis by (intro that)
  qed
  show ?thesis
  proof (cases "is_entity l e n")
    case True
    then show ?thesis using n(2) merge_row_label by (simp add: is_entity_def)
  next
    case False
    then have "n \<in> set (nodes g)" "m = n" using n by auto
    then show ?thesis using assms(1,6) by simp
  qed
qed

lemma mergeNode_entity:
  assumes ok: "entity_ok l e g" and nd: "n_id node = e" "sanitizeLabel (n_label node) = l" and k: "keeps_id node ps"
    and cs: "\<forall>c \<in> set cs. property_key c \<noteq> ''id''"
  shows "entity_ok l e (fst (mergeNode g node cs ps r))"
    "getExistingClaims (fst (mergeNode g node cs ps r)) e =
      (if claimsWritten (snd (mergeNode g node cs ps r))
       then \<lparr>x_claims = cs, x_claimsRev = r + 1\<rparr> else getExistingClaims g e)"
    "claimsWritten (snd (mergeNode g node cs ps r)) \<Longrightarrow> x_claimsRev (getExistingClaims g e) = r"
proof -
  let ?g = "fst (mergeNode g node cs ps r)"
  let ?ns = "stored_nodes g l e"
  let ?n = "case ?ns of [] \<Rightarrow> fresh_node l e | n # _ \<Rightarrow> n"
  have len: "length ?ns \<le> 1" using ok entity_ok_find(1) [OF ok] by (simp add: entity_ok_def)
  have s: "stored_nodes ?g l e = [fst (merge_row node cs ps r ?n)]"
    using len by (cases ?ns) (simp_all add: stored_nodes_merge [OF k] nd)
  have res: "snd (mergeNode g node cs ps r) = snd (merge_row node cs ps r ?n)"
    using nd by (auto simp: mergeNode_result)
  have old: "getExistingClaims g e = \<lparr>x_claims = stored_claims ?n, x_claimsRev = rev_of ?n\<rparr>"
    by (simp add: entity_ok_claims [OF ok] node_claims_def fresh_node_def stored_claims_def rev_of_def split: list.split)
  have lab: "\<forall>m \<in> set (nodes ?g). has_id e m \<longrightarrow> g_label m = l"
    using mergeNode_labels [OF _ nd k] ok by (auto simp: entity_ok_def)
  then have filt: "filter (has_id e) (nodes ?g) = stored_nodes ?g l e"
    by (auto simp: stored_nodes_def is_entity_def intro: filter_cong)
  then have new: "getExistingClaims ?g e = node_claims (stored_nodes ?g l e)"
    by (simp add: getExistingClaims_def find_first_filter node_claims_def stored_claims_def split: list.split)
  show upd: "getExistingClaims ?g e = (if claimsWritten (snd (mergeNode g node cs ps r))
       then \<lparr>x_claims = cs, x_claimsRev = r + 1\<rparr> else getExistingClaims g e)"
    using stored_claims_row [of node cs ps r ?n] by (simp add: new s node_claims_def res old)
  show "claimsWritten (snd (mergeNode g node cs ps r)) \<Longrightarrow> x_claimsRev (getExistingClaims g e) = r"
    using stored_claims_row(3) [of node cs ps r ?n] by (simp add: res old)
  have "\<forall>c \<in> set (x_claims (getExistingClaims ?g e)). property_key c \<noteq> ''id''"
    using cs ok by (simp add: upd entity_ok_def)
  then show "entity_ok l e ?g" using lab filt s by (simp add: entity_ok_def)
qed

section \<open>Merging keeps other claims\<close>

lemma merge_keeps:
  "c \<in> set m \<Longrightarrow> \<forall>d \<in> set inc. slot d \<noteq> slot c \<Longrightarrow> c \<in> set (mergeClaims m inc)"
proof (induction inc arbitrary: m)
  case (Cons d inc)
  have "c \<in> set (merge_one m d)" using Cons.prems by (intro merge_one_keeps) auto
  then show ?case using Cons.IH [of "merge_one m d"] Cons.prems by (simp add: mergeClaims_foldl)
qed simp

lemma merge_subset: "set (mergeClaims m inc) \<subseteq> set m \<union> set inc"
proof (induction m inc rule: mergeClaims.induct)
  case (2 m d inc)
  then show ?case by (auto split: option.splits dest!: set_update_subset_insert [THEN subsetD] subsetD)
qed simp

lemma resolve_no_key:
  assumes "resolve opts ex inc now = (m, p)" "\<forall>c \<in> set ex \<union> set inc. property_key c \<noteq> k"
  shows "m = mergeClaims ex inc" "p k = None"
proof -
  show m: "m = mergeClaims ex inc" using assms(1) by (simp add: resolve_def Let_def)
  have "filter (\<lambda>c. property_key c = k) m = []"
    using assms(2) merge_subset [of ex inc] by (auto simp: m filter_empty_conv)
  then have "map_of (fold (\<lambda>c m. group_add m c) m []) k = None \<and> distinct (map fst (fold (\<lambda>c m. group_add m c) m []))"
    using group_all [of "[]" m k] by (simp add: Let_def)
  moreover have "p = effective_properties opts now (fold (\<lambda>c m. group_add m c) m [])"
    using assms(1) by (auto simp del: effective_properties.simps simp: resolve_def Let_def)
  ultimately show "p k = None" by (simp del: effective_properties.simps add: effective_properties_lookup)
qed

section \<open>Histories\<close>

definition good_run :: "string \<Rightarrow> string \<Rightarrow> claim \<Rightarrow> world \<Rightarrow> bool" where
  "good_run l e c w \<longleftrightarrow> w_history w \<noteq> [] \<and> last (w_history w) = w_graph w \<and>
     sorted_wrt (\<lambda>a b. holds_claim e c a \<longrightarrow> holds_claim e c b) (w_history w) \<and>
     entity_ok l e (w_graph w) \<and> (\<forall>f \<in> set (w_pending w). polite l e c f)"

lemma sorted_extend:
  assumes "sorted_wrt (\<lambda>a b. P a \<longrightarrow> P b) h" "h \<noteq> []" "P (last h) \<longrightarrow> P x" "P x \<longrightarrow> P y"
  shows "sorted_wrt (\<lambda>a b. P a \<longrightarrow> P b) (h @ [x, y])"
proof -
  obtain h' z where h: "h = h' @ [z]" using assms(2) by (metis append_butlast_last_id)
  then show ?thesis using assms by (auto simp: sorted_wrt_append)
qed

lemma next_polite: "good_run l e c w \<Longrightarrow> polite l e c (next_transaction w)"
  by (auto simp: next_transaction_def good_run_def polite_id split: list.split)

lemma next_ok:
  assumes "good_run l e c w"
  shows "entity_ok l e (next_transaction w (w_graph w))"
    "holds_claim e c (w_graph w) \<longrightarrow> holds_claim e c (next_transaction w (w_graph w))"
    "getExistingClaims (next_transaction w (w_graph w)) e = getExistingClaims (w_graph w) e \<or>
      x_claimsRev (getExistingClaims (w_graph w) e) < x_claimsRev (getExistingClaims (next_transaction w (w_graph w)) e)"
  using next_polite [OF assms] assms by (auto simp: polite_def good_run_def)

lemma good_interleaved:
  assumes "good_run l e c w" "m (next_transaction w (w_graph w)) = (r, g)" "entity_ok l e g"
    and "holds_claim e c (next_transaction w (w_graph w)) \<longrightarrow> holds_claim e c g"
  shows "good_run l e c (snd (interleaved m w))" "w_graph (snd (interleaved m w)) = g"
    "fst (interleaved m w) = r"
proof -
  have i: "interleaved m w = (r, \<lparr>w_graph = g, w_pending = tl (w_pending w),
      w_history = w_history w @ [next_transaction w (w_graph w), g]\<rparr>)"
    by (simp add: interleaved_def Let_def assms(2))
  show "w_graph (snd (interleaved m w)) = g" "fst (interleaved m w) = r" by (simp_all add: i)
  have "sorted_wrt (\<lambda>a b. holds_claim e c a \<longrightarrow> holds_claim e c b) (w_history w @ [next_transaction w (w_graph w), g])"
    using assms(1,4) next_ok(2) [OF assms(1)] by (intro sorted_extend) (auto simp: good_run_def)
  then show "good_run l e c (snd (interleaved m w))"
    using assms(1,3) list.set_sel(2) [of "w_pending w"] by (cases "w_pending w") (auto simp: i good_run_def)
qed

text \<open>A read sees the graph after the transaction before it, and changes nothing.\<close>

lemma interleaved_read:
  assumes "good_run l e c w"
  obtains w' where "interleaved (atomically (\<lambda>g. (g, f g))) w = (Inr (f (w_graph w')), w')" "good_run l e c w'"
proof -
  let ?m = "atomically (\<lambda>g. (g, f g))"
  let ?g = "next_transaction w (w_graph w)"
  have m: "?m ?g = (Inr (f ?g), ?g)" by (simp add: atomically_def)
  note i = good_interleaved [where m = ?m, OF assms m next_ok(1) [OF assms]]
  show ?thesis
    by (rule that [of "snd (interleaved ?m w)"]) (use i in \<open>simp_all add: prod_eq_iff\<close>)
qed

text \<open>The writer's own write keeps every claim that was there when it commits.\<close>

lemma interleaved_write:
  assumes g: "good_run l e c w" and nd: "n_id node = e" "sanitizeLabel (n_label node) = l"
    and k: "map_of (n_properties node) ''id'' = None"
    and inc: "\<forall>d \<in> set inc. slot d \<noteq> slot c \<and> property_key d \<noteq> ''id''"
    and r: "resolve opts (x_claims (getExistingClaims (w_graph w) e)) inc now = (m, p)"
  obtains res w' where "interleaved (atomically (\<lambda>g. mergeNode g node m p (x_claimsRev (getExistingClaims (w_graph w) e)))) w =
      (Inr res, w')" "good_run l e c w'"
proof -
  let ?x = "getExistingClaims (w_graph w) e" let ?g = "next_transaction w (w_graph w)"
  let ?m = "atomically (\<lambda>g. mergeNode g node m p (x_claimsRev ?x))"
  have old: "\<forall>d \<in> set (x_claims ?x). property_key d \<noteq> ''id''" using g by (simp add: good_run_def entity_ok_def)
  then have mp: "m = mergeClaims (x_claims ?x) inc" "p ''id'' = None"
    using resolve_no_key [OF r] inc by blast+
  then have keep: "keeps_id node p" using k by (simp add: keeps_id_def)
  have noid: "\<forall>d \<in> set m. property_key d \<noteq> ''id''"
    using old inc merge_subset [of "x_claims ?x" inc] by (auto simp: mp)
  obtain g2 res where g2: "mergeNode ?g node m p (x_claimsRev ?x) = (g2, res)" by (cases "mergeNode ?g node m p (x_claimsRev ?x)")
  note e = mergeNode_entity [OF next_ok(1) [OF g] nd keep noid, where r = "x_claimsRev ?x", unfolded g2 fst_conv snd_conv]
  have "holds_claim e c ?g \<longrightarrow> holds_claim e c g2"
  proof (cases "claimsWritten res")
    case True
    then have "getExistingClaims ?g e = ?x" using e(3) next_ok(3) [OF g] by auto
    then show ?thesis
      using True inc merge_keeps [of c "x_claims ?x" inc] by (auto simp: holds_claim_def e(2) mp(1))
  next
    case False
    then show ?thesis by (simp add: holds_claim_def e(2))
  qed
  moreover have "?m ?g = (Inr res, g2)" by (simp add: atomically_def g2)
  ultimately have i: "good_run l e c (snd (interleaved ?m w))" "fst (interleaved ?m w) = Inr res"
    using good_interleaved [OF g, of ?m "Inr res" g2] e(1) by blast+
  show ?thesis
    by (rule that [of res "snd (interleaved ?m w)"]) (use i in \<open>simp_all add: prod_eq_iff\<close>)
qed

lemma attempts_good:
  assumes nd: "n_id nodeToWrite = e" "sanitizeLabel (n_label nodeToWrite) = l"
    and k: "map_of (n_properties nodeToWrite) ''id'' = None"
    and inc: "\<forall>d \<in> set (n_claims node). slot d \<noteq> slot c \<and> property_key d \<noteq> ''id''"
  shows "good_run l e c w \<Longrightarrow> good_run l e c (snd (write_attempts n
    (interleaved_writer (neo4j_core_writer ttlDays now rate digest num)) node nodeToWrite prev w))"
proof (induction n arbitrary: prev w)
  case (Suc n)
  let ?W = "interleaved_writer (neo4j_core_writer ttlDays now rate digest num)"
  let ?o = "DEFAULT_RESOLVER_OPTIONS\<lparr>resolverDecayRate := rate\<rparr>"
  obtain w1 where w1: "readClaims (nodeWriter ?W) e w = (Inr (getExistingClaims (w_graph w1) e), w1)" "good_run l e c w1"
    by (rule interleaved_read [OF Suc.prems, of "\<lambda>g. getExistingClaims g e"])
      (simp add: interleaved_writer_def neo4j_core_writer_def Neo4jNodeWriter_def)
  let ?x = "getExistingClaims (w_graph w1) e"
  obtain m p where r: "resolve ?o (x_claims ?x) (n_claims node) now = (m, p)"
    by (cases "resolve ?o (x_claims ?x) (n_claims node) now")
  obtain res w2 where w2: "writeNode (nodeWriter ?W) nodeToWrite m p (x_claimsRev ?x) w1 = (Inr res, w2)" "good_run l e c w2"
    by (rule interleaved_write [OF w1(2) nd k inc r])
      (simp add: interleaved_writer_def neo4j_core_writer_def Neo4jNodeWriter_def)
  have o1: "resolverOptions ?W = ?o" "clock ?W w1 = now" by (simp_all add: interleaved_writer_def neo4j_core_writer_def)
  have "write_attempts (Suc n) ?W node nodeToWrite prev w =
      (if \<not> claimsConflict res then op_return (written res, False)
       else write_attempts n ?W node nodeToWrite (written res, True)) w2"
    by (simp add: nd w1 w2 o1 r)
  then show ?case using Suc.IH [OF w2(2)] w2(2) by simp
qed simp

section \<open>Edits of the API server are polite\<close>

lemma edit_nodes:
  "nodes (writeClaims (bump_all g e) e cs) =
    map (\<lambda>n. if has_id e n then (bump_rev n)\<lparr>g_claims := Some (Encoded cs)\<rparr> else n) (nodes g)"
  by (simp add: writeClaims_def bump_all_def)

lemma edit_entity_ok:
  assumes "entity_ok l e g" "\<forall>c \<in> set cs. property_key c \<noteq> ''id''" "claims_at g e = Some (cs0, r)"
  shows "entity_ok l e (writeClaims (bump_all g e) e cs)"
proof -
  let ?f = "\<lambda>n. if has_id e n then (bump_rev n)\<lparr>g_claims := Some (Encoded cs)\<rparr> else n"
  have f: "has_id e (?f n) = has_id e n" "g_label (?f n) = g_label n" for n
    by (simp_all add: bump_rev_def has_id_def)
  have "filter (has_id e) (map ?f (nodes g)) = map ?f (filter (has_id e) (nodes g))"
    by (rule filter_map_keep) (simp add: f)
  then have len: "length (filter (has_id e) (map ?f (nodes g))) \<le> 1" using assms(1) by (simp add: entity_ok_def)
  have lab: "\<forall>n \<in> set (map ?f (nodes g)). has_id e n \<longrightarrow> g_label n = l"
    using assms(1) by (auto simp: entity_ok_def bump_rev_def)
  have x: "x_claims (getExistingClaims (writeClaims (bump_all g e) e cs) e) = cs"
    by (simp add: getExistingClaims_at claims_at_edit assms(3))
  show ?thesis
    unfolding entity_ok_def x by (intro conjI assms(2); unfold edit_nodes; rule lab len)
qed

lemma edits_polite:
  assumes shape: "\<And>g res st'. run (g, []) = (res, st') \<Longrightarrow> st' = (g, []) \<or> edits e f (g, []) st'"
    and keep: "\<And>cs. c \<in> set cs \<Longrightarrow> c \<in> set (f cs)"
    and noid: "\<And>cs. \<forall>d \<in> set cs. property_key d \<noteq> ''id'' \<Longrightarrow> \<forall>d \<in> set (f cs). property_key d \<noteq> ''id''"
  shows "polite l e c (\<lambda>g. fst (snd (run (g, []))))"
  unfolding polite_def
proof (intro allI impI)
  fix g
  assume ok: "entity_ok l e g"
  obtain res st' where run: "run (g, []) = (res, st')" by (cases "run (g, [])")
  show "entity_ok l e (fst (snd (run (g, [])))) \<and>
     (getExistingClaims (fst (snd (run (g, [])))) e = getExistingClaims g e \<or>
      x_claimsRev (getExistingClaims g e) < x_claimsRev (getExistingClaims (fst (snd (run (g, [])))) e)) \<and>
     (holds_claim e c g \<longrightarrow> holds_claim e c (fst (snd (run (g, [])))))"
  proof (cases "st' = (g, [])")
    case True
    then show ?thesis using ok by (simp add: run)
  next
    case False
    then obtain cs r where cs: "claims_at g e = Some (cs, r)" "fst st' = writeClaims (bump_all g e) e (f cs)"
      using shape [OF run] by (auto simp: edits_def)
    have x: "getExistingClaims g e = \<lparr>x_claims = cs, x_claimsRev = r\<rparr>"
      "getExistingClaims (fst st') e = \<lparr>x_claims = f cs, x_claimsRev = r + 1\<rparr>"
      by (simp_all add: getExistingClaims_at claims_at_edit cs)
    have "\<forall>d \<in> set (f cs). property_key d \<noteq> ''id''" using ok noid [of cs] by (simp add: entity_ok_def x)
    then have "entity_ok l e (fst st')" using edit_entity_ok [OF ok _ cs(1)] by (simp add: cs(2))
    then show ?thesis using keep by (simp add: run x holds_claim_def)
  qed
qed

text \<open>An edit keeps every claim but the actor's own on the property, and keeps the one it writes.\<close>

lemma manual_edit_polite:
  assumes "sm_entityId inp = e" "sm_propertyKey inp \<noteq> ''id''" "sm_value inp = JStr v" "sm_evidence inp = JNull"
    and "\<not> own_claim (''manual:'' @ sm_actor inp) (sm_propertyKey inp) c \<or> c = manual_claim inp v None now"
  shows "polite l e c (\<lambda>g. fst (snd (setManualClaim sch inp now (g, []))))"
proof (rule edits_polite)
  fix g res st'
  assume "setManualClaim sch inp now (g, []) = (res, st')"
  then have "set_manual_tx sch inp v None now (g, []) = (res, st')"
    using assms(3,4) by (simp add: setManualClaim_def)
  from set_manual_tx_edits [OF this]
  show "st' = (g, []) \<or> edits e (\<lambda>cs. without_own (''manual:'' @ sm_actor inp) (sm_propertyKey inp) cs @
      [manual_claim inp v None now]) (g, []) st'" using assms(1) by auto
next
  fix cs
  show "c \<in> set cs \<Longrightarrow> c \<in> set (without_own (''manual:'' @ sm_actor inp) (sm_propertyKey inp) cs @ [manual_claim inp v None now])"
    using assms(5) by (auto simp: without_own_def)
  show "\<forall>d \<in> set cs. property_key d \<noteq> ''id'' \<Longrightarrow> \<forall>d \<in> set (without_own (''manual:'' @ sm_actor inp) (sm_propertyKey inp) cs @
      [manual_claim inp v None now]). property_key d \<noteq> ''id''"
    using assms(2) by (auto simp: without_own_def manual_claim_def)
qed

section \<open>Property\<close>

text \<open>
  C1: No lost update. Run the claims loop of the writer, any number of attempts, while other
  writers commit arbitrary transactions between its calls, as long as each of them advances
  \<open>_claims_rev\<close> when it changes the claims of the entity and does not itself remove the claim
  in question. Then a claim that is stored in any graph of the history is stored in every later
  one, unless the delivery carries a new version of that very claim.
\<close>

theorem no_lost_update:
  assumes "entity_ok l e g" "\<forall>f \<in> set txs. polite l e c f"
    and "n_id nodeToWrite = e" "sanitizeLabel (n_label nodeToWrite) = l"
    and "map_of (n_properties nodeToWrite) ''id'' = None"
    and "\<forall>d \<in> set (n_claims node). slot d \<noteq> slot c \<and> property_key d \<noteq> ''id''"
    and "write_attempts n (interleaved_writer (neo4j_core_writer ttlDays now rate digest num)) node nodeToWrite prev
      \<lparr>w_graph = g, w_pending = txs, w_history = [g]\<rparr> = (out, w)"
  shows "sorted_wrt (\<lambda>a b. holds_claim e c a \<longrightarrow> holds_claim e c b) (w_history w) \<and> last (w_history w) = w_graph w"
proof -
  have "good_run l e c \<lparr>w_graph = g, w_pending = txs, w_history = [g]\<rparr>"
    using assms(1,2) by (simp add: good_run_def)
  from attempts_good [OF assms(3-6) this, of n ttlDays now rate digest num prev] show ?thesis
    by (simp add: assms(7) good_run_def)
qed


text \<open>A manual edit that commits between the read and the write of the first attempt.\<close>

definition raced_delivery :: "(string + bool \<times> bool) \<times> world" where
  "raced_delivery = write_attempts CLAIMS_REV_MAX_RETRIES
     (interleaved_writer (neo4j_core_writer 30 0 0 (\<lambda>_. ''d'') (\<lambda>_. ''1'')))
     (sample_node sample_id ''github://acme/a'') (sample_node sample_id ''github://acme/a'') (False, False)
     \<lparr>w_graph = sample_graph,
      w_pending = [\<lambda>g. g, \<lambda>g. fst (snd (setManualClaim None sample_set sample_now (g, [])))],
      w_history = [sample_graph]\<rparr>"

theorem no_lost_update_witness:
  "holds_claim sample_id (manual_claim sample_set ''1'' None sample_now) (w_graph (snd raced_delivery)) \<and>
    \<not> holds_claim sample_id (manual_claim sample_set ''1'' None sample_now) sample_graph"
proof -
  let ?c = "manual_claim sample_set ''1'' None sample_now" let ?n = "sample_node sample_id ''github://acme/a''"
  have ok: "entity_ok ''Repository'' sample_id sample_graph" by code_simp
  have p: "polite ''Repository'' sample_id ?c (\<lambda>g. fst (snd (setManualClaim None sample_set sample_now (g, []))))"
    by (rule manual_edit_polite [where v = "''1''"]) (simp_all add: sample_set_def)
  then have ps: "\<forall>f \<in> set [\<lambda>g. g, \<lambda>g. fst (snd (setManualClaim None sample_set sample_now (g, [])))].
      polite ''Repository'' sample_id ?c f" by (simp add: polite_id)
  have n: "n_id ?n = sample_id" "sanitizeLabel (n_label ?n) = ''Repository''" "map_of (n_properties ?n) ''id'' = None"
    "\<forall>d \<in> set (n_claims ?n). slot d \<noteq> slot ?c \<and> property_key d \<noteq> ''id''" by code_simp+
  obtain out w where w: "raced_delivery = (out, w)" by (cases raced_delivery)
  from no_lost_update [OF ok ps n w [unfolded raced_delivery_def]]
  have s: "sorted_wrt (\<lambda>a b. holds_claim sample_id ?c a \<longrightarrow> holds_claim sample_id ?c b) (w_history w)"
    "last (w_history w) = w_graph w" by auto
  have "(let h = w_history (snd raced_delivery) in (holds_claim sample_id ?c (h ! 3), length h)) = (True, 9)"
    by code_simp
  then have "holds_claim sample_id ?c (w_history w ! 3)" "length (w_history w) = 9" by (simp_all add: w Let_def)
  moreover from this have "last (w_history w) = w_history w ! 8" by (subst last_conv_nth) auto
  ultimately have "holds_claim sample_id ?c (last (w_history w))"
    using sorted_wrt_nth_less [OF s(1), of 3 8] by simp
  moreover have "\<not> holds_claim sample_id ?c sample_graph" by code_simp
  ultimately show ?thesis using s(2) by (simp add: w)
qed

end
