(* ===== verification/Rows.thy ===== *)
theory Rows
  imports Prelude
begin

text \<open>
  SQL statements on a table that is a list of rows: \<open>UPDATE ... SET ... WHERE\<close>, its
  \<open>RETURNING\<close> clause and the first row of a result.
\<close>

definition update_where :: "('r \<Rightarrow> bool) \<Rightarrow> ('r \<Rightarrow> 'r) \<Rightarrow> 'r list \<Rightarrow> 'r list" where
  "update_where p f rows = map (\<lambda>r. if p r then f r else r) rows"

definition returning :: "('r \<Rightarrow> bool) \<Rightarrow> ('r \<Rightarrow> 'r) \<Rightarrow> 'r list \<Rightarrow> 'r list" where
  "returning p f rows = map f (filter p rows)"

definition first_row :: "'r list \<Rightarrow> 'r option" where
  "first_row rows = (case rows of [] \<Rightarrow> None | r # _ \<Rightarrow> Some r)"

lemma update_where_none: "(\<And>r. r \<in> set rows \<Longrightarrow> \<not> p r) \<Longrightarrow> update_where p f rows = rows"
  by (simp add: update_where_def map_idI)

lemma first_returning: "first_row (returning p f rows) = map_option f (find_first p rows)"
  by (induction rows) (auto simp: first_row_def returning_def)

lemma rows_update: "(\<And>r. r \<in> set rows \<Longrightarrow> p r \<Longrightarrow> R r (f r)) \<Longrightarrow> (\<And>r. R r r) \<Longrightarrow> list_all2 R rows (update_where p f rows)"
  by (auto simp: update_where_def list_all2_conv_all_nth)

lemma update_where_id: "f = (\<lambda>r. r) \<Longrightarrow> update_where p f rows = rows"
  by (simp add: update_where_def)

lemma column_update [simp]: "(\<And>r. c (f r) = c r) \<Longrightarrow> c ` set (update_where p f rows) = c ` set rows"
  unfolding update_where_def set_map image_image by (rule image_cong) auto

lemma set_update_where: "set (update_where p f rows) = (\<lambda>r. if p r then f r else r) ` set rows"
  by (simp add: update_where_def)

lemma map_update_where [simp]: "(\<And>r. c (f r) = c r) \<Longrightarrow> map c (update_where p f rows) = map c rows"
  by (auto simp: update_where_def)

lemma length_update_where [simp]: "length (update_where p f rows) = length rows"
  by (simp add: update_where_def)

lemma update_where_Nil [simp]: "update_where p f [] = []" "update_where p f rows = [] \<longleftrightarrow> rows = []"
  by (simp_all add: update_where_def)

end
