(* ===== verification/Agent_Policy.thy ===== *)
theory Agent_Policy
  imports Prelude
begin

text \<open>
  Agent definitions and what an agent may do with a tool: the instance policy and the granted
  effects (\<open>packages/agents/src/definition.ts\<close>), the policy of a tool and the names the model
  sees (\<open>packages/agents/src/tools.ts\<close>). The shape check of a definition is the third-party
  validator's. Grants are association lists with distinct keys, in the order of the object.
\<close>

datatype grant_policy = Off | Allow | Ask
datatype tool_effect = Read | Write | Delete
datatype run_write_policy = As_Granted | Always_Ask

record agent_limits =
  maxSteps :: nat
  maxTokens :: nat
  timeoutSeconds :: nat
  dailyTokens :: nat

record service_grants =
  grant_read :: grant_policy
  grant_write :: grant_policy
  grant_delete :: grant_policy

record agent_definition =
  ad_instructions :: string
  ad_model :: string
  ad_effort :: "string option"
  ad_limits :: agent_limits
  ad_services :: "(string \<times> service_grants) list"
  ad_tools :: "(string \<times> grant_policy) list"
  ad_output_schema :: jsval

fun grant_for :: "service_grants \<Rightarrow> tool_effect \<Rightarrow> grant_policy" where
  "grant_for g Read = grant_read g"
| "grant_for g Write = grant_write g"
| "grant_for g Delete = grant_delete g"

section \<open>Definitions against the policy of the instance\<close>

datatype issue_code = UNKNOWN_MODEL | LIMIT_EXCEEDS_CEILING

record definition_issue =
  issue_path :: string
  issue_code :: issue_code
  issue_message :: string

record definition_policy =
  modelKeys :: "string list"
  ceilings :: agent_limits

definition limit_keys :: "(string \<times> (agent_limits \<Rightarrow> nat)) list" where
  "limit_keys = [(''maxSteps'', maxSteps), (''maxTokens'', maxTokens),
     (''timeoutSeconds'', timeoutSeconds), (''dailyTokens'', dailyTokens)]"

definition limit_issue :: "agent_limits \<Rightarrow> agent_limits \<Rightarrow> string \<times> (agent_limits \<Rightarrow> nat) \<Rightarrow> definition_issue list" where
  "limit_issue limits ceils kf =
     (if snd kf limits > snd kf ceils
      then [\<lparr>issue_path = ''limits.'' @ fst kf, issue_code = LIMIT_EXCEEDS_CEILING,
        issue_message = ''limits.'' @ fst kf @ '' is '' @ show_nat (snd kf limits) @
          ''; this instance allows at most '' @ show_nat (snd kf ceils) @ ''.''\<rparr>]
      else [])"

definition quoted :: "string \<Rightarrow> string" where
  "quoted s = [CHR 0x22] @ s @ [CHR 0x22]"

definition checkDefinitionAgainstPolicy :: "agent_definition \<Rightarrow> definition_policy \<Rightarrow> definition_issue list" where
  "checkDefinitionAgainstPolicy d policy =
     (if ad_model d \<notin> set (modelKeys policy)
      then [\<lparr>issue_path = ''model'', issue_code = UNKNOWN_MODEL,
        issue_message = (if length (modelKeys policy) = 0
          then ''Model '' @ quoted (ad_model d) @ '' is not available: this instance has no models configured (ai.models).''
          else ''Model '' @ quoted (ad_model d) @ '' is not one of: '' @ join '', '' (modelKeys policy) @ ''.'')\<rparr>]
      else [])
     @ concat (map (limit_issue (ad_limits d) (ceilings policy)) limit_keys)"

definition grantedServiceEffects :: "agent_definition \<Rightarrow> (string \<times> tool_effect) list" where
  "grantedServiceEffects d =
     (let fromServices = fold (\<lambda>(service, grants) out.
            fold (\<lambda>effect out. if grant_for grants effect \<noteq> Off then set_add out (service, effect) else out)
              [Read, Write, Delete] out) (ad_services d) []
      in fold (\<lambda>(toolId, policy) out. if policy \<noteq> Off then set_add out (hd (split_on CHR ''.'' toolId), Write) else out)
           (ad_tools d) fromServices)"

section \<open>Tools\<close>

record tool_descriptor =
  tool_id :: string
  tool_service :: string
  tool_effect :: tool_effect
  tool_description :: string
  tool_inputSchema :: jsval
  effectConfirmed :: bool
  tool_enabled :: bool

record resolved_tool = tool_descriptor +
  tool_policy :: grant_policy
  modelName :: string

definition name_char :: "char \<Rightarrow> bool" where
  "name_char c = (is_lower c \<or> is_upper c \<or> is_digit c \<or> c = CHR ''_'' \<or> c = CHR ''-'')"

text \<open>\<open>/^[a-zA-Z_][a-zA-Z0-9_-]{0,63}$/\<close>.\<close>

definition model_name_ok :: "string \<Rightarrow> bool" where
  "model_name_ok s = (case s of [] \<Rightarrow> False
     | c # cs \<Rightarrow> (is_lower c \<or> is_upper c \<or> c = CHR ''_'') \<and> list_all name_char cs \<and> length cs \<le> 63)"

fun replace_dot :: "string \<Rightarrow> string" where
  "replace_dot [] = []"
| "replace_dot (c # cs) = (if c = CHR ''.'' then ''__'' @ cs else c # replace_dot cs)"

definition modelToolName :: "(string \<Rightarrow> string) \<Rightarrow> string \<Rightarrow> string" where
  "modelToolName digest toolId =
     (let plain = replace_dot toolId in
      if model_name_ok plain then plain
      else take 64 (''t_'' @ take 8 (digest toolId) @ ''_'' @ map (\<lambda>c. if name_char c then c else CHR ''_'') plain))"

definition granted_policy :: "agent_definition \<Rightarrow> tool_descriptor \<Rightarrow> tool_effect \<Rightarrow> grant_policy" where
  "granted_policy d tool effect =
     (case map_of (ad_tools d) (tool_id tool) of
        Some p \<Rightarrow> p
      | None \<Rightarrow> (case map_of (ad_services d) (tool_service tool) of
          Some g \<Rightarrow> grant_for g effect | None \<Rightarrow> Off))"

definition resolvePolicy :: "agent_definition \<Rightarrow> tool_descriptor \<Rightarrow> run_write_policy \<Rightarrow> grant_policy" where
  "resolvePolicy d tool writePolicy =
     (if \<not> tool_enabled tool then Off
      else let effect = (if effectConfirmed tool then tool_effect tool else Write);
               policy = granted_policy d tool effect in
        if policy = Off then Off
        else if \<not> effectConfirmed tool then Ask
        else let policy1 = (if effect = Delete \<and> policy = Allow then Ask else policy) in
          if writePolicy = Always_Ask \<and> effect \<noteq> Read \<and> policy1 = Allow then Ask else policy1)"

definition resolved :: "(string \<Rightarrow> string) \<Rightarrow> tool_descriptor \<Rightarrow> grant_policy \<Rightarrow> resolved_tool" where
  "resolved digest tool policy =
     tool_descriptor.extend tool \<lparr>tool_policy = policy, modelName = modelToolName digest (tool_id tool)\<rparr>"

definition resolveTools ::
    "(string \<Rightarrow> string) \<Rightarrow> agent_definition \<Rightarrow> tool_descriptor list \<Rightarrow> run_write_policy \<Rightarrow> resolved_tool list \<times> string list" where
  "resolveTools digest d catalog writePolicy =
     (List.map_filter (\<lambda>tool. let policy = resolvePolicy d tool writePolicy in
          if policy \<noteq> Off then Some (resolved digest tool policy) else None) catalog,
      map (\<lambda>i. ''The grant for '' @ i @ '' was ignored: no such tool is available.'')
        (filter (\<lambda>i. i \<notin> tool_id ` set catalog) (map fst (ad_tools d))))"

section \<open>Facts\<close>

lemma resolved_fields [simp]:
  "tool_id (resolved digest t p) = tool_id t" "tool_effect (resolved digest t p) = tool_effect t"
  "effectConfirmed (resolved digest t p) = effectConfirmed t" "tool_enabled (resolved digest t p) = tool_enabled t"
  "tool_policy (resolved digest t p) = p" "modelName (resolved digest t p) = modelToolName digest (tool_id t)"
  "tool_service (resolved digest t p) = tool_service t"
  by (simp_all add: resolved_def tool_descriptor.extend_def)

lemma resolveTools_member:
  "r \<in> set (fst (resolveTools digest d catalog wp)) \<longleftrightarrow>
    (\<exists>t \<in> set catalog. resolvePolicy d t wp \<noteq> Off \<and> r = resolved digest t (resolvePolicy d t wp))"
  by (induction catalog) (auto simp: resolveTools_def map_filter_simps Let_def)

lemma resolvePolicy_allow:
  "resolvePolicy d t wp = Allow \<Longrightarrow> tool_enabled t \<and> effectConfirmed t \<and> tool_effect t \<noteq> Delete \<and>
    (wp = Always_Ask \<longrightarrow> tool_effect t = Read) \<and> granted_policy d t (tool_effect t) = Allow"
  by (auto simp: resolvePolicy_def Let_def split: if_splits)

lemma resolvePolicy_off:
  "resolvePolicy d t wp = Off \<longleftrightarrow>
    \<not> tool_enabled t \<or> granted_policy d t (if effectConfirmed t then tool_effect t else Write) = Off"
  by (auto simp: resolvePolicy_def Let_def)

section \<open>Names\<close>

text \<open>A valid tool id: a service without underscores, a dot, a tool name.\<close>

definition service_char :: "char \<Rightarrow> bool" where
  "service_char c = (is_lower c \<or> is_digit c \<or> c = CHR ''-'')"

definition tool_id_ok :: "string \<Rightarrow> bool" where
  "tool_id_ok i \<longleftrightarrow> (\<exists>s t. i = s @ CHR ''.'' # t \<and> s \<noteq> [] \<and> list_all service_char s \<and> CHR ''.'' \<notin> set t)"

lemma service_char_simps: "\<not> service_char CHR ''_''" "\<not> service_char CHR ''.''"
  by (simp_all add: service_char_def is_lower_def is_digit_def)

lemma replace_dot_id: "list_all service_char s \<Longrightarrow> replace_dot (s @ CHR ''.'' # t) = s @ ''__'' @ t"
  by (induction s) (auto simp: service_char_simps)

lemma service_split:
  "list_all service_char s \<Longrightarrow> list_all service_char s' \<Longrightarrow> s @ CHR ''_'' # t = s' @ CHR ''_'' # t' \<Longrightarrow> s = s' \<and> t = t'"
proof (induction s arbitrary: s')
  case Nil
  then show ?case by (cases s') (auto simp: service_char_simps)
next
  case (Cons c s)
  then show ?case by (cases s') (auto simp: service_char_simps)
qed

lemma replace_dot_inj:
  assumes "tool_id_ok i" "tool_id_ok j" "replace_dot i = replace_dot j"
  shows "i = j"
proof -
  obtain s t s' t' where i: "i = s @ CHR ''.'' # t" "list_all service_char s"
    and j: "j = s' @ CHR ''.'' # t'" "list_all service_char s'"
    using assms(1,2) by (auto simp: tool_id_ok_def)
  have "s @ CHR ''_'' # CHR ''_'' # t = s' @ CHR ''_'' # CHR ''_'' # t'"
    using assms(3) replace_dot_id [OF i(2)] replace_dot_id [OF j(2)] by (simp add: i j)
  then show ?thesis using service_split [OF i(2) j(2)] by (auto simp: i j)
qed

text \<open>A hashed name and a plain name differ in their third character.\<close>

definition hex_char :: "char \<Rightarrow> bool" where
  "hex_char c = (is_digit c \<or> c \<in> set ''abcdef'')"

lemma plain_not_hashed:
  assumes "tool_id_ok i" "hex_char h"
  shows "take 3 (replace_dot i) \<noteq> [CHR ''t'', CHR ''_'', h]"
proof -
  obtain s t where i: "i = s @ CHR ''.'' # t" "list_all service_char s" "s \<noteq> []"
    using assms(1) by (auto simp: tool_id_ok_def)
  obtain c cs where s: "s = c # cs" using i(3) by (cases s) auto
  have r: "replace_dot i = c # cs @ CHR ''_'' # CHR ''_'' # t"
    using replace_dot_id [OF i(2)] by (simp add: i(1) s)
  have "h \<noteq> CHR ''_''" using assms(2) by (auto simp: hex_char_def is_digit_def)
  then show ?thesis
    using i(2) by (cases cs) (auto simp: r s service_char_simps)
qed

definition hex_digest :: "(string \<Rightarrow> string) \<Rightarrow> bool" where
  "hex_digest digest \<longleftrightarrow> (\<forall>i. 8 \<le> length (digest i) \<and> list_all hex_char (digest i))"

lemma hashed_prefix:
  assumes "hex_digest digest" "\<not> model_name_ok (replace_dot i)"
  obtains h rest where "modelToolName digest i = ''t_'' @ take 8 (digest i) @ ''_'' @ rest"
    "take 3 (modelToolName digest i) = [CHR ''t'', CHR ''_'', h]" "hex_char h"
proof -
  have l: "8 \<le> length (digest i)" "list_all hex_char (digest i)" using assms(1) by (auto simp: hex_digest_def)
  then obtain h hs where d: "digest i = h # hs" by (cases "digest i") auto
  let ?m = "map (\<lambda>c. if name_char c then c else CHR ''_'') (replace_dot i)"
  have m: "modelToolName digest i = ''t_'' @ take 8 (digest i) @ ''_'' @ take 53 ?m"
    using assms(2) l(1) by (simp add: modelToolName_def Let_def min_def)
  show ?thesis by (rule that [of _ h, OF m]) (use l d in \<open>simp_all add: m\<close>)
qed

lemma modelToolName_distinct:
  assumes "hex_digest digest" "tool_id_ok i" "tool_id_ok j" "i \<noteq> j" "take 8 (digest i) \<noteq> take 8 (digest j)"
  shows "modelToolName digest i \<noteq> modelToolName digest j"
proof -
  have plain: "modelToolName digest k = replace_dot k" if "model_name_ok (replace_dot k)" for k
    using that by (simp add: modelToolName_def Let_def)
  have mixed: "modelToolName digest a \<noteq> modelToolName digest b"
    if ok: "model_name_ok (replace_dot a)" and no: "\<not> model_name_ok (replace_dot b)" and i: "tool_id_ok a" for a b
  proof -
    obtain h where "take 3 (modelToolName digest b) = [CHR ''t'', CHR ''_'', h]" "hex_char h"
      by (rule hashed_prefix [OF assms(1) no])
    then show ?thesis using plain_not_hashed [OF i] plain [OF ok] by metis
  qed
  show ?thesis
  proof (cases "model_name_ok (replace_dot i)")
    case i: True
    then show ?thesis
      using mixed [OF i _ assms(2)] plain replace_dot_inj [OF assms(2,3)] assms(4)
      by (cases "model_name_ok (replace_dot j)") auto
  next
    case i: False
    show ?thesis
    proof (cases "model_name_ok (replace_dot j)")
      case True
      then show ?thesis using mixed [OF _ i assms(3)] by metis
    next
      case j: False
      obtain r where r: "modelToolName digest i = ''t_'' @ take 8 (digest i) @ ''_'' @ r"
        by (rule hashed_prefix [OF assms(1) i])
      obtain q where q: "modelToolName digest j = ''t_'' @ take 8 (digest j) @ ''_'' @ q"
        by (rule hashed_prefix [OF assms(1) j])
      have "length (take 8 (digest k)) = 8" for k
        using assms(1) by (simp add: hex_digest_def)
      then have "length (take 8 (digest i)) = length (take 8 (digest j))" by simp
      then show ?thesis using assms(5) by (auto simp: r q)
    qed
  qed
qed

section \<open>Properties\<close>

text \<open>
  C33: What an agent may do without asking. A tool is offered to the model only when it is
  enabled and granted, and it runs without a person only when its effect is confirmed, is not
  a delete, is a read when the run always asks, and the definition grants exactly that.
\<close>

theorem tool_ceilings:
  assumes "r \<in> set (fst (resolveTools digest d catalog wp))"
  shows "tool_enabled r \<and> tool_policy r \<noteq> Off \<and>
    (tool_policy r = Allow \<longrightarrow> effectConfirmed r \<and> tool_effect r \<noteq> Delete \<and>
      (wp = Always_Ask \<longrightarrow> tool_effect r = Read) \<and>
      (case map_of (ad_tools d) (tool_id r) of Some p \<Rightarrow> p = Allow
       | None \<Rightarrow> \<exists>g. map_of (ad_services d) (tool_service r) = Some g \<and> grant_for g (tool_effect r) = Allow))"
proof -
  obtain t where t: "t \<in> set catalog" "resolvePolicy d t wp \<noteq> Off" "r = resolved digest t (resolvePolicy d t wp)"
    using assms by (auto simp: resolveTools_member)
  then show ?thesis
    using resolvePolicy_allow [of d t wp] resolvePolicy_off [of d t wp]
    by (auto simp: granted_policy_def split: option.splits)
qed

definition sample_tool :: tool_descriptor where
  "sample_tool = \<lparr>tool_id = ''graph.merge'', tool_service = ''graph'', tool_effect = Write,
     tool_description = [], tool_inputSchema = JObj [], effectConfirmed = True, tool_enabled = True\<rparr>"

definition sample_definition :: agent_definition where
  "sample_definition = \<lparr>ad_instructions = [], ad_model = ''m'', ad_effort = None, ad_limits = \<lparr>maxSteps = 5, maxTokens = 1000, timeoutSeconds = 60,
     dailyTokens = 5000\<rparr>, ad_services = [(''graph'', \<lparr>grant_read = Allow, grant_write = Allow, grant_delete = Ask\<rparr>)],
     ad_tools = [], ad_output_schema = JNull\<rparr>"

theorem tool_ceilings_witness:
  "map tool_policy (fst (resolveTools id sample_definition [sample_tool] Always_Ask)) = [Ask] \<and>
    tool_enabled (hd (fst (resolveTools id sample_definition [sample_tool] Always_Ask)))"
proof -
  let ?rs = "fst (resolveTools id sample_definition [sample_tool] Always_Ask)"
  have m: "map tool_policy ?rs = [Ask]" by code_simp
  then have "hd ?rs \<in> set ?rs" by (cases ?rs) auto
  from tool_ceilings [OF this] m show ?thesis by simp
qed

text \<open>
  The model sees distinct names for distinct tools, as long as the digests of their ids
  differ in the first eight digits: the plain name determines the id, and a hashed name is
  never a plain one.
\<close>

theorem tool_names_distinct:
  assumes "hex_digest digest" "distinct (map tool_id catalog)" "\<forall>t \<in> set catalog. tool_id_ok (tool_id t)"
    and "inj_on (\<lambda>t. take 8 (digest (tool_id t))) (set catalog)"
  shows "distinct (map modelName (fst (resolveTools digest d catalog wp)))"
  using assms(2-4)
proof (induction catalog)
  case (Cons t catalog)
  have "modelToolName digest (tool_id t) \<noteq> modelToolName digest (tool_id u)" if "u \<in> set catalog" for u
  proof (rule modelToolName_distinct [OF assms(1)])
    show "take 8 (digest (tool_id t)) \<noteq> take 8 (digest (tool_id u))"
      using Cons.prems(1,3) that by (auto dest: inj_onD)
  qed (use Cons.prems that in auto)
  then have new: "modelToolName digest (tool_id t) \<notin> modelName ` set (fst (resolveTools digest d catalog wp))"
    unfolding image_iff Bex_def resolveTools_member by (metis resolved_fields(6))
  have "distinct (map modelName (fst (resolveTools digest d catalog wp)))"
    using Cons by (auto simp: inj_on_def)
  then show ?case using new by (simp add: resolveTools_def map_filter_simps Let_def)
qed (simp add: resolveTools_def map_filter_simps)

theorem tool_names_distinct_witness:
  "distinct (map modelName (fst (resolveTools (\<lambda>_. ''0123456789abcdef'') sample_definition [sample_tool] As_Granted)))"
proof -
  have "hex_digest (\<lambda>_. ''0123456789abcdef'')" by (simp add: hex_digest_def hex_char_def is_digit_def)
  moreover have "tool_id_ok (tool_id sample_tool)"
    unfolding tool_id_ok_def sample_tool_def
    by (intro exI [of _ "''graph''"] exI [of _ "''merge''"]) (simp add: service_char_def is_lower_def)
  ultimately show ?thesis by (intro tool_names_distinct) auto
qed

end
