(* ===== verification/Run_Store.thy ===== *)
theory Run_Store
  imports Rows Agent_Policy Clock
begin

text \<open>
  The store of agent runs (\<open>packages/agents/src/run-store.ts\<close> with the column defaults of
  \<open>db/migrations/0003_runs.sql\<close>): runs with their leases, the transcript, the audit rows of tool
  calls and the daily usage. Every operation is one statement or one transaction of the
  database, here one function of the store; \<open>now\<close> is the transaction's clock in milliseconds,
  random ids are arguments. The database keeps a uuid in lower case and compares it so; an
  operation that does not test its id is only called with a uuid. An empty parent id, which the
  code lets through, is refused by the database. The foreign key to the agents is not
  modelled.
\<close>

section \<open>Rows\<close>

datatype run_status = Queued | Running | Waiting_Approval | Waiting_Input | Succeeded | Failed | Cancelled
datatype run_mode = Task | Chat
datatype trigger_kind = Manual | Api | Schedule | Webhook | Event | Run_Completed | Workflow | Agent_Tool
datatype run_error_code = BUDGET_EXCEEDED | STEP_LIMIT | TIMEOUT | CONTEXT_EXCEEDED | MODEL_REFUSED
  | MODEL_ERROR | DAILY_LIMIT | INTERNAL
datatype message_role = User | Assistant | Tool
datatype call_status = Pending | Executing | Call_Succeeded | Call_Failed | Denied | Expired | Outcome_Unknown
datatype call_decision = Decide_Allow | Decide_Ask | Decide_Deny

record run_row =
  run_id :: string
  run_agent :: string
  run_version :: "nat option"
  run_definition :: agent_definition
  run_parent :: "string option"
  run_root :: string
  run_depth :: nat
  run_trigger :: trigger_kind
  run_triggered_by :: string
  run_mode :: run_mode
  run_policy :: run_write_policy
  run_status :: run_status
  run_input :: jsval
  run_output :: jsval
  run_error :: "(run_error_code \<times> string) option"
  run_input_tokens :: nat
  run_output_tokens :: nat
  run_steps :: nat
  cancel_requested :: bool
  lease_owner :: "string option"
  lease_expires_at :: "int option"
  run_warnings :: "string list"
  run_created_at :: int
  run_started_at :: "int option"
  run_finished_at :: "int option"
  run_updated_at :: int

record message_row =
  msg_run :: string
  msg_seq :: nat
  msg_role :: message_role
  msg_content :: jsval

record tool_call_row =
  tc_id :: string
  tc_run :: string
  tc_call :: string
  tc_message_seq :: nat
  tc_tool :: string
  tc_service :: "string option"
  tc_effect :: "tool_effect option"
  tc_policy :: grant_policy
  tc_decision :: call_decision
  tc_status :: call_status
  tc_input :: jsval
  tc_output :: jsval
  tc_truncated :: bool
  tc_error :: jsval
  tc_started_at :: int
  tc_finished_at :: "int option"

record run_store =
  runs :: "run_row list"
  run_messages :: "message_row list"
  tool_calls :: "tool_call_row list"
  usage_daily :: "(string \<times> int) \<rightharpoonup> (nat \<times> nat)"

definition empty_store :: run_store where
  "empty_store = \<lparr>runs = [], run_messages = [], tool_calls = [], usage_daily = Map.empty\<rparr>"

datatype store_error = RUN_NOT_FOUND string | RUN_LEASE_LOST string | RUN_NOT_WAITING string run_status
  | CALL_NOT_FOUND string
  | DUPLICATE_KEY string | NOT_A_UUID string | NO_SUCH_ROW string

section \<open>Statements\<close>

definition terminal :: "run_status \<Rightarrow> bool" where
  "terminal st = (st \<in> {Succeeded, Failed, Cancelled})"

definition parked :: "run_status \<Rightarrow> bool" where
  "parked st = (st \<in> {Queued, Waiting_Input, Waiting_Approval})"

definition live :: "run_status \<Rightarrow> bool" where
  "live st = (st \<in> {Queued, Running, Waiting_Input, Waiting_Approval})"

definition hex_digit_char :: "char \<Rightarrow> bool" where
  "hex_digit_char c = (is_digit c \<or> to_lower c \<in> set ''abcdef'')"

definition is_uuid :: "string \<Rightarrow> bool" where
  "is_uuid i = (map length (split_on CHR ''-'' i) = [8, 4, 4, 4, 12] \<and>
     list_all (list_all hex_digit_char) (split_on CHR ''-'' i))"

definition has_run_id :: "string \<Rightarrow> run_row \<Rightarrow> bool" where
  "has_run_id i r = (run_id r = map to_lower i)"

definition owned_by :: "string option \<Rightarrow> run_row \<Rightarrow> bool" where
  "owned_by owner r = (case owner of None \<Rightarrow> True | Some o1 \<Rightarrow> lease_owner r = Some o1)"

definition lease_over :: "int \<Rightarrow> run_row \<Rightarrow> bool" where
  "lease_over now r = (case lease_expires_at r of None \<Rightarrow> False | Some t \<Rightarrow> t < now)"

section \<open>Runs\<close>

record create_run_input =
  cr_agent :: string
  cr_version :: "nat option"
  cr_definition :: agent_definition
  cr_trigger :: trigger_kind
  cr_triggered_by :: string
  cr_mode :: run_mode
  cr_policy :: "run_write_policy option"
  cr_input :: jsval
  cr_messages :: "(message_role \<times> jsval) list"
  cr_parent :: "string option"

definition insertMessages :: "string \<Rightarrow> nat \<Rightarrow> (message_role \<times> jsval) list \<Rightarrow> message_row list" where
  "insertMessages runId firstSeq messages =
     map (\<lambda>(i, (role, content)). \<lparr>msg_run = runId, msg_seq = firstSeq + i, msg_role = role, msg_content = content\<rparr>)
       (enumerate 0 messages)"

definition new_run :: "string \<Rightarrow> create_run_input \<Rightarrow> string \<Rightarrow> nat \<Rightarrow> int \<Rightarrow> run_row" where
  "new_run i inp rootRunId depth now = \<lparr>run_id = map to_lower i, run_agent = map to_lower (cr_agent inp),
     run_version = cr_version inp, run_definition = cr_definition inp,
     run_parent = map_option (map to_lower) (cr_parent inp), run_root = rootRunId, run_depth = depth,
     run_trigger = cr_trigger inp, run_triggered_by = cr_triggered_by inp, run_mode = cr_mode inp,
     run_policy = (case cr_policy inp of Some p \<Rightarrow> p | None \<Rightarrow> As_Granted), run_status = Queued,
     run_input = coalesce (cr_input inp) JNull, run_output = JNull, run_error = None, run_input_tokens = 0,
     run_output_tokens = 0, run_steps = 0, cancel_requested = False, lease_owner = None,
     lease_expires_at = None, run_warnings = [], run_created_at = now, run_started_at = None,
     run_finished_at = None, run_updated_at = now\<rparr>"

definition insert_run :: "create_run_input \<Rightarrow> string \<Rightarrow> string \<Rightarrow> nat \<Rightarrow> int \<Rightarrow> run_store \<Rightarrow> (store_error + run_row) \<times> run_store" where
  "insert_run inp newId rootRunId depth now s =
     (if find_first (has_run_id newId) (runs s) \<noteq> None then (Inl (DUPLICATE_KEY newId), s)
      else (Inr (new_run newId inp rootRunId depth now),
        s\<lparr>runs := runs s @ [new_run newId inp rootRunId depth now],
          run_messages := run_messages s @ insertMessages (map to_lower newId) 0 (cr_messages inp)\<rparr>))"

definition create :: "create_run_input \<Rightarrow> string \<Rightarrow> int \<Rightarrow> run_store \<Rightarrow> (store_error + run_row) \<times> run_store" where
  "create inp newId now s =
     (case cr_parent inp of
        None \<Rightarrow> insert_run inp newId (map to_lower newId) 0 now s
      | Some p \<Rightarrow> if p = [] then (Inl (NOT_A_UUID p), s) else
          (case find_first (has_run_id p) (runs s) of
             None \<Rightarrow> (Inl (RUN_NOT_FOUND p), s)
           | Some parent \<Rightarrow> insert_run inp newId (run_root parent) (run_depth parent + 1) now s))"

definition get_run :: "string \<Rightarrow> run_store \<Rightarrow> run_row option" where
  "get_run i s = (if \<not> is_uuid i then None else find_first (has_run_id i) (runs s))"

record list_options =
  lo_agent :: "string option"
  lo_status :: "run_status option"
  lo_limit :: "int option"
  lo_offset :: "int option"

definition MAX_PAGE :: int where "MAX_PAGE = 200"

definition newest_run_first :: "run_row \<Rightarrow> run_row \<Rightarrow> rat" where
  "newest_run_first a b = (if run_created_at a \<noteq> run_created_at b then of_int (run_created_at b - run_created_at a)
     else text_compare (run_id a) (run_id b))"

definition list_runs :: "list_options \<Rightarrow> run_store \<Rightarrow> run_row list \<times> nat" where
  "list_runs opts s =
     (if (case lo_agent opts of Some a \<Rightarrow> \<not> is_uuid a | None \<Rightarrow> False) then ([], 0)
      else
        let limit = min (max (case lo_limit opts of Some l \<Rightarrow> l | None \<Rightarrow> 50) 1) MAX_PAGE;
            offset = max (case lo_offset opts of Some o1 \<Rightarrow> o1 | None \<Rightarrow> 0) 0;
            hits = filter (\<lambda>r. (case lo_agent opts of Some a \<Rightarrow> run_agent r = map to_lower a | None \<Rightarrow> True) \<and>
              (case lo_status opts of Some st \<Rightarrow> run_status r = st | None \<Rightarrow> True)) (runs s)
        in (take (nat limit) (drop (nat offset) (js_sort newest_run_first hits)), length hits))"

section \<open>Leases\<close>

definition claimable :: "string \<Rightarrow> int \<Rightarrow> run_row \<Rightarrow> bool" where
  "claimable i now r = (has_run_id i r \<and> \<not> cancel_requested r \<and>
     (run_status r = Queued \<or> run_status r = Running \<and> lease_over now r))"

definition take_lease :: "string \<Rightarrow> int \<Rightarrow> int \<Rightarrow> run_row \<Rightarrow> run_row" where
  "take_lease owner leaseSeconds now r = r\<lparr>run_status := Running, lease_owner := Some owner,
     lease_expires_at := Some (now + leaseSeconds * 1000),
     run_started_at := (case run_started_at r of Some t \<Rightarrow> Some t | None \<Rightarrow> Some now),
     run_updated_at := (if run_status r = Queued then now else run_updated_at r)\<rparr>"

definition claim_run :: "string \<Rightarrow> string \<Rightarrow> int \<Rightarrow> int \<Rightarrow> run_store \<Rightarrow> run_row option \<times> run_store" where
  "claim_run i owner leaseSeconds now s =
     (if \<not> is_uuid i then (None, s)
      else (first_row (returning (claimable i now) (take_lease owner leaseSeconds now) (runs s)),
            s\<lparr>runs := update_where (claimable i now) (take_lease owner leaseSeconds now) (runs s)\<rparr>))"

definition holds_lease :: "string \<Rightarrow> string \<Rightarrow> run_row \<Rightarrow> bool" where
  "holds_lease i owner r = (has_run_id i r \<and> lease_owner r = Some owner \<and> run_status r = Running)"

record lease_state =
  held :: bool
  cancelRequested :: bool

definition renewLease :: "string \<Rightarrow> string \<Rightarrow> int \<Rightarrow> int \<Rightarrow> run_store \<Rightarrow> lease_state \<times> run_store" where
  "renewLease i owner leaseSeconds now s =
     (let f = (\<lambda>r. r\<lparr>lease_expires_at := Some (now + leaseSeconds * 1000)\<rparr>) in
      ((case first_row (returning (holds_lease i owner) f (runs s)) of
          Some r \<Rightarrow> \<lparr>held = True, cancelRequested = cancel_requested r\<rparr>
        | None \<Rightarrow> \<lparr>held = False, cancelRequested = False\<rparr>),
       s\<lparr>runs := update_where (holds_lease i owner) f (runs s)\<rparr>))"

definition sorted_ids :: "run_row list \<Rightarrow> string list" where
  "sorted_ids rows = js_sort text_compare (map run_id rows)"

definition expiredLeases :: "int \<Rightarrow> run_store \<Rightarrow> string list" where
  "expiredLeases now s =
     sorted_ids (filter (\<lambda>r. run_status r = Running \<and> lease_over now r \<and> \<not> cancel_requested r) (runs s))"

definition end_run :: "run_status \<Rightarrow> int \<Rightarrow> run_row \<Rightarrow> run_row" where
  "end_run st now r = r\<lparr>run_status := st, run_finished_at := Some now, run_updated_at := now,
     lease_owner := None, lease_expires_at := None\<rparr>"

definition abandoned :: "int \<Rightarrow> run_row \<Rightarrow> bool" where
  "abandoned now r = (run_status r = Running \<and> cancel_requested r \<and> lease_over now r)"

definition cancelAbandoned :: "int \<Rightarrow> run_store \<Rightarrow> string list \<times> run_store" where
  "cancelAbandoned now s = (sorted_ids (returning (abandoned now) (end_run Cancelled now) (runs s)),
     s\<lparr>runs := update_where (abandoned now) (end_run Cancelled now) (runs s)\<rparr>)"

definition stale_queued :: "int \<Rightarrow> int \<Rightarrow> run_row \<Rightarrow> bool" where
  "stale_queued olderThanSeconds now r =
     (run_status r = Queued \<and> run_updated_at r < now - olderThanSeconds * 1000)"

definition requeueStaleQueued :: "int \<Rightarrow> int \<Rightarrow> run_store \<Rightarrow> string list \<times> run_store" where
  "requeueStaleQueued olderThanSeconds now s =
     (let f = (\<lambda>r. r\<lparr>run_updated_at := now\<rparr>); p = stale_queued olderThanSeconds now in
      (sorted_ids (returning p f (runs s)), s\<lparr>runs := update_where p f (runs s)\<rparr>))"

section \<open>The transcript\<close>

definition next_seq :: "string \<Rightarrow> run_store \<Rightarrow> nat" where
  "next_seq i s = fold (\<lambda>m n. if msg_run m = map to_lower i then max n (msg_seq m + 1) else n) (run_messages s) 0"

definition touch_run :: "string \<Rightarrow> int \<Rightarrow> run_store \<Rightarrow> run_store" where
  "touch_run i now s = s\<lparr>runs := update_where (has_run_id i) (\<lambda>r. r\<lparr>run_updated_at := now\<rparr>) (runs s)\<rparr>"

definition appendMessages ::
    "string \<Rightarrow> (message_role \<times> jsval) list \<Rightarrow> string option \<Rightarrow> int \<Rightarrow> run_store \<Rightarrow> (store_error + message_row list) \<times> run_store" where
  "appendMessages i messages owner now s =
     (case find_first (has_run_id i) (runs s) of
        None \<Rightarrow> (Inl (RUN_NOT_FOUND i), s)
      | Some r \<Rightarrow>
          if \<not> owned_by owner r then (Inl (RUN_LEASE_LOST i), s)
          else let new = insertMessages (map to_lower i) (next_seq i s) messages in
            (Inr new, touch_run i now (s\<lparr>run_messages := run_messages s @ new\<rparr>)))"

definition listMessages :: "string \<Rightarrow> int option \<Rightarrow> run_store \<Rightarrow> message_row list" where
  "listMessages i afterSeq s =
     (if \<not> is_uuid i then []
      else js_sort (\<lambda>a b. of_nat (msg_seq a) - of_nat (msg_seq b))
        (filter (\<lambda>m. msg_run m = map to_lower i \<and>
           int (msg_seq m) > (case afterSeq of Some k \<Rightarrow> k | None \<Rightarrow> -1)) (run_messages s)))"

section \<open>Progress\<close>

definition utc_day :: "int \<Rightarrow> int" where "utc_day now = now div 86400000"

definition count_step :: "nat \<Rightarrow> nat \<Rightarrow> int \<Rightarrow> run_row \<Rightarrow> run_row" where
  "count_step inp out now r = r\<lparr>run_steps := run_steps r + 1, run_input_tokens := run_input_tokens r + inp,
     run_output_tokens := run_output_tokens r + out, run_updated_at := now\<rparr>"

definition recordStep :: "string \<Rightarrow> nat \<Rightarrow> nat \<Rightarrow> int \<Rightarrow> run_store \<Rightarrow> (store_error + run_row) \<times> run_store" where
  "recordStep i inp out now s =
     (case first_row (returning (has_run_id i) (count_step inp out now) (runs s)) of
        None \<Rightarrow> (Inl (RUN_NOT_FOUND i), s)
      | Some r \<Rightarrow>
          let k = (run_agent r, utc_day now);
              (a, b) = (case usage_daily s k of Some u \<Rightarrow> u | None \<Rightarrow> (0, 0))
          in (Inr r, s\<lparr>runs := update_where (has_run_id i) (count_step inp out now) (runs s),
                usage_daily := (usage_daily s)(k \<mapsto> (a + inp, b + out))\<rparr>))"

definition add_warning :: "string \<Rightarrow> int \<Rightarrow> run_row \<Rightarrow> run_row" where
  "add_warning warning now r = (if warning \<in> set (run_warnings r) then r
     else r\<lparr>run_warnings := run_warnings r @ [warning], run_updated_at := now\<rparr>)"

definition addWarning :: "string \<Rightarrow> string \<Rightarrow> int \<Rightarrow> run_store \<Rightarrow> (store_error + run_row) \<times> run_store" where
  "addWarning i warning now s =
     (case first_row (returning (has_run_id i) (add_warning warning now) (runs s)) of
        None \<Rightarrow> (Inl (RUN_NOT_FOUND i), s)
      | Some r \<Rightarrow> (Inr r, s\<lparr>runs := update_where (has_run_id i) (add_warning warning now) (runs s)\<rparr>))"

definition tokensOnDay :: "string \<Rightarrow> int \<Rightarrow> run_store \<Rightarrow> nat" where
  "tokensOnDay agentId day s =
     (case usage_daily s (agentId, utc_day day) of Some (a, b) \<Rightarrow> a + b | None \<Rightarrow> 0)"

section \<open>Endings\<close>

datatype run_outcome =
    Outcome_Succeeded jsval
  | Outcome_Failed "run_error_code \<times> string" "jsval option"
  | Outcome_Cancelled "jsval option"

fun outcome_status :: "run_outcome \<Rightarrow> run_status" where
  "outcome_status (Outcome_Succeeded _) = Succeeded"
| "outcome_status (Outcome_Failed _ _) = Failed"
| "outcome_status (Outcome_Cancelled _) = Cancelled"

fun outcome_output :: "run_outcome \<Rightarrow> jsval" where
  "outcome_output (Outcome_Succeeded v) = coalesce v JNull"
| "outcome_output (Outcome_Failed _ v) = (case v of Some x \<Rightarrow> coalesce x JNull | None \<Rightarrow> JNull)"
| "outcome_output (Outcome_Cancelled v) = (case v of Some x \<Rightarrow> coalesce x JNull | None \<Rightarrow> JNull)"

fun outcome_error :: "run_outcome \<Rightarrow> (run_error_code \<times> string) option" where
  "outcome_error (Outcome_Failed e _) = Some e"
| "outcome_error _ = None"

definition finish_row :: "run_outcome \<Rightarrow> int \<Rightarrow> run_row \<Rightarrow> run_row" where
  "finish_row outcome now r = (end_run (outcome_status outcome) now r)
     \<lparr>run_output := outcome_output outcome, run_error := outcome_error outcome\<rparr>"

definition held_by_other :: "string \<Rightarrow> string option \<Rightarrow> run_store \<Rightarrow> bool" where
  "held_by_other i owner s = (case owner of None \<Rightarrow> False
     | Some o1 \<Rightarrow> (case find_first (has_run_id i) (runs s) of None \<Rightarrow> False
        | Some r \<Rightarrow> \<not> terminal (run_status r) \<and> lease_owner r \<noteq> Some o1))"

definition conditional_write ::
    "string \<Rightarrow> string option \<Rightarrow> (run_row \<Rightarrow> bool) \<Rightarrow> (run_row \<Rightarrow> run_row) \<Rightarrow> run_store \<Rightarrow> (store_error + run_row option) \<times> run_store" where
  "conditional_write i owner p f s =
     (let s' = s\<lparr>runs := update_where p f (runs s)\<rparr> in
      case first_row (returning p f (runs s)) of
        Some r \<Rightarrow> (Inr (Some r), s')
      | None \<Rightarrow> if held_by_other i owner s' then (Inl (RUN_LEASE_LOST i), s') else (Inr None, s'))"

definition finish :: "string \<Rightarrow> run_outcome \<Rightarrow> string option \<Rightarrow> int \<Rightarrow> run_store \<Rightarrow> (store_error + run_row option) \<times> run_store" where
  "finish i outcome owner now s =
     conditional_write i owner (\<lambda>r. has_run_id i r \<and> live (run_status r) \<and> owned_by owner r) (finish_row outcome now) s"

definition wait_row :: "int \<Rightarrow> run_row \<Rightarrow> run_row" where
  "wait_row now r = r\<lparr>run_status := (if cancel_requested r then Cancelled else Waiting_Input),
     run_finished_at := (if cancel_requested r then Some now else run_finished_at r),
     run_updated_at := now, lease_owner := None, lease_expires_at := None\<rparr>"

definition waitForInput :: "string \<Rightarrow> string option \<Rightarrow> int \<Rightarrow> run_store \<Rightarrow> (store_error + run_row option) \<times> run_store" where
  "waitForInput i owner now s =
     conditional_write i owner (\<lambda>r. has_run_id i r \<and> run_status r = Running \<and> owned_by owner r) (wait_row now) s"

definition requeue_row :: "int \<Rightarrow> run_row \<Rightarrow> run_row" where
  "requeue_row now r = r\<lparr>run_status := Queued, run_updated_at := now\<rparr>"

definition addUserMessage :: "string \<Rightarrow> message_role \<times> jsval \<Rightarrow> int \<Rightarrow> run_store \<Rightarrow> (store_error + run_row) \<times> run_store" where
  "addUserMessage i message now s =
     (if \<not> is_uuid i then (Inl (RUN_NOT_FOUND i), s)
      else (case find_first (has_run_id i) (runs s) of
          None \<Rightarrow> (Inl (RUN_NOT_FOUND i), s)
        | Some r \<Rightarrow>
            if run_status r \<noteq> Waiting_Input then (Inl (RUN_NOT_WAITING i (run_status r)), s)
            else (Inr (requeue_row now r),
              s\<lparr>run_messages := run_messages s @ insertMessages (map to_lower i) (next_seq i s) [message],
                runs := update_where (has_run_id i) (requeue_row now) (runs s)\<rparr>)))"

definition cancel_row :: "int \<Rightarrow> run_row \<Rightarrow> run_row" where
  "cancel_row now r = r\<lparr>cancel_requested := True,
     run_status := (if parked (run_status r) then Cancelled else run_status r),
     run_finished_at := (if parked (run_status r) then Some now else run_finished_at r), run_updated_at := now\<rparr>"

definition requestCancel :: "string \<Rightarrow> int \<Rightarrow> run_store \<Rightarrow> run_row option \<times> run_store" where
  "requestCancel i now s =
     (if \<not> is_uuid i then (None, s)
      else let p = (\<lambda>r. has_run_id i r \<and> live (run_status r));
               s' = s\<lparr>runs := update_where p (cancel_row now) (runs s)\<rparr> in
        (case first_row (returning p (cancel_row now) (runs s)) of
           Some r \<Rightarrow> (Some r, s') | None \<Rightarrow> (get_run i s', s')))"

definition stalled :: "int \<Rightarrow> run_row \<Rightarrow> bool" where
  "stalled now r = (run_status r = Running \<and>
     run_updated_at r < now - 2 * int (timeoutSeconds (ad_limits (run_definition r))) * 1000)"

definition stall_row :: "int \<Rightarrow> run_row \<Rightarrow> run_row" where
  "stall_row now r = (end_run Failed now r)\<lparr>run_error := Some (INTERNAL, ''The run made no progress and was stopped.'')\<rparr>"

definition failStalled :: "int \<Rightarrow> run_store \<Rightarrow> string list \<times> run_store" where
  "failStalled now s = (sorted_ids (returning (stalled now) (stall_row now) (runs s)),
     s\<lparr>runs := update_where (stalled now) (stall_row now) (runs s)\<rparr>)"

definition idle_chat :: "int \<Rightarrow> int \<Rightarrow> run_row \<Rightarrow> bool" where
  "idle_chat idleMinutes now r = (run_status r = Waiting_Input \<and> run_mode r = Chat \<and>
     run_updated_at r < now - idleMinutes * 60000)"

definition close_row :: "int \<Rightarrow> run_row \<Rightarrow> run_row" where
  "close_row now r = r\<lparr>run_status := Succeeded, run_finished_at := Some now, run_updated_at := now\<rparr>"

definition closeIdleChats :: "int \<Rightarrow> int \<Rightarrow> run_store \<Rightarrow> string list \<times> run_store" where
  "closeIdleChats idleMinutes now s = (sorted_ids (returning (idle_chat idleMinutes now) (close_row now) (runs s)),
     s\<lparr>runs := update_where (idle_chat idleMinutes now) (close_row now) (runs s)\<rparr>)"

section \<open>Tool calls\<close>

record start_call_input =
  st_run :: string
  st_call :: string
  st_message_seq :: nat
  st_tool :: string
  st_service :: "string option"
  st_effect :: "tool_effect option"
  st_policy :: grant_policy
  st_decision :: call_decision
  st_status :: call_status
  st_input :: jsval
  st_error :: jsval

definition same_call :: "start_call_input \<Rightarrow> tool_call_row \<Rightarrow> bool" where
  "same_call inp c = (tc_run c = map to_lower (st_run inp) \<and> tc_call c = st_call inp)"

definition restartable :: "tool_call_row \<Rightarrow> bool" where
  "restartable c = (tc_status c = Pending \<or> tc_status c = Executing \<and> tc_effect c = Some Read)"

definition started_end :: "start_call_input \<Rightarrow> int \<Rightarrow> int option" where
  "started_end inp now = (if st_status inp = Executing then None else Some now)"

definition restart_row :: "start_call_input \<Rightarrow> int \<Rightarrow> tool_call_row \<Rightarrow> tool_call_row" where
  "restart_row inp now c = c\<lparr>tc_status := st_status inp, tc_started_at := now,
     tc_finished_at := started_end inp now, tc_error := coalesce (st_error inp) JNull\<rparr>"

definition new_call :: "start_call_input \<Rightarrow> string \<Rightarrow> int \<Rightarrow> tool_call_row" where
  "new_call inp newId now = \<lparr>tc_id = newId, tc_run = map to_lower (st_run inp), tc_call = st_call inp,
     tc_message_seq = st_message_seq inp, tc_tool = st_tool inp, tc_service = st_service inp,
     tc_effect = st_effect inp, tc_policy = st_policy inp, tc_decision = st_decision inp,
     tc_status = st_status inp, tc_input = coalesce (st_input inp) JNull, tc_output = JNull,
     tc_truncated = False, tc_error = coalesce (st_error inp) JNull, tc_started_at = now, tc_finished_at = started_end inp now\<rparr>"

definition may_start :: "start_call_input \<Rightarrow> string option \<Rightarrow> run_store \<Rightarrow> bool" where
  "may_start inp owner s = (case owner of None \<Rightarrow> True
     | Some o1 \<Rightarrow> find_first (\<lambda>r. has_run_id (st_run inp) r \<and> lease_owner r = Some o1) (runs s) \<noteq> None)"

definition startToolCall ::
    "start_call_input \<Rightarrow> string option \<Rightarrow> string \<Rightarrow> int \<Rightarrow> run_store \<Rightarrow> (store_error + tool_call_row) \<times> run_store" where
  "startToolCall inp owner newId now s =
     (if \<not> may_start inp owner s then (Inl (RUN_LEASE_LOST (st_run inp)), s)
      else (case find_first (same_call inp) (tool_calls s) of
          None \<Rightarrow>
            if find_first (\<lambda>c. tc_id c = newId) (tool_calls s) \<noteq> None then (Inl (DUPLICATE_KEY newId), s)
            else if find_first (has_run_id (st_run inp)) (runs s) = None then (Inl (NO_SUCH_ROW (st_run inp)), s)
            else (Inr (new_call inp newId now), s\<lparr>tool_calls := tool_calls s @ [new_call inp newId now]\<rparr>)
        | Some c \<Rightarrow>
            if restartable c
            then (Inr (restart_row inp now c),
              s\<lparr>tool_calls := update_where (same_call inp) (restart_row inp now) (tool_calls s)\<rparr>)
            else (Inl (RUN_LEASE_LOST (st_run inp)), s)))"

record call_result =
  res_status :: call_status
  res_output :: jsval
  res_truncated :: bool
  res_error :: jsval

definition in_flight :: "call_status \<Rightarrow> bool" where
  "in_flight st = (st = Pending \<or> st = Executing)"

definition finish_call_row :: "call_result \<Rightarrow> int \<Rightarrow> tool_call_row \<Rightarrow> tool_call_row" where
  "finish_call_row res now c = c\<lparr>tc_status := res_status res, tc_output := coalesce (res_output res) JNull,
     tc_truncated := res_truncated res, tc_error := coalesce (res_error res) JNull, tc_finished_at := Some now\<rparr>"

definition finishToolCall :: "string \<Rightarrow> call_result \<Rightarrow> int \<Rightarrow> run_store \<Rightarrow> (store_error + tool_call_row) \<times> run_store" where
  "finishToolCall i res now s =
     (let p = (\<lambda>c. tc_id c = i \<and> in_flight (tc_status c));
          s' = s\<lparr>tool_calls := update_where p (finish_call_row res now) (tool_calls s)\<rparr> in
      case first_row (returning p (finish_call_row res now) (tool_calls s)) of
        Some c \<Rightarrow> (Inr c, s')
      | None \<Rightarrow> (case find_first (\<lambda>c. tc_id c = i) (tool_calls s') of
          Some c \<Rightarrow> (Inr c, s') | None \<Rightarrow> (Inl (CALL_NOT_FOUND i), s')))"

definition call_order :: "tool_call_row \<Rightarrow> tool_call_row \<Rightarrow> rat" where
  "call_order a b =
     (if tc_message_seq a \<noteq> tc_message_seq b then of_nat (tc_message_seq a) - of_nat (tc_message_seq b)
      else if tc_started_at a \<noteq> tc_started_at b then of_int (tc_started_at a - tc_started_at b)
      else text_compare (tc_call a) (tc_call b))"

definition listToolCalls :: "string \<Rightarrow> run_store \<Rightarrow> tool_call_row list" where
  "listToolCalls runId s =
     (if \<not> is_uuid runId then [] else js_sort call_order (filter (\<lambda>c. tc_run c = map to_lower runId) (tool_calls s)))"

end
