(* ===== verification/Run_Lifecycle.thy ===== *)
theory Run_Lifecycle
  imports Run_Store
begin

text \<open>
  What the run store promises over any sequence of its operations, from any number of workers
  and servers: each operation is one transaction, so a history is a path of the step relation
  \<open>store_step\<close>. The invariant of the rows, the transcript and the audit rows; the first outcome
  of a run and of a tool call stands; a valid lease fences the other workers off; no run is left
  where nothing can move it.
\<close>

named_theorems run_effects \<open>what an operation does to one table\<close>

section \<open>Steps\<close>

inductive store_step :: "run_store \<Rightarrow> run_store \<Rightarrow> bool" where
  step_create: "store_step s (snd (create inp i now s))"
| step_claim: "store_step s (snd (claim_run i w secs now s))"
| step_renew: "store_step s (snd (renewLease i w secs now s))"
| step_cancelAbandoned: "store_step s (snd (cancelAbandoned now s))"
| step_requeueStale: "store_step s (snd (requeueStaleQueued secs now s))"
| step_append: "store_step s (snd (appendMessages i ms wo now s))"
| step_recordStep: "store_step s (snd (recordStep i tin tout now s))"
| step_addWarning: "store_step s (snd (addWarning i warning now s))"
| step_finish: "store_step s (snd (finish i outcome wo now s))"
| step_wait: "store_step s (snd (waitForInput i wo now s))"
| step_userMessage: "store_step s (snd (addUserMessage i m now s))"
| step_cancel: "store_step s (snd (requestCancel i now s))"
| step_failStalled: "store_step s (snd (failStalled now s))"
| step_closeIdle: "store_step s (snd (closeIdleChats mins now s))"
| step_startCall: "store_step s (snd (startToolCall callIn wo newId now s))"
| step_finishCall: "\<not> in_flight (res_status res) \<Longrightarrow> store_step s (snd (finishToolCall i res now s))"

definition history :: "run_store \<Rightarrow> run_store \<Rightarrow> bool" where
  "history = store_step\<^sup>*\<^sup>*"

section \<open>Rows\<close>

definition run_ok :: "run_row \<Rightarrow> bool" where
  "run_ok r \<longleftrightarrow> (run_status r = Running \<longleftrightarrow> lease_owner r \<noteq> None)
     \<and> (lease_expires_at r = None \<longleftrightarrow> lease_owner r = None)
     \<and> (terminal (run_status r) \<longleftrightarrow> run_finished_at r \<noteq> None)
     \<and> (run_status r = Failed \<longleftrightarrow> run_error r \<noteq> None)
     \<and> (cancel_requested r \<longrightarrow> run_status r = Running \<or> terminal (run_status r))"

definition run_key :: "run_row \<Rightarrow> string \<times> string \<times> agent_definition \<times> string option \<times> string \<times> nat \<times> run_mode" where
  "run_key r = (run_id r, run_agent r, run_definition r, run_parent r, run_root r, run_depth r, run_mode r)"

definition run_result :: "run_row \<Rightarrow> run_status \<times> jsval \<times> (run_error_code \<times> string) option \<times> int option" where
  "run_result r = (run_status r, run_output r, run_error r, run_finished_at r)"

definition row_step :: "run_row \<Rightarrow> run_row \<Rightarrow> bool" where
  "row_step r r' \<longleftrightarrow> run_key r' = run_key r \<and> run_steps r \<le> run_steps r' \<and>
     (run_ok r \<longrightarrow> run_ok r' \<and> (terminal (run_status r) \<longrightarrow> run_result r' = run_result r))"

lemma terminal_simps:
  "terminal Queued = False" "terminal Running = False" "terminal Waiting_Approval = False"
  "terminal Waiting_Input = False" "terminal Succeeded = True" "terminal Failed = True" "terminal Cancelled = True"
  by (simp_all add: terminal_def)

lemmas row_defs = row_step_def run_ok_def run_key_def run_result_def terminal_def

lemma row_step_refl [simp]: "row_step r r"
  by (simp add: row_step_def)

lemma row_step_trans: "row_step a b \<Longrightarrow> row_step b c \<Longrightarrow> row_step a c"
  by (auto simp: row_step_def run_result_def)

lemma take_lease_step: "claimable i now r \<Longrightarrow> row_step r (take_lease w secs now r)"
  by (auto simp: row_defs claimable_def take_lease_def)

lemma renew_step: "holds_lease i w r \<Longrightarrow> row_step r (r\<lparr>lease_expires_at := Some t\<rparr>)"
  by (auto simp: row_defs holds_lease_def)

lemma end_run_step: "abandoned now r \<Longrightarrow> row_step r (end_run Cancelled now r)"
  by (auto simp: row_defs abandoned_def end_run_def)

text \<open>Updates of other columns keep a row as it is, as far as the invariant can see.\<close>

lemma run_ok_other [simp]:
  "run_ok (r\<lparr>run_updated_at := now\<rparr>) = run_ok r"
  "run_ok (count_step a b now r) = run_ok r"
  "run_ok (add_warning w now r) = run_ok r"
  by (simp_all add: run_ok_def count_step_def add_warning_def)

lemma run_columns_other [simp]:
  "run_key (count_step a b now r) = run_key r" "run_result (count_step a b now r) = run_result r"
  "run_key (add_warning w now r) = run_key r" "run_result (add_warning w now r) = run_result r"
  "run_key (r\<lparr>run_updated_at := now\<rparr>) = run_key r" "run_result (r\<lparr>run_updated_at := now\<rparr>) = run_result r"
  by (simp_all add: run_key_def run_result_def count_step_def add_warning_def)

lemma run_steps_other [simp]:
  "run_steps (count_step a b now r) = run_steps r + 1" "run_steps (add_warning w now r) = run_steps r"
  by (simp_all add: count_step_def add_warning_def)

lemma other_columns_step [simp]:
  "row_step r (r\<lparr>run_updated_at := now\<rparr>)" "row_step r (count_step a b now r)" "row_step r (add_warning w now r)"
  by (simp_all add: row_step_def)

lemma outcome_status_facts [simp]:
  "terminal (outcome_status outcome)" "outcome_status outcome \<noteq> Running"
  "outcome_status outcome = Failed \<longleftrightarrow> outcome_error outcome \<noteq> None"
  by (cases outcome; simp add: terminal_def)+

lemma finish_row_fields [simp]:
  "run_status (finish_row outcome now r) = outcome_status outcome" "lease_owner (finish_row outcome now r) = None"
  "lease_expires_at (finish_row outcome now r) = None" "run_finished_at (finish_row outcome now r) = Some now"
  "run_error (finish_row outcome now r) = outcome_error outcome" "run_steps (finish_row outcome now r) = run_steps r" "run_output (finish_row outcome now r) = outcome_output outcome"
  "run_key (finish_row outcome now r) = run_key r"
  by (simp_all add: finish_row_def end_run_def run_key_def)

lemma finish_row_step: "live (run_status r) \<Longrightarrow> row_step r (finish_row outcome now r)"
  by (cases "run_status r"; simp add: row_step_def run_ok_def live_def terminal_simps)

lemma wait_row_step: "run_status r = Running \<Longrightarrow> row_step r (wait_row now r)"
  by (cases "run_status r"; simp add: row_defs wait_row_def)

lemma requeue_row_step: "run_status r = Waiting_Input \<Longrightarrow> row_step r (requeue_row now r)"
  by (cases "run_status r"; simp add: row_defs requeue_row_def)

lemma cancel_row_step: "live (run_status r) \<Longrightarrow> row_step r (cancel_row now r)"
  by (cases "run_status r"; simp add: row_defs live_def parked_def cancel_row_def)

lemma stall_row_step: "stalled now r \<Longrightarrow> row_step r (stall_row now r)"
  by (cases "run_status r"; simp add: row_defs stalled_def stall_row_def end_run_def)

lemma close_row_step: "idle_chat mins now r \<Longrightarrow> row_step r (close_row now r)"
  by (cases "run_status r"; simp add: row_defs idle_chat_def close_row_def)

section \<open>Statements\<close>

lemma the_run:
  assumes "distinct (map run_id rows)" "find_first (has_run_id i) rows = Some r" "q \<in> set rows" "has_run_id i q"
  shows "q = r"
  using assms find_first_Some [OF assms(2)] by (auto simp: distinct_map has_run_id_def inj_on_def)

lemma rows_same: "list_all2 row_step rows rows"
  by (simp add: list_all2_refl)

lemma conditional_write_snd [run_effects]:
  "snd (conditional_write i w p f s) = s\<lparr>runs := update_where p f (runs s)\<rparr>"
  by (simp add: conditional_write_def Let_def split: option.splits)

lemma touch_run_fields [simp]:
  "run_messages (touch_run i now s) = run_messages s" "tool_calls (touch_run i now s) = tool_calls s"
  "runs (touch_run i now s) = update_where (has_run_id i) (\<lambda>r. r\<lparr>run_updated_at := now\<rparr>) (runs s)"
  by (simp_all add: touch_run_def)

section \<open>The runs\<close>

text \<open>A new run is queued, has an unused id and hangs under its parent.\<close>

definition placed :: "run_row list \<Rightarrow> run_row \<Rightarrow> bool" where
  "placed rows r = (case run_parent r of
     None \<Rightarrow> run_root r = run_id r \<and> run_depth r = 0
   | Some p \<Rightarrow> \<exists>q \<in> set rows. run_id q = p \<and> run_root r = run_root q \<and> run_depth r = run_depth q + 1)"

definition newly_placed :: "run_row list \<Rightarrow> run_row \<Rightarrow> bool" where
  "newly_placed rows r \<longleftrightarrow> run_id r \<notin> run_id ` set rows \<and> run_ok r \<and> placed rows r"

lemma new_run_ok [simp]: "run_ok (new_run i inp rt d now)"
  by (simp add: run_ok_def new_run_def terminal_def)

lemma new_run_fields [simp]:
  "run_id (new_run i inp rt d now) = map to_lower i" "run_root (new_run i inp rt d now) = rt"
  "run_depth (new_run i inp rt d now) = d" "run_parent (new_run i inp rt d now) = map_option (map to_lower) (cr_parent inp)"
  "run_status (new_run i inp rt d now) = Queued" "cancel_requested (new_run i inp rt d now) = False"
  by (simp_all add: new_run_def)

lemma insert_run_fresh:
  "find_first (has_run_id i) (runs s) = None \<Longrightarrow> insert_run inp i rt d now s =
     (Inr (new_run i inp rt d now), s\<lparr>runs := runs s @ [new_run i inp rt d now],
        run_messages := run_messages s @ insertMessages (map to_lower i) 0 (cr_messages inp)\<rparr>)"
  by (simp add: insert_run_def)

lemma insert_run_taken:
  "find_first (has_run_id i) (runs s) \<noteq> None \<Longrightarrow> insert_run inp i rt d now s = (Inl (DUPLICATE_KEY i), s)"
  by (simp add: insert_run_def)

lemma create_cases:
  obtains "snd (create inp i now s) = s"
  | rt d where "find_first (has_run_id i) (runs s) = None" "placed (runs s) (new_run i inp rt d now)"
    "create inp i now s = (Inr (new_run i inp rt d now),
       s\<lparr>runs := runs s @ [new_run i inp rt d now],
         run_messages := run_messages s @ insertMessages (map to_lower i) 0 (cr_messages inp)\<rparr>)"
proof (cases "find_first (has_run_id i) (runs s)")
  case (Some r)
  have "snd (create inp i now s) = s"
    by (simp add: create_def insert_run_taken Some split: option.splits)
  then show thesis by (rule that(1))
next
  case fresh: None
  show thesis
  proof (cases "cr_parent inp")
    case None
    have "create inp i now s = insert_run inp i (map to_lower i) 0 now s"
      using None by (simp add: create_def)
    moreover have "placed (runs s) (new_run i inp (map to_lower i) 0 now)"
      using None by (simp add: placed_def)
    ultimately show ?thesis
      using that(2) [OF fresh, of "map to_lower i" 0] insert_run_fresh [OF fresh] by simp
  next
    case (Some p)
    show ?thesis
    proof (cases "p = [] \<or> find_first (has_run_id p) (runs s) = None")
      case True
      then have "snd (create inp i now s) = s" using Some by (auto simp: create_def)
      then show ?thesis by (rule that(1))
    next
      case False
      then obtain q where q: "p \<noteq> []" "find_first (has_run_id p) (runs s) = Some q" by auto
      have "create inp i now s = insert_run inp i (run_root q) (run_depth q + 1) now s"
        using Some q by (simp add: create_def)
      moreover have "placed (runs s) (new_run i inp (run_root q) (run_depth q + 1) now)"
        using Some find_first_Some [OF q(2)] by (auto simp: placed_def has_run_id_def)
      ultimately show ?thesis
        using that(2) [OF fresh, of "run_root q" "run_depth q + 1"] insert_run_fresh [OF fresh] by simp
    qed
  qed
qed

text \<open>Every step changes rows lawfully or adds one run.\<close>

lemma runs_of_step:
  "store_step s s' \<Longrightarrow> distinct (map run_id (runs s)) \<Longrightarrow> list_all2 row_step (runs s) (runs s') \<or>
     (\<exists>r. runs s' = runs s @ [r] \<and> newly_placed (runs s) r)"
proof (induction rule: store_step.induct)
  case (step_create s inp i now)
  show ?case
  proof (rule create_cases [of inp i now s])
    fix rt d
    assume fresh: "find_first (has_run_id i) (runs s) = None"
      and "placed (runs s) (new_run i inp rt d now)"
      and eq: "create inp i now s = (Inr (new_run i inp rt d now),
       s\<lparr>runs := runs s @ [new_run i inp rt d now],
         run_messages := run_messages s @ insertMessages (map to_lower i) 0 (cr_messages inp)\<rparr>)"
    then have "newly_placed (runs s) (new_run i inp rt d now)"
      by (auto simp: newly_placed_def has_run_id_def find_first_None)
    then show ?thesis by (simp add: eq)
  qed (simp add: rows_same)
next
  case (step_claim s i w secs now)
  then show ?case by (auto simp: claim_run_def rows_same intro!: rows_update take_lease_step)
next
  case (step_renew s i w secs now)
  then show ?case by (auto simp: renewLease_def Let_def intro!: rows_update renew_step)
next
  case (step_cancelAbandoned s now)
  then show ?case by (auto simp: cancelAbandoned_def intro!: rows_update end_run_step)
next
  case (step_requeueStale s secs now)
  then show ?case by (auto simp: requeueStaleQueued_def Let_def intro!: rows_update)
next
  case (step_append s i ms wo now)
  then show ?case
    by (auto simp: appendMessages_def Let_def rows_same intro!: rows_update split: option.splits)
next
  case (step_recordStep s i tin tout now)
  then show ?case
    by (auto simp: recordStep_def Let_def rows_same intro!: rows_update split: option.splits prod.splits)
next
  case (step_addWarning s i warning now)
  then show ?case by (auto simp: addWarning_def rows_same intro!: rows_update split: option.splits)
next
  case (step_finish s i outcome wo now)
  then show ?case by (auto simp: finish_def run_effects intro!: rows_update finish_row_step)
next
  case (step_wait s i wo now)
  then show ?case by (auto simp: waitForInput_def run_effects intro!: rows_update wait_row_step)
next
  case (step_cancel s i now)
  then show ?case
    by (auto simp: requestCancel_def Let_def rows_same intro!: rows_update cancel_row_step split: option.splits)
next
  case (step_failStalled s now)
  then show ?case by (auto simp: failStalled_def intro!: rows_update stall_row_step)
next
  case (step_closeIdle s mins now)
  then show ?case by (auto simp: closeIdleChats_def intro!: rows_update close_row_step)
next
  case (step_userMessage s i m now)
  have "row_step r (requeue_row now r)"
    if "find_first (has_run_id i) (runs s) = Some q" "run_status q = Waiting_Input" "r \<in> set (runs s)" "has_run_id i r" for q r
    using the_run [OF step_userMessage that(1,3,4)] that(2) requeue_row_step by simp
  then show ?case
    by (auto simp: addUserMessage_def rows_same intro!: rows_update split: option.splits)
next
  case (step_startCall s callIn wo newId now)
  then show ?case by (simp add: startToolCall_def rows_same split: option.splits)
next
  case (step_finishCall res s i now)
  then show ?case by (simp add: finishToolCall_def Let_def rows_same split: option.splits)
qed


section \<open>The transcript\<close>

definition run_part :: "string \<Rightarrow> run_store \<Rightarrow> message_row list" where
  "run_part i s = filter (\<lambda>m. msg_run m = i) (run_messages s)"

text \<open>The messages of every run are numbered 0, 1, 2 ... in the order they were added.\<close>

definition numbered :: "run_store \<Rightarrow> bool" where
  "numbered s \<longleftrightarrow> (\<forall>i. map msg_seq (run_part i s) = [0..<length (run_part i s)])
     \<and> msg_run ` set (run_messages s) \<subseteq> run_id ` set (runs s)"

lemma insertMessages_run: "m \<in> set (insertMessages i n ms) \<Longrightarrow> msg_run m = i"
  by (auto simp: insertMessages_def)

lemma map_seq_insertMessages: "map msg_seq (insertMessages i n ms) = [n..<n + length ms]"
  by (auto simp: insertMessages_def enumerate_eq_zip comp_def case_prod_unfold intro!: nth_equalityI)

lemma length_insertMessages [simp]: "length (insertMessages i n ms) = length ms"
  by (simp add: insertMessages_def)

lemma fold_max_seq:
  "fold (\<lambda>m n. if msg_run m = i then max n (msg_seq m + 1) else n) ms k =
     fold (\<lambda>m n. max n (msg_seq m + 1)) (filter (\<lambda>m. msg_run m = i) ms) k"
  by (induction ms arbitrary: k) auto

lemma fold_max_upt: "map msg_seq ms = [0..<length ms] \<Longrightarrow> fold (\<lambda>m n. max n (msg_seq m + 1)) ms 0 = length ms"
proof (induction ms rule: rev_induct)
  case (snoc m ms)
  then have "map msg_seq ms = [0..<length ms]" "msg_seq m = length ms" by auto
  then show ?case using snoc.IH by simp
qed simp

lemma next_seq_count:
  assumes "numbered s" shows "next_seq i s = length (run_part (map to_lower i) s)"
proof -
  have "next_seq i s = fold (\<lambda>m n. max n (msg_seq m + 1)) (run_part (map to_lower i) s) 0"
    unfolding next_seq_def fold_max_seq run_part_def ..
  also have "\<dots> = length (run_part (map to_lower i) s)"
    using assms by (intro fold_max_upt) (simp add: numbered_def)
  finally show ?thesis .
qed

lemma numbered_add:
  assumes "numbered s" "run_messages s' = run_messages s @ insertMessages i (length (run_part i s)) ms"
    "run_id ` set (runs s) \<subseteq> run_id ` set (runs s')" "i \<in> run_id ` set (runs s')"
  shows "numbered s'"
proof -
  have part: "run_part j s' = run_part j s @ (if j = i then insertMessages i (length (run_part i s)) ms else [])" for j
    using assms(2) insertMessages_run [of _ i _ ms] by (auto simp: run_part_def filter_id_conv filter_empty_conv)
  have old: "map msg_seq (run_part j s) = [0..<length (run_part j s)]" for j
    using assms(1) by (simp add: numbered_def)
  have "map msg_seq (run_part j s') = [0..<length (run_part j s')]" for j
  proof (cases "j = i")
    case True
    have "map msg_seq (run_part j s') = [0..<length (run_part i s)] @ [length (run_part i s)..<length (run_part i s) + length ms]"
      using True old [of i] by (simp add: part map_seq_insertMessages)
    also have "\<dots> = [0..<length (run_part i s) + length ms]"
      by (rule upt_add_eq_append [symmetric]) simp
    finally show ?thesis using True by (simp add: part)
  qed (use old part in simp)
  moreover have "msg_run m \<in> run_id ` set (runs s')" if "m \<in> set (run_messages s')" for m
  proof (cases "m \<in> set (run_messages s)")
    case True
    then show ?thesis using assms(1,3) unfolding numbered_def by blast
  next
    case False
    then have "msg_run m = i" using that assms(2) insertMessages_run [of m i _ ms] by auto
    then show ?thesis using assms(4) by simp
  qed
  ultimately show ?thesis by (auto simp: numbered_def)
qed

lemma numbered_same:
  assumes "numbered s" "run_messages s' = run_messages s" "run_id ` set (runs s) \<subseteq> run_id ` set (runs s')"
  shows "numbered s'"
  unfolding numbered_def run_part_def assms(2)
  using assms(1,3) unfolding numbered_def run_part_def by (meson order_trans)

lemma found_id: "find_first (has_run_id i) rows = Some r \<Longrightarrow> map to_lower i \<in> run_id ` set rows"
  using find_first_Some [of "has_run_id i" rows r] by (force simp: has_run_id_def)

text \<open>A step adds messages at the end of one transcript, numbered on, or none.\<close>

lemma messages_of_step:
  "store_step s s' \<Longrightarrow> numbered s \<Longrightarrow> run_messages s' = run_messages s \<or>
     (\<exists>i ms. run_messages s' = run_messages s @ insertMessages i (length (run_part i s)) ms \<and> i \<in> run_id ` set (runs s'))"
proof (induction rule: store_step.induct)
  case (step_create s inp i now)
  show ?case
  proof (rule create_cases [of inp i now s])
    fix rt d
    assume fresh: "find_first (has_run_id i) (runs s) = None"
      and eq: "create inp i now s = (Inr (new_run i inp rt d now),
       s\<lparr>runs := runs s @ [new_run i inp rt d now],
         run_messages := run_messages s @ insertMessages (map to_lower i) 0 (cr_messages inp)\<rparr>)"
    have "run_part (map to_lower i) s = []"
      using fresh step_create by (fastforce simp: run_part_def numbered_def find_first_None has_run_id_def filter_empty_conv)
    moreover have "map to_lower i \<in> run_id ` set (runs (snd (create inp i now s)))" by (simp add: eq)
    moreover have "run_messages (snd (create inp i now s)) = run_messages s @ insertMessages (map to_lower i) 0 (cr_messages inp)"
      by (simp add: eq)
    ultimately show ?thesis by (metis list.size(3))
  qed simp
next
  case (step_append s i ms wo now)
  show ?case
  proof (cases "\<exists>r. find_first (has_run_id i) (runs s) = Some r \<and> owned_by wo r")
    case True
    then obtain r where r: "find_first (has_run_id i) (runs s) = Some r" "owned_by wo r" by blast
    show ?thesis
      by (rule disjI2, rule exI [of _ "map to_lower i"], rule exI [of _ ms])
        (simp add: appendMessages_def Let_def next_seq_count [OF step_append] r found_id [OF r(1)])
  qed (auto simp: appendMessages_def split: option.splits)
next
  case (step_userMessage s i m now)
  show ?case
  proof (cases "is_uuid i \<and> (\<exists>r. find_first (has_run_id i) (runs s) = Some r \<and> run_status r = Waiting_Input)")
    case True
    then obtain r where r: "is_uuid i" "find_first (has_run_id i) (runs s) = Some r" "run_status r = Waiting_Input" by blast
    show ?thesis
      by (rule disjI2, rule exI [of _ "map to_lower i"], rule exI [of _ "[m]"])
        (simp add: addUserMessage_def next_seq_count [OF step_userMessage] r found_id [OF r(2)] requeue_row_def)
  qed (auto simp: addUserMessage_def split: option.splits)
qed (auto simp: claim_run_def renewLease_def cancelAbandoned_def requeueStaleQueued_def recordStep_def addWarning_def
    finish_def waitForInput_def requestCancel_def failStalled_def closeIdleChats_def startToolCall_def finishToolCall_def
    conditional_write_def Let_def split: option.splits prod.splits)

section \<open>Tool calls\<close>

text \<open>A call that ended keeps its row; a write or delete in flight is only ever ended.\<close>

definition settled :: "tool_call_row \<Rightarrow> bool" where
  "settled c \<longleftrightarrow> \<not> in_flight (tc_status c) \<or> tc_status c = Executing \<and> tc_effect c \<noteq> Some Read"

definition call_key :: "tool_call_row \<Rightarrow> string \<times> string \<times> string \<times> tool_effect option \<times> jsval" where
  "call_key c = (tc_id c, tc_run c, tc_call c, tc_effect c, tc_input c)"

definition call_step :: "tool_call_row \<Rightarrow> tool_call_row \<Rightarrow> bool" where
  "call_step c c' \<longleftrightarrow> call_key c' = call_key c \<and> (\<not> in_flight (tc_status c) \<longrightarrow> c' = c) \<and>
     (settled c \<longrightarrow> settled c' \<and> tc_started_at c' = tc_started_at c)"

lemma call_step_refl [simp]: "call_step c c"
  by (simp add: call_step_def)

lemma call_step_trans: "call_step a b \<Longrightarrow> call_step b c \<Longrightarrow> call_step a c"
  by (auto simp: call_step_def)

lemma restart_step: "restartable c \<Longrightarrow> call_step c (restart_row callIn now c)"
  by (auto simp: call_step_def restartable_def restart_row_def call_key_def settled_def in_flight_def)

lemma finish_call_step:
  "in_flight (tc_status c) \<Longrightarrow> \<not> in_flight (res_status res) \<Longrightarrow> call_step c (finish_call_row res now c)"
  by (auto simp: call_step_def finish_call_row_def call_key_def settled_def)

definition calls_ok :: "run_store \<Rightarrow> bool" where
  "calls_ok s \<longleftrightarrow> distinct (map tc_id (tool_calls s)) \<and> distinct (map (\<lambda>c. (tc_run c, tc_call c)) (tool_calls s))
     \<and> tc_run ` set (tool_calls s) \<subseteq> run_id ` set (runs s)"

lemma the_call:
  assumes "distinct (map (\<lambda>c. (tc_run c, tc_call c)) rows)" "find_first (same_call callIn) rows = Some c"
    "d \<in> set rows" "same_call callIn d"
  shows "d = c"
  using assms find_first_Some [OF assms(2)] by (auto simp: distinct_map same_call_def inj_on_def)

lemma new_call_key [simp]:
  "tc_id (new_call callIn newId now) = newId" "tc_run (new_call callIn newId now) = map to_lower (st_run callIn)"
  "tc_call (new_call callIn newId now) = st_call callIn"
  by (simp_all add: new_call_def)

lemma startToolCall_cases:
  obtains (refused) "snd (startToolCall callIn wo newId now s) = s" "\<exists>e. fst (startToolCall callIn wo newId now s) = Inl e"
  | (started) "find_first (same_call callIn) (tool_calls s) = None" "newId \<notin> tc_id ` set (tool_calls s)"
    "map to_lower (st_run callIn) \<in> run_id ` set (runs s)"
    "startToolCall callIn wo newId now s = (Inr (new_call callIn newId now), s\<lparr>tool_calls := tool_calls s @ [new_call callIn newId now]\<rparr>)"
  | (restarted) c where "find_first (same_call callIn) (tool_calls s) = Some c" "restartable c"
    "startToolCall callIn wo newId now s = (Inr (restart_row callIn now c),
       s\<lparr>tool_calls := update_where (same_call callIn) (restart_row callIn now) (tool_calls s)\<rparr>)"
proof (cases "find_first (same_call callIn) (tool_calls s)")
  case None
  show ?thesis
  proof (cases "may_start callIn wo s \<and> find_first (\<lambda>c. tc_id c = newId) (tool_calls s) = None \<and>
      find_first (has_run_id (st_run callIn)) (runs s) \<noteq> None")
    case True
    then obtain r where "find_first (has_run_id (st_run callIn)) (runs s) = Some r" by auto
    then have "map to_lower (st_run callIn) \<in> run_id ` set (runs s)"
      using find_first_Some [of "has_run_id (st_run callIn)" "runs s" r] by (force simp: has_run_id_def)
    moreover have "newId \<notin> tc_id ` set (tool_calls s)" using True by (auto simp: find_first_None)
    ultimately show ?thesis using True None by (intro started) (auto simp: startToolCall_def)
  qed (rule refused; auto simp: startToolCall_def None)
next
  case (Some c)
  show ?thesis
  proof (cases "may_start callIn wo s \<and> restartable c")
    case True
    then show ?thesis using Some by (intro restarted) (auto simp: startToolCall_def)
  qed (rule refused; auto simp: startToolCall_def Some)
qed

text \<open>Every step changes audit rows lawfully or adds one.\<close>

definition new_audit_row :: "run_store \<Rightarrow> tool_call_row \<Rightarrow> bool" where
  "new_audit_row s c \<longleftrightarrow> tc_id c \<notin> tc_id ` set (tool_calls s) \<and> tc_run c \<in> run_id ` set (runs s)
     \<and> (tc_run c, tc_call c) \<notin> (\<lambda>c. (tc_run c, tc_call c)) ` set (tool_calls s)"

lemma calls_of_step:
  "store_step s s' \<Longrightarrow> calls_ok s \<Longrightarrow> list_all2 call_step (tool_calls s) (tool_calls s') \<or>
     (\<exists>c. tool_calls s' = tool_calls s @ [c] \<and> new_audit_row s c)"
proof (induction rule: store_step.induct)
  case (step_create s inp i now)
  show ?case by (rule create_cases [of inp i now s]) (auto simp: list_all2_refl)
next
  case (step_startCall s callIn wo newId now)
  show ?case
  proof (cases rule: startToolCall_cases [of callIn wo newId now s])
    case refused
    then show ?thesis by (simp add: list_all2_refl)
  next
    case started
    then show ?thesis by (auto simp: new_audit_row_def find_first_None same_call_def)
  next
    case (restarted c)
    have "call_step d (restart_row callIn now d)" if "d \<in> set (tool_calls s)" "same_call callIn d" for d
      using the_call [OF _ restarted(1) that] restarted(2) restart_step step_startCall
      by (simp add: calls_ok_def)
    then show ?thesis using restarted(3) by (auto intro!: rows_update)
  qed
next
  case (step_finishCall res s i now)
  then show ?case
    by (auto simp: finishToolCall_def Let_def intro!: rows_update finish_call_step split: option.splits)
qed (auto simp: claim_run_def renewLease_def cancelAbandoned_def requeueStaleQueued_def recordStep_def addWarning_def
    finish_def waitForInput_def requestCancel_def failStalled_def closeIdleChats_def appendMessages_def addUserMessage_def
    conditional_write_def Let_def list_all2_refl split: option.splits prod.splits)


section \<open>The invariant of the store\<close>

definition store_ok :: "run_store \<Rightarrow> bool" where
  "store_ok s \<longleftrightarrow> distinct (map run_id (runs s)) \<and> list_all run_ok (runs s) \<and> list_all (placed (runs s)) (runs s)
     \<and> numbered s \<and> calls_ok s"

lemma row_step_keys: "list_all2 row_step rows rows' \<Longrightarrow> map run_key rows' = map run_key rows"
  by (induction rule: list_all2_induct) (auto simp: row_step_def)

lemma row_step_oks: "list_all2 row_step rows rows' \<Longrightarrow> list_all run_ok rows \<Longrightarrow> list_all run_ok rows'"
  by (induction rule: list_all2_induct) (auto simp: row_step_def)

lemma keys_ids: "map run_key rows' = map run_key rows \<Longrightarrow> map run_id rows' = map run_id rows"
  by (drule arg_cong [where f = "map fst"]) (simp add: run_key_def comp_def)

definition key_placed :: "(string \<times> string \<times> agent_definition \<times> string option \<times> string \<times> nat \<times> run_mode) set \<Rightarrow>
    string \<times> string \<times> agent_definition \<times> string option \<times> string \<times> nat \<times> run_mode \<Rightarrow> bool" where
  "key_placed ks k = (case k of (i, _, _, parent, rt, d, _) \<Rightarrow> (case parent of None \<Rightarrow> rt = i \<and> d = 0
     | Some p \<Rightarrow> \<exists>q \<in> ks. case q of (i1, _, _, _, rt1, d1, _) \<Rightarrow> i1 = p \<and> rt = rt1 \<and> d = d1 + 1))"

lemma placed_key: "placed rows r = key_placed (set (map run_key rows)) (run_key r)"
  by (simp add: placed_def key_placed_def run_key_def split: option.split)

lemma placed_same:
  "map run_key rows' = map run_key rows \<Longrightarrow> list_all (placed rows) rows \<Longrightarrow> list_all (placed rows') rows'"
proof -
  assume keys: "map run_key rows' = map run_key rows" and "list_all (placed rows) rows"
  then have "list_all (key_placed (set (map run_key rows))) (map run_key rows)"
    by (simp add: list_all_iff placed_key)
  then have "list_all (key_placed (set (map run_key rows'))) (map run_key rows')"
    by (simp only: keys)
  then show ?thesis by (simp add: list_all_iff placed_key)
qed

lemma placed_more: "placed rows r \<Longrightarrow> placed (rows @ added) r"
  by (auto simp: placed_def split: option.splits)

lemma call_step_keys: "list_all2 call_step rows rows' \<Longrightarrow> map call_key rows' = map call_key rows"
  by (induction rule: list_all2_induct) (auto simp: call_step_def)

lemma call_keys_columns:
  assumes "map call_key rows' = map call_key rows"
  shows "map tc_id rows' = map tc_id rows" "map (\<lambda>c. (tc_run c, tc_call c)) rows' = map (\<lambda>c. (tc_run c, tc_call c)) rows"
    "map tc_run rows' = map tc_run rows"
  using arg_cong [OF assms, of "map fst"] arg_cong [OF assms, of "map (\<lambda>(i, r, c, _). (r, c))"]
    arg_cong [OF assms, of "map (\<lambda>(i, r, _). r)"]
  by (simp_all add: call_key_def comp_def)

lemma calls_ok_kept:
  assumes "calls_ok s" "list_all2 call_step (tool_calls s) (tool_calls s') \<or>
      (\<exists>c. tool_calls s' = tool_calls s @ [c] \<and> new_audit_row s c)"
    "run_id ` set (runs s) \<subseteq> run_id ` set (runs s')"
  shows "calls_ok s'"
  using assms(2)
proof
  assume "list_all2 call_step (tool_calls s) (tool_calls s')"
  note cols = call_keys_columns [OF call_step_keys [OF this]]
  have "tc_run ` set (tool_calls s') = tc_run ` set (tool_calls s)"
    using arg_cong [OF cols(3), of set] by simp
  then have "tc_run ` set (tool_calls s') \<subseteq> run_id ` set (runs s')"
    using assms(1,3) unfolding calls_ok_def by (metis order_trans)
  then show ?thesis using assms(1) cols unfolding calls_ok_def by simp
next
  assume "\<exists>c. tool_calls s' = tool_calls s @ [c] \<and> new_audit_row s c"
  then show ?thesis using assms(1,3) by (fastforce simp: calls_ok_def new_audit_row_def)
qed

lemma store_ok_step:
  assumes "store_step s s'" "store_ok s"
  shows "store_ok s'"
proof -
  have ok: "distinct (map run_id (runs s))" "list_all run_ok (runs s)" "list_all (placed (runs s)) (runs s)"
      "numbered s" "calls_ok s"
    using assms(2) by (auto simp: store_ok_def)
  have rows: "distinct (map run_id (runs s')) \<and> list_all run_ok (runs s') \<and> list_all (placed (runs s')) (runs s')
      \<and> run_id ` set (runs s) \<subseteq> run_id ` set (runs s')"
    using runs_of_step [OF assms(1) ok(1)]
  proof
    assume st: "list_all2 row_step (runs s) (runs s')"
    note keys = row_step_keys [OF st]
    have "run_id ` set (runs s') = run_id ` set (runs s)"
      using arg_cong [OF keys_ids [OF keys], of set] by simp
    then show ?thesis
      using ok row_step_oks [OF st] placed_same [OF keys] keys_ids [OF keys] by simp
  next
    assume "\<exists>r. runs s' = runs s @ [r] \<and> newly_placed (runs s) r"
    then obtain r where "runs s' = runs s @ [r]" "newly_placed (runs s) r" by blast
    then show ?thesis
      using ok placed_more [of "runs s" _ "[r]"] by (auto simp: newly_placed_def list_all_iff)
  qed
  have "numbered s'"
    using messages_of_step [OF assms(1) ok(4)] rows numbered_same [OF ok(4)] numbered_add [OF ok(4)] by blast
  moreover have "calls_ok s'"
    using calls_ok_kept [OF ok(5) calls_of_step [OF assms(1) ok(5)]] rows by blast
  ultimately show ?thesis using rows by (simp add: store_ok_def)
qed

lemma store_ok_empty [simp]: "store_ok empty_store"
  by (simp add: store_ok_def empty_store_def numbered_def run_part_def calls_ok_def)

lemma history_refl [simp]: "history s s"
  by (simp add: history_def)

lemma history_step: "history s s1 \<Longrightarrow> store_step s1 s2 \<Longrightarrow> history s s2"
  by (simp add: history_def)

lemma history_induct [consumes 1, case_names start step]:
  assumes "history s s'" "P s" "\<And>a b. history s a \<Longrightarrow> store_step a b \<Longrightarrow> P a \<Longrightarrow> P b"
  shows "P s'"
  using assms unfolding history_def by (induction rule: rtranclp_induct) auto

lemma store_ok_history: "history s s' \<Longrightarrow> store_ok s \<Longrightarrow> store_ok s'"
  by (induction rule: history_induct) (auto intro: store_ok_step)

lemma list_all2_elem: "list_all2 R xs ys \<Longrightarrow> x \<in> set xs \<Longrightarrow> \<exists>y \<in> set ys. R x y"
  by (induction rule: list_all2_induct) auto

lemma row_of_step:
  assumes "store_step s s'" "store_ok s" "r \<in> set (runs s)"
  shows "\<exists>r' \<in> set (runs s'). row_step r r'"
proof -
  have "distinct (map run_id (runs s))" using assms(2) by (simp add: store_ok_def)
  then show ?thesis
    using runs_of_step [OF assms(1)] list_all2_elem [of row_step "runs s" "runs s'" r] assms(3) row_step_refl [of r]
    by (metis Un_iff set_append)
qed

lemma row_of_history:
  assumes "history s s'" "store_ok s" "r \<in> set (runs s)"
  shows "\<exists>r' \<in> set (runs s'). row_step r r'"
  using assms(1)
proof (induction rule: history_induct)
  case start
  show ?case using assms(3) row_step_refl by blast
next
  case (step a b)
  then obtain q where q: "q \<in> set (runs a)" "row_step r q" by blast
  obtain q' where "q' \<in> set (runs b)" "row_step q q'"
    using row_of_step [OF step(2) store_ok_history [OF step(1) assms(2)] q(1)] by blast
  then show ?case using row_step_trans [OF q(2)] by blast
qed

lemma call_of_step:
  assumes "store_step s s'" "store_ok s" "c \<in> set (tool_calls s)"
  shows "\<exists>c' \<in> set (tool_calls s'). call_step c c'"
proof -
  have "calls_ok s" using assms(2) by (simp add: store_ok_def)
  then show ?thesis
    using calls_of_step [OF assms(1)] list_all2_elem [of call_step "tool_calls s" "tool_calls s'" c] assms(3)
      call_step_refl [of c]
    by (metis Un_iff set_append)
qed

lemma call_of_history:
  assumes "history s s'" "store_ok s" "c \<in> set (tool_calls s)"
  shows "\<exists>c' \<in> set (tool_calls s'). call_step c c'"
  using assms(1)
proof (induction rule: history_induct)
  case start
  show ?case using assms(3) call_step_refl by blast
next
  case (step a b)
  then obtain d where d: "d \<in> set (tool_calls a)" "call_step c d" by blast
  obtain d' where "d' \<in> set (tool_calls b)" "call_step d d'"
    using call_of_step [OF step(2) store_ok_history [OF step(1) assms(2)] d(1)] by blast
  then show ?case using call_step_trans [OF d(2)] by blast
qed


section \<open>One run among the others\<close>

lemma find_run:
  assumes "distinct (map run_id rows)" "r \<in> set rows" "has_run_id i r"
  shows "find_first (has_run_id i) rows = Some r"
proof -
  obtain q where q: "find_first (has_run_id i) rows = Some q"
    using assms(2,3) by (cases "find_first (has_run_id i) rows") (auto simp: find_first_None)
  show ?thesis using the_run [OF assms(1) q assms(2,3)] q by simp
qed

text \<open>A statement on one run by its id, with a further condition.\<close>

lemma find_guarded:
  assumes "distinct (map run_id rows)" "r \<in> set rows" "has_run_id i r" "\<And>q. p q \<Longrightarrow> has_run_id i q"
  shows "find_first p rows = (if p r then Some r else None)"
proof (cases "find_first p rows")
  case None
  then show ?thesis using assms(2) by (auto simp: find_first_None)
next
  case (Some q)
  then have "q \<in> set rows" "p q" using find_first_Some [OF Some] by auto
  then have "q = r" using the_run [OF assms(1) find_run [OF assms(1-3)]] assms(4) by blast
  then show ?thesis using Some \<open>p q\<close> by simp
qed

lemma only_guarded:
  assumes "distinct (map run_id rows)" "r \<in> set rows" "has_run_id i r" "\<And>q. p q \<Longrightarrow> has_run_id i q" "\<not> p r"
  shows "update_where p f rows = rows"
  using find_guarded [of rows r i p] assms by (intro update_where_none) (auto simp: find_first_None)

lemma claim_found:
  assumes "store_ok s" "r \<in> set (runs s)" "has_run_id i r" "is_uuid i" "claimable i now r"
  shows "fst (claim_run i w secs now s) = Some (take_lease w secs now r)"
proof -
  have "find_first (claimable i now) (runs s) = Some r"
    using find_guarded [of "runs s" r i "claimable i now"] assms by (simp add: store_ok_def claimable_def)
  then show ?thesis using assms(4) by (simp add: claim_run_def first_returning)
qed

lemma run_ok_running: "run_ok r \<Longrightarrow> run_status r = Running \<Longrightarrow> lease_expires_at r \<noteq> None"
  by (simp add: run_ok_def)

lemma run_ok_parked: "run_ok r \<Longrightarrow> parked (run_status r) \<Longrightarrow> \<not> cancel_requested r"
  by (cases "run_status r") (simp_all add: run_ok_def parked_def terminal_simps)

section \<open>Properties\<close>

text \<open>
  C11: In every store that the operations can reach: run ids are unique; a run holds a lease,
  with an end, exactly while it is running, has an end time exactly when it is over and an
  error exactly when it failed; no parked run carries a cancel request; every run is under its
  parent, one level deeper, in the parent's tree; the transcript of every run is numbered
  0, 1, 2 ... without a gap; and there is one audit row for a call of a run.
\<close>

theorem run_store_invariant:
  assumes "history empty_store s"
  shows "distinct (map run_id (runs s))
    \<and> (\<forall>r \<in> set (runs s).
        (run_status r = Running \<longleftrightarrow> lease_owner r \<noteq> None) \<and> (lease_expires_at r = None \<longleftrightarrow> lease_owner r = None) \<and>
        (terminal (run_status r) \<longleftrightarrow> run_finished_at r \<noteq> None) \<and> (run_status r = Failed \<longleftrightarrow> run_error r \<noteq> None) \<and>
        (cancel_requested r \<longrightarrow> run_status r = Running \<or> terminal (run_status r)) \<and>
        (case run_parent r of None \<Rightarrow> run_root r = run_id r \<and> run_depth r = 0
         | Some p \<Rightarrow> \<exists>q \<in> set (runs s). run_id q = p \<and> run_root r = run_root q \<and> run_depth r = run_depth q + 1))
    \<and> (\<forall>i. map msg_seq (filter (\<lambda>m. msg_run m = i) (run_messages s))
          = [0..<length (filter (\<lambda>m. msg_run m = i) (run_messages s))])
    \<and> distinct (map (\<lambda>c. (tc_run c, tc_call c)) (tool_calls s))"
proof -
  have ok: "store_ok s" using store_ok_history [OF assms store_ok_empty] .
  have "(run_status r = Running \<longleftrightarrow> lease_owner r \<noteq> None) \<and> (lease_expires_at r = None \<longleftrightarrow> lease_owner r = None) \<and>
      (terminal (run_status r) \<longleftrightarrow> run_finished_at r \<noteq> None) \<and> (run_status r = Failed \<longleftrightarrow> run_error r \<noteq> None) \<and>
      (cancel_requested r \<longrightarrow> run_status r = Running \<or> terminal (run_status r)) \<and> placed (runs s) r"
    if "r \<in> set (runs s)" for r
    using ok that unfolding store_ok_def list_all_iff run_ok_def by blast
  moreover have "distinct (map run_id (runs s))" "distinct (map (\<lambda>c. (tc_run c, tc_call c)) (tool_calls s))"
    using ok by (simp_all add: store_ok_def calls_ok_def)
  moreover have "map msg_seq (filter (\<lambda>m. msg_run m = i) (run_messages s))
      = [0..<length (filter (\<lambda>m. msg_run m = i) (run_messages s))]" for i
    using ok unfolding store_ok_def numbered_def run_part_def by blast
  ultimately show ?thesis unfolding placed_def by blast
qed

definition demo_id :: string where "demo_id = ''00000000-0000-4000-8000-00000000000a''"
definition demo_child :: string where "demo_child = ''00000000-0000-4000-8000-00000000000b''"

definition demo_input :: "string option \<Rightarrow> create_run_input" where
  "demo_input parent = \<lparr>cr_agent = ''00000000-0000-4000-8000-0000000000aa'', cr_version = Some 1,
     cr_definition = sample_definition, cr_trigger = Manual, cr_triggered_by = ''ann'', cr_mode = Chat,
     cr_policy = None, cr_input = JNull, cr_messages = [(User, JStr ''hi''), (User, JStr ''there'')], cr_parent = parent\<rparr>"

definition demo_call :: start_call_input where
  "demo_call = \<lparr>st_run = demo_id, st_call = ''c1'', st_message_seq = 1, st_tool = ''graph.merge'',
     st_service = Some ''graph'', st_effect = Some Write, st_policy = Allow, st_decision = Decide_Allow,
     st_status = Executing, st_input = JNull, st_error = JNull\<rparr>"

text \<open>A run, its child, taken by worker a, with one write in flight.\<close>

definition demo_store :: run_store where
  "demo_store = snd (startToolCall demo_call (Some ''a'') ''t1'' 30
     (snd (claim_run demo_id ''a'' 60 20
       (snd (create (demo_input (Some demo_id)) demo_child 10 (snd (create (demo_input None) demo_id 0 empty_store)))))))"

lemma demo_history: "history empty_store demo_store"
  unfolding demo_store_def
  by (rule history_step [OF _ step_startCall], rule history_step [OF _ step_claim],
      rule history_step [OF _ step_create], rule history_step [OF _ step_create], rule history_refl)

lemma demo_facts:
  "let s = demo_store; r = hd (runs s); q = runs s ! 1; c = hd (tool_calls s) in
     length (runs s) = 2 \<and> length (tool_calls s) = 1 \<and> is_uuid demo_id \<and> is_uuid demo_child \<and>
     run_id r = map to_lower demo_id \<and> lease_owner r = Some ''a'' \<and> \<not> lease_over 40 r \<and>
     run_id q = map to_lower demo_child \<and> run_status q = Queued \<and> run_parent q = Some demo_id \<and>
     tc_status c = Executing \<and> tc_effect c \<noteq> Some Read \<and> tc_id c = ''t1'' \<and>
     map to_lower (st_run demo_call) = tc_run c \<and> st_call demo_call = tc_call c \<and> st_run demo_call = demo_id"
  by code_simp

lemmas demo = demo_facts [unfolded Let_def]

lemma demo_members: "hd (runs demo_store) \<in> set (runs demo_store)" "runs demo_store ! 1 \<in> set (runs demo_store)"
    "hd (tool_calls demo_store) \<in> set (tool_calls demo_store)"
proof -
  have "runs demo_store \<noteq> []" "1 < length (runs demo_store)" "tool_calls demo_store \<noteq> []" using demo by auto
  then show "hd (runs demo_store) \<in> set (runs demo_store)" "runs demo_store ! 1 \<in> set (runs demo_store)"
    "hd (tool_calls demo_store) \<in> set (tool_calls demo_store)" by (simp_all add: nth_mem)
qed

lemma run_store_invariant_witness:
  "length (runs demo_store) = 2 \<and> length (tool_calls demo_store) = 1 \<and> distinct (map run_id (runs demo_store))"
  using run_store_invariant [OF demo_history] demo by blast

text \<open>
  C10: The first outcome of a run stands: once a run is over, no sequence of operations of any
  worker, server or sweeper changes its status, output, error or end, or removes it.
\<close>

theorem outcome_stands:
  assumes "history empty_store s" "history s s'" "r \<in> set (runs s)" "terminal (run_status r)"
  shows "\<exists>r' \<in> set (runs s'). run_id r' = run_id r \<and> run_status r' = run_status r \<and> run_output r' = run_output r \<and>
    run_error r' = run_error r \<and> run_finished_at r' = run_finished_at r"
proof -
  have ok: "store_ok s" using store_ok_history [OF assms(1) store_ok_empty] .
  obtain r' where r': "r' \<in> set (runs s')" "row_step r r'"
    using row_of_history [OF assms(2) ok assms(3)] by blast
  moreover have "run_ok r" using ok assms(3) by (auto simp: store_ok_def list_all_iff)
  ultimately have "run_key r' = run_key r" "run_result r' = run_result r"
    using assms(4) by (auto simp: row_step_def)
  then show ?thesis using r'(1) by (auto simp: run_key_def run_result_def)
qed



text \<open>
  C5: A tool call is carried out at most once. When its audit row shows an outcome, the row
  never changes again; a write or delete that is in flight is never started again, whatever
  happens to its worker: every later attempt to start it is refused without a change.
\<close>

theorem tool_call_once:
  assumes "history empty_store s" "history s s'" "c \<in> set (tool_calls s)"
    and "\<not> in_flight (tc_status c) \<or> tc_status c = Executing \<and> tc_effect c \<noteq> Some Read"
  shows "\<exists>c' \<in> set (tool_calls s'). tc_id c' = tc_id c \<and> tc_started_at c' = tc_started_at c \<and>
    (\<not> in_flight (tc_status c) \<longrightarrow> c' = c) \<and>
    (\<forall>callIn wo newId now. map to_lower (st_run callIn) = tc_run c \<and> st_call callIn = tc_call c \<longrightarrow>
       startToolCall callIn wo newId now s' = (Inl (RUN_LEASE_LOST (st_run callIn)), s'))"
proof -
  have ok: "store_ok s" "store_ok s'"
    using store_ok_history [OF assms(1) store_ok_empty] store_ok_history [OF assms(2)] by auto
  obtain c' where c': "c' \<in> set (tool_calls s')" "call_step c c'"
    using call_of_history [OF assms(2) ok(1) assms(3)] by blast
  have settled: "settled c'" and key: "call_key c' = call_key c"
    using c'(2) assms(4) by (auto simp: call_step_def settled_def)
  have "startToolCall callIn wo newId now s' = (Inl (RUN_LEASE_LOST (st_run callIn)), s')"
    if "map to_lower (st_run callIn) = tc_run c" "st_call callIn = tc_call c" for callIn wo newId now
  proof -
    have same: "same_call callIn c'" using key that by (simp add: same_call_def call_key_def)
    obtain d where d: "find_first (same_call callIn) (tool_calls s') = Some d"
      using same c'(1) by (cases "find_first (same_call callIn) (tool_calls s')") (auto simp: find_first_None)
    have "c' = d"
      using ok(2) by (intro the_call [OF _ d c'(1) same]) (simp add: store_ok_def calls_ok_def)
    moreover have "\<not> restartable c'"
      using settled by (auto simp: settled_def restartable_def in_flight_def)
    ultimately show ?thesis using d by (simp add: startToolCall_def)
  qed
  then show ?thesis
    using c' key assms(4) by (intro bexI [OF _ c'(1)]) (auto simp: call_step_def call_key_def settled_def)
qed


text \<open>The demonstration run is ended by its worker; another one finds the call settled.\<close>

definition demo_after :: run_store where
  "demo_after = snd (claim_run demo_child ''b'' 60 60 (snd (finish demo_id (Outcome_Succeeded (JStr ''done'')) (Some ''a'') 50 demo_store)))"

lemma demo_after_history: "history demo_store demo_after"
  unfolding demo_after_def
  by (rule history_step [OF _ step_claim], rule history_step [OF _ step_finish], rule history_refl)

definition demo_over :: run_store where
  "demo_over = snd (appendMessages demo_id [] None 70 demo_after)"

lemma demo_after_facts:
  "let s = demo_after; r = hd (runs s) in
     length (runs s) = 2 \<and> terminal (run_status r) \<and> run_id r = demo_id \<and> run_output r = JStr ''done''"
  by code_simp

lemma outcome_stands_witness:
  "\<exists>r' \<in> set (runs demo_over). run_id r' = demo_id \<and> run_output r' = JStr ''done''"
proof -
  have over: "terminal (run_status (hd (runs demo_after)))" "run_id (hd (runs demo_after)) = demo_id"
      "run_output (hd (runs demo_after)) = JStr ''done''" "runs demo_after \<noteq> []"
    using demo_after_facts unfolding Let_def by auto
  have "history demo_after demo_over"
    unfolding demo_over_def by (rule history_step [OF _ step_append], rule history_refl)
  moreover have "history empty_store demo_after"
    using demo_history demo_after_history unfolding history_def by (rule rtranclp_trans)
  ultimately show ?thesis
    using outcome_stands [of demo_after demo_over "hd (runs demo_after)"] over by (metis hd_in_set)
qed

lemma tool_call_once_witness:
  "\<exists>c' \<in> set (tool_calls demo_after). tc_id c' = ''t1'' \<and>
     startToolCall demo_call None ''t9'' 80 demo_after = (Inl (RUN_LEASE_LOST demo_id), demo_after)"
proof -
  have "\<not> in_flight (tc_status (hd (tool_calls demo_store))) \<or>
      tc_status (hd (tool_calls demo_store)) = Executing \<and> tc_effect (hd (tool_calls demo_store)) \<noteq> Some Read"
    using demo by blast
  from tool_call_once [OF demo_history demo_after_history demo_members(3) this] demo show ?thesis by metis
qed


end
