(* ===== verification/Agent_Loop.thy ===== *)
theory Agent_Loop
  imports Run_Lifecycle
begin

text \<open>
  The run loop of the agent runner (\<open>packages/agent-runner/src/loop/agent-loop.ts\<close> with the
  messages of \<open>model/messages.ts\<close>): it claims a run, works on its stored transcript until the run
  ends, parks or is lost, and settles the tool calls of a step. The model and the tools are
  parameters. Between any two awaited calls others may act: the world carries a finite list of
  ticks, each what the others commit to the store, the time, and the abort signal of the
  heartbeat; without a tick nothing changes. Reads of one step run in parallel in the code and
  one after the other here, all of them whatever happens to one.
\<close>

section \<open>Messages\<close>

text \<open>\<open>v?.k\<close> of an untyped value.\<close>

definition field :: "string \<Rightarrow> jsval \<Rightarrow> jsval" where
  "field k v = (case v of JObj kvs \<Rightarrow> (case map_of kvs k of Some x \<Rightarrow> x | None \<Rightarrow> JUndefined) | _ \<Rightarrow> JUndefined)"

record tool_result =
  tr_callId :: string
  tr_name :: string
  tr_output :: jsval

definition toolResultMessage :: "tool_result list \<Rightarrow> message_role \<times> jsval" where
  "toolResultMessage results = (Tool, JObj [(''role'', JStr ''tool''), (''content'', JArr (map (\<lambda>r.
     JObj [(''type'', JStr ''tool-result''), (''toolCallId'', JStr (tr_callId r)), (''toolName'', JStr (tr_name r)),
       (''output'', JObj [(''type'', JStr ''json''), (''value'', coalesce (tr_output r) JNull)])]) results))])"

definition STEP_LIMIT_NOTE :: string where
  "STEP_LIMIT_NOTE = ''This is your last step: you cannot call tools any more. Answer now with what you have found, '' @
     ''and say what you could not check.''"

definition stepLimitNote :: "message_role \<times> jsval" where
  "stepLimitNote = (User, JObj [(''role'', JStr ''user''), (''content'', JStr STEP_LIMIT_NOTE),
     (''providerOptions'', JObj [(''shipit'', JObj [(''kind'', JStr ''step-limit-note'')])])])"

definition isStepLimitNote :: "jsval \<Rightarrow> bool" where
  "isStepLimitNote message = (field ''kind'' (field ''shipit'' (field ''providerOptions'' message)) = JStr ''step-limit-note'')"

record call_request =
  cq_callId :: string
  cq_name :: string
  cq_input :: jsval

definition content_parts :: "jsval \<Rightarrow> jsval list" where
  "content_parts message = (case field ''content'' message of JArr parts \<Rightarrow> parts | _ \<Rightarrow> [])"

definition toolCallsOf :: "jsval \<Rightarrow> call_request list" where
  "toolCallsOf message =
     map (\<lambda>part. \<lparr>cq_callId = js_String (field ''toolCallId'' part), cq_name = js_String (field ''toolName'' part),
        cq_input = field ''input'' part\<rparr>)
       (filter (\<lambda>part. field ''type'' part = JStr ''tool-call'') (content_parts message))"

definition textOf :: "jsval \<Rightarrow> string" where
  "textOf message = (case field ''content'' message of
     JStr s \<Rightarrow> s
   | _ \<Rightarrow> join [] (map (\<lambda>part. js_String (field ''text'' part))
       (filter (\<lambda>part. field ''type'' part = JStr ''text'') (content_parts message))))"

definition is_question :: "jsval \<Rightarrow> bool" where
  "is_question m = (field ''role'' m = JStr ''user'' \<and> \<not> isStepLimitNote m)"

text \<open>The step limit notes before the last question are left out.\<close>

fun forModel :: "jsval list \<Rightarrow> jsval list" where
  "forModel [] = []"
| "forModel (m # ms) = (if isStepLimitNote m \<and> list_ex is_question ms then forModel ms else m # forModel ms)"

section \<open>Parameters and world\<close>

datatype process_outcome = Finished | Waiting | Not_Claimed | Lease_Lost
datatype abort_reason = Abort_Cancelled | Abort_Lease_Lost
datatype model_finish = Stop | Tool_Calls | Length | Refusal | Finish_Error
datatype model_call_error = Call_MODEL_ERROR | Call_CONTEXT_EXCEEDED | Call_ABORTED

record ai_model =
  am_key :: string
  am_tools :: bool

record model_tool =
  mt_name :: string
  mt_description :: string
  mt_inputSchema :: jsval

record model_request =
  mr_model :: ai_model
  mr_instructions :: string
  mr_messages :: "jsval list"
  mr_tools :: "model_tool list"
  mr_effort :: "string option"
  mr_timeout :: int

record step_result =
  sr_messages :: "(message_role \<times> jsval) list"
  sr_toolCalls :: "call_request list"
  sr_text :: string
  sr_finish :: model_finish
  sr_input :: nat
  sr_output :: nat

datatype model_answer = Answer step_result | Refused_Call model_call_error string | Crashed string

record runner_tool =
  rt_descriptor :: tool_descriptor
  rt_parse :: "jsval \<Rightarrow> string + jsval"
  rt_execute :: "jsval \<Rightarrow> nat \<Rightarrow> string + jsval"

text \<open>The model and the tools may answer differently each time: they see how many calls went before.\<close>

record loop_options =
  o_step :: "model_request \<Rightarrow> nat \<Rightarrow> model_answer"
  o_tools :: "runner_tool list"
  o_models :: "ai_model list"
  o_ceilings :: agent_limits
  o_resultChars :: nat
  o_owner :: string
  o_leaseSeconds :: int
  o_digest :: "string \<Rightarrow> string"
  o_uuid :: "nat \<Rightarrow> string"

record tick =
  tk_commits :: "run_store \<Rightarrow> run_store"
  tk_now :: int
  tk_abort :: "abort_reason option"

datatype run_event = Status_Event string run_status | Message_Event string nat

text \<open>What a run of a tool leaves in the world: the run, the call and the effect of the tool.\<close>

type_synonym execution = "string \<times> string \<times> tool_effect"

record runner_world =
  rw_db :: run_store
  rw_ticks :: "tick list"
  rw_now :: int
  rw_abort :: "abort_reason option"
  rw_count :: nat
  rw_model_calls :: nat
  rw_executed :: "execution list"
  rw_events :: "run_event list"

datatype thrown = Store_Error store_error | Other_Error string

type_synonym 'a act = "runner_world \<Rightarrow> (thrown + 'a) \<times> runner_world"

definition ret :: "'a \<Rightarrow> 'a act" where
  "ret x w = (Inr x, w)"

definition throw :: "thrown \<Rightarrow> 'a act" where
  "throw e w = (Inl e, w)"

definition and_then :: "'a act \<Rightarrow> ('a \<Rightarrow> 'b act) \<Rightarrow> 'b act" where
  "and_then m f w = (case m w of (Inl e, w') \<Rightarrow> (Inl e, w') | (Inr x, w') \<Rightarrow> f x w')"

text \<open>An action that looks at the signal or the clock.\<close>

definition with_world :: "(runner_world \<Rightarrow> 'a act) \<Rightarrow> 'a act" where
  "with_world f w = f w w"

text \<open>An await: the others get their turn.\<close>

definition turn :: "runner_world \<Rightarrow> runner_world" where
  "turn w = (case rw_ticks w of [] \<Rightarrow> w
     | t # ts \<Rightarrow> w\<lparr>rw_db := tk_commits t (rw_db w), rw_ticks := ts, rw_now := tk_now t,
         rw_abort := (case rw_abort w of Some a \<Rightarrow> Some a | None \<Rightarrow> tk_abort t)\<rparr>)"

definition query :: "(int \<Rightarrow> run_store \<Rightarrow> 'a \<times> run_store) \<Rightarrow> runner_world \<Rightarrow> 'a \<times> runner_world" where
  "query f w = (let w1 = turn w in case f (rw_now w1) (rw_db w1) of (x, s) \<Rightarrow> (x, w1\<lparr>rw_db := s\<rparr>))"

definition asks :: "(int \<Rightarrow> run_store \<Rightarrow> 'a \<times> run_store) \<Rightarrow> 'a act" where
  "asks f w = (case query f w of (x, w') \<Rightarrow> (Inr x, w'))"

definition tries :: "(int \<Rightarrow> run_store \<Rightarrow> (store_error + 'a) \<times> run_store) \<Rightarrow> 'a act" where
  "tries f w = (case query f w of (Inl e, w') \<Rightarrow> (Inl (Store_Error e), w') | (Inr x, w') \<Rightarrow> (Inr x, w'))"

definition publish :: "run_event \<Rightarrow> unit act" where
  "publish ev w = (Inr (), w\<lparr>rw_events := rw_events w @ [ev]\<rparr>)"

definition stopFor :: "runner_world \<Rightarrow> abort_reason option" where
  "stopFor w = rw_abort w"

section \<open>Endings\<close>

definition append_run :: "string \<Rightarrow> run_row \<Rightarrow> (message_role \<times> jsval) list \<Rightarrow> unit act" where
  "append_run holder run messages =
     and_then (tries (appendMessages (run_id run) messages (Some holder))) (\<lambda>appended.
       if appended = [] then ret () else publish (Message_Event (run_id run) (msg_seq (last appended))))"

definition finish_with :: "string \<Rightarrow> run_row \<Rightarrow> run_outcome \<Rightarrow> process_outcome act" where
  "finish_with holder run outcome =
     and_then (tries (finish (run_id run) outcome (Some holder))) (\<lambda>done1.
       and_then (case done1 of Some r \<Rightarrow> publish (Status_Event (run_id run) (run_status r)) | None \<Rightarrow> ret ()) (\<lambda>_.
         ret Finished))"

definition fail :: "string \<Rightarrow> run_row \<Rightarrow> run_error_code \<Rightarrow> string \<Rightarrow> process_outcome act" where
  "fail holder run code message = finish_with holder run (Outcome_Failed (code, message) None)"

section \<open>Limits\<close>

record usage =
  u_steps :: int
  u_tokens :: int

definition isLastStep :: "usage \<Rightarrow> agent_limits \<Rightarrow> bool" where
  "isLastStep spent limits = (u_steps spent + 1 \<ge> int (maxSteps limits))"

definition lowest :: "agent_limits \<Rightarrow> agent_limits \<Rightarrow> agent_limits" where
  "lowest own ceils = \<lparr>maxSteps = min (maxSteps own) (maxSteps ceils), maxTokens = min (maxTokens own) (maxTokens ceils),
     timeoutSeconds = min (timeoutSeconds own) (timeoutSeconds ceils), dailyTokens = min (dailyTokens own) (dailyTokens ceils)\<rparr>"

definition usage_from :: "run_row option \<Rightarrow> run_row \<Rightarrow> usage" where
  "usage_from base r = \<lparr>
     u_steps = int (run_steps r) - (case base of Some b \<Rightarrow> int (run_steps b) | None \<Rightarrow> 0),
     u_tokens = int (run_input_tokens r + run_output_tokens r)
       - (case base of Some b \<Rightarrow> int (run_input_tokens b + run_output_tokens b) | None \<Rightarrow> 0)\<rparr>"

definition step_limit_message :: "agent_limits \<Rightarrow> string" where
  "step_limit_message limits = ''The run reached its limit of '' @ show_nat (maxSteps limits) @ '' model steps.''"

definition timeout_message :: "agent_limits \<Rightarrow> string" where
  "timeout_message limits = ''The run passed its timeout of '' @ show_nat (timeoutSeconds limits) @ '' seconds.''"

text \<open>What stays the same during one call of \<open>drive\<close>.\<close>

record drive_context =
  dc_holder :: string
  dc_model :: ai_model
  dc_limits :: agent_limits
  dc_offered :: "(string \<times> resolved_tool \<times> runner_tool) list"
  dc_start :: int
  dc_base :: "run_row option"

definition ask_row :: "run_row \<Rightarrow> run_row act" where
  "ask_row run = and_then (asks (\<lambda>now s. (get_run (run_id run) s, s))) (\<lambda>found.
     ret (case found of Some r \<Rightarrow> r | None \<Rightarrow> run))"

definition stop_step :: "process_outcome act \<Rightarrow> process_outcome option act" where
  "stop_step m = and_then m (\<lambda>out. ret (Some out))"

definition daily_check :: "drive_context \<Rightarrow> run_row \<Rightarrow> int \<Rightarrow> process_outcome option act" where
  "daily_check c run now1 =
     and_then (asks (\<lambda>now s. (tokensOnDay (run_agent run) now1 s, s))) (\<lambda>today.
       if today \<ge> dailyTokens (dc_limits c)
       then stop_step (fail (dc_holder c) run DAILY_LIMIT (''The agent used '' @ show_nat today @
         '' tokens today, over its daily limit of '' @ show_nat (dailyTokens (dc_limits c)) @ ''.''))
       else ret None)"

definition limit_checks :: "drive_context \<Rightarrow> run_row \<Rightarrow> run_row \<Rightarrow> int \<Rightarrow> process_outcome option act" where
  "limit_checks c run current now1 =
     (let spent = usage_from (dc_base c) current; limits = dc_limits c in
      if u_steps spent \<ge> int (maxSteps limits)
      then stop_step (fail (dc_holder c) run STEP_LIMIT (step_limit_message limits))
      else if u_tokens spent \<ge> int (maxTokens limits)
      then stop_step (fail (dc_holder c) run BUDGET_EXCEEDED (''The run used '' @ show_nat (nat (u_tokens spent)) @
        '' tokens, over its limit of '' @ show_nat (maxTokens limits) @ ''.''))
      else if now1 - dc_start c \<ge> int (timeoutSeconds limits) * 1000
      then stop_step (fail (dc_holder c) run TIMEOUT (timeout_message limits))
      else daily_check c run now1)"

definition checkBeforeStep :: "drive_context \<Rightarrow> run_row \<Rightarrow> process_outcome option act" where
  "checkBeforeStep c run = with_world (\<lambda>w.
     if stopFor w = Some Abort_Lease_Lost then ret (Some Lease_Lost)
     else and_then (ask_row run) (\<lambda>current.
       if stopFor w = Some Abort_Cancelled \<or> cancel_requested current
       then stop_step (finish_with (dc_holder c) run (Outcome_Cancelled None))
       else with_world (\<lambda>w1. limit_checks c run current (rw_now w1))))"

section \<open>Tools of a run\<close>

text \<open>\<open>map.set(k, v)\<close> on the entries of a \<open>Map\<close>, in insertion order.\<close>

fun entry_set :: "('k \<times> 'v) list \<Rightarrow> 'k \<Rightarrow> 'v \<Rightarrow> ('k \<times> 'v) list" where
  "entry_set [] k v = [(k, v)]"
| "entry_set ((k1, v1) # es) k v = (if k1 = k then (k, v) # es else (k1, v1) # entry_set es k v)"

definition tool_by_id :: "runner_tool list \<Rightarrow> string \<Rightarrow> runner_tool option" where
  "tool_by_id tools i = find_first (\<lambda>t. tool_id (rt_descriptor t) = i) (rev tools)"

definition field_true :: "jsval \<Rightarrow> bool" where
  "field_true v = (\<not> nullish v)"

definition offer_notes :: "run_row \<Rightarrow> ai_model \<Rightarrow> resolved_tool list \<Rightarrow> string list \<Rightarrow> string list" where
  "offer_notes run model tools warnings = warnings
     @ map (\<lambda>t. tool_id t @ '' needs approval before it runs. Approvals are not available yet, so it was not offered.'')
         (filter (\<lambda>t. tool_policy t = Ask) tools)
     @ (if \<not> am_tools model \<and> filter (\<lambda>t. tool_policy t = Allow) tools \<noteq> []
        then [''Model '' @ am_key model @ '' cannot call tools, so none were offered.''] else [])
     @ (if field_true (ad_output_schema (run_definition run))
        then [''Structured output is not available yet; the run returns text.''] else [])"

fun add_notes :: "string \<Rightarrow> string list \<Rightarrow> unit act" where
  "add_notes i [] = ret ()"
| "add_notes i (n # ns) = and_then (tries (addWarning i n)) (\<lambda>_. add_notes i ns)"

definition offered_tools :: "loop_options \<Rightarrow> resolved_tool list \<Rightarrow> (string \<times> resolved_tool \<times> runner_tool) list" where
  "offered_tools opts allowed = fold (\<lambda>t m. case tool_by_id (o_tools opts) (tool_id t) of
       Some tool \<Rightarrow> entry_set m (modelName t) (t, tool) | None \<Rightarrow> m) allowed []"

definition offerTools :: "loop_options \<Rightarrow> run_row \<Rightarrow> ai_model \<Rightarrow> (string \<times> resolved_tool \<times> runner_tool) list act" where
  "offerTools opts run model =
     (case resolveTools (o_digest opts) (run_definition run) (map rt_descriptor (o_tools opts)) (run_policy run) of
        (tools, warnings) \<Rightarrow>
          let allowed = (if am_tools model then filter (\<lambda>t. tool_policy t = Allow) tools else [])
          in and_then (add_notes (run_id run) (offer_notes run model tools warnings)) (\<lambda>_.
            ret (offered_tools opts allowed)))"

section \<open>The model step\<close>

definition remaining_ms :: "drive_context \<Rightarrow> runner_world \<Rightarrow> int" where
  "remaining_ms c w = dc_start c + int (timeoutSeconds (dc_limits c)) * 1000 - rw_now w"

definition request_of :: "drive_context \<Rightarrow> run_row \<Rightarrow> message_row list \<Rightarrow> runner_world \<Rightarrow> model_request" where
  "request_of c run messages w =
     (let d = run_definition run in \<lparr>
        mr_model = dc_model c,
        mr_instructions = (if isLastStep (usage_from (dc_base c) run) (dc_limits c)
          then ad_instructions d @ [CHR 0x0A, CHR 0x0A] @ STEP_LIMIT_NOTE else ad_instructions d),
        mr_messages = forModel (map msg_content messages),
        mr_tools = map (\<lambda>(name, rtool, tool). \<lparr>mt_name = modelName rtool, mt_description = tool_description rtool,
          mt_inputSchema = tool_inputSchema rtool\<rparr>) (dc_offered c),
        mr_effort = (case ad_effort d of Some e \<Rightarrow> if e = [] then None else Some e | None \<Rightarrow> None),
        mr_timeout = max (remaining_ms c w) 1\<rparr>)"

fun call_error_code :: "model_call_error \<Rightarrow> run_error_code" where
  "call_error_code Call_CONTEXT_EXCEEDED = CONTEXT_EXCEEDED"
| "call_error_code _ = MODEL_ERROR"

definition ask_model :: "loop_options \<Rightarrow> model_request \<Rightarrow> model_answer act" where
  "ask_model opts req w = (Inr (o_step opts req (rw_model_calls w)), turn (w\<lparr>rw_model_calls := rw_model_calls w + 1\<rparr>))"

definition stop_with :: "process_outcome act \<Rightarrow> (process_outcome + 'a) act" where
  "stop_with m = and_then m (\<lambda>out. ret (Inl out))"

definition model_result :: "drive_context \<Rightarrow> run_row \<Rightarrow> model_answer \<Rightarrow> (process_outcome + step_result) act" where
  "model_result c run answer = (case answer of
     Answer step \<Rightarrow> ret (Inr step)
   | Crashed message \<Rightarrow> throw (Other_Error message)
   | Refused_Call code message \<Rightarrow>
       if code \<noteq> Call_ABORTED then stop_with (fail (dc_holder c) run (call_error_code code) message)
       else with_world (\<lambda>w. case stopFor w of
           Some Abort_Lease_Lost \<Rightarrow> ret (Inl Lease_Lost)
         | Some Abort_Cancelled \<Rightarrow> stop_with (finish_with (dc_holder c) run (Outcome_Cancelled None))
         | None \<Rightarrow> stop_with (fail (dc_holder c) run TIMEOUT (timeout_message (dc_limits c)))))"

definition callModel ::
    "loop_options \<Rightarrow> drive_context \<Rightarrow> run_row \<Rightarrow> message_row list \<Rightarrow> (process_outcome + step_result) act" where
  "callModel opts c run messages =
     with_world (\<lambda>w. and_then (ask_model opts (request_of c run messages w)) (model_result c run))"

section \<open>Tool calls of a step\<close>

definition fit :: "nat \<Rightarrow> jsval \<Rightarrow> jsval \<times> bool" where
  "fit limit output =
     (let t = (case stringify (coalesce output JNull) of Some t \<Rightarrow> t | None \<Rightarrow> []) in
      if length t \<le> limit then (coalesce output JNull, False)
      else let content = take limit t in
        (JObj [(''truncated'', JBool True),
           (''note'', JStr (''Result truncated to '' @ show_nat (length content) @ '' of '' @ show_nat (length t) @ '' characters.'')),
           (''content'', JStr content)], True))"

definition resultOf :: "nat \<Rightarrow> tool_call_row \<Rightarrow> jsval" where
  "resultOf limit c = (if tc_status c = Call_Succeeded then fst (fit limit (tc_output c)) else JObj [(''error'', tc_error c)])"

definition error_value :: "string \<Rightarrow> string \<Rightarrow> jsval" where
  "error_value code message = JObj [(''code'', JStr code), (''message'', JStr message)]"

datatype call_task =
    Known jsval
  | Unknown_Tool
  | Interrupted tool_call_row
  | Invalid resolved_tool string
  | Execute resolved_tool runner_tool jsval

definition task_of ::
    "drive_context \<Rightarrow> nat \<Rightarrow> tool_call_row list \<Rightarrow> call_request \<Rightarrow> call_task" where
  "task_of c limit recorded call =
     (let prior = find_first (\<lambda>r. tc_call r = cq_callId call) (rev recorded) in
      case prior of
        Some p \<Rightarrow> if \<not> in_flight (tc_status p) then Known (resultOf limit p)
          else (case map_of (dc_offered c) (cq_name call) of
              None \<Rightarrow> Unknown_Tool
            | Some (rtool, tool) \<Rightarrow>
                if tc_status p = Executing \<and> tool_effect rtool \<noteq> Read then Interrupted p
                else (case rt_parse tool (cq_input call) of
                  Inl message \<Rightarrow> Invalid rtool message | Inr v \<Rightarrow> Execute rtool tool v))
      | None \<Rightarrow> (case map_of (dc_offered c) (cq_name call) of
              None \<Rightarrow> Unknown_Tool
            | Some (rtool, tool) \<Rightarrow> (case rt_parse tool (cq_input call) of
                  Inl message \<Rightarrow> Invalid rtool message | Inr v \<Rightarrow> Execute rtool tool v)))"

definition is_write_task :: "call_task \<Rightarrow> bool" where
  "is_write_task t = (case t of Interrupted _ \<Rightarrow> True | Execute rtool _ _ \<Rightarrow> tool_effect rtool \<noteq> Read | _ \<Rightarrow> False)"

definition base_input :: "string \<Rightarrow> nat \<Rightarrow> call_request \<Rightarrow> resolved_tool \<Rightarrow> call_status \<Rightarrow> jsval \<Rightarrow> start_call_input" where
  "base_input runId messageSeq call rtool status error = \<lparr>st_run = runId, st_call = cq_callId call,
     st_message_seq = messageSeq, st_tool = tool_id rtool, st_service = Some (tool_service rtool),
     st_effect = Some (tool_effect rtool), st_policy = tool_policy rtool, st_decision = Decide_Allow,
     st_status = status, st_input = coalesce (cq_input call) JNull, st_error = error\<rparr>"

definition denied_input :: "string \<Rightarrow> nat \<Rightarrow> call_request \<Rightarrow> jsval \<Rightarrow> start_call_input" where
  "denied_input runId messageSeq call error = \<lparr>st_run = runId, st_call = cq_callId call,
     st_message_seq = messageSeq, st_tool = cq_name call, st_service = None, st_effect = None, st_policy = Off,
     st_decision = Decide_Deny, st_status = Denied, st_input = coalesce (cq_input call) JNull, st_error = error\<rparr>"

text \<open>A fresh id is drawn for every audit row that may be inserted.\<close>

definition start_call :: "loop_options \<Rightarrow> string \<Rightarrow> start_call_input \<Rightarrow> tool_call_row act" where
  "start_call opts holder inp w =
     tries (startToolCall inp (Some holder) (o_uuid opts (rw_count w))) (w\<lparr>rw_count := rw_count w + 1\<rparr>)"

definition failed_result :: "jsval \<Rightarrow> call_result" where
  "failed_result error = \<lparr>res_status = Run_Store.Call_Failed, res_output = JUndefined, res_truncated = False, res_error = error\<rparr>"

text \<open>The tool runs: it leaves its mark in the world and takes its time.\<close>

definition run_tool :: "string \<Rightarrow> string \<Rightarrow> resolved_tool \<Rightarrow> runner_tool \<Rightarrow> jsval \<Rightarrow> runner_world \<Rightarrow> (string + jsval) \<times> runner_world" where
  "run_tool runId callId rtool tool v w =
     (rt_execute tool v (length (rw_executed w)),
      turn (w\<lparr>rw_executed := rw_executed w @ [(runId, callId, tool_effect rtool)]\<rparr>))"

definition tool_failed :: "tool_call_row \<Rightarrow> string \<Rightarrow> jsval act" where
  "tool_failed row message =
     (let error = error_value ''TOOL_ERROR'' message in
      and_then (tries (finishToolCall (tc_id row) (failed_result error))) (\<lambda>_. ret (JObj [(''error'', error)])))"

text \<open>The only error of \<open>finishToolCall\<close> is that there is no such row.\<close>

definition thrown_text :: "thrown \<Rightarrow> string" where
  "thrown_text e = (case e of Store_Error (CALL_NOT_FOUND i) \<Rightarrow> ''Tool call '' @ i @ '' not found'' | Other_Error m \<Rightarrow> m | _ \<Rightarrow> [])"

definition execute ::
    "loop_options \<Rightarrow> string \<Rightarrow> string \<Rightarrow> nat \<Rightarrow> call_request \<Rightarrow> resolved_tool \<Rightarrow> runner_tool \<Rightarrow> jsval \<Rightarrow> jsval act" where
  "execute opts holder runId messageSeq call rtool tool v =
     and_then (start_call opts holder (base_input runId messageSeq call rtool Executing JUndefined)) (\<lambda>row w.
       case run_tool runId (cq_callId call) rtool tool v w of
         (Inl message, w1) \<Rightarrow> tool_failed row message w1
       | (Inr output, w1) \<Rightarrow>
           (case fit (o_resultChars opts) output of (fitted, truncated) \<Rightarrow>
              (case tries (finishToolCall (tc_id row) \<lparr>res_status = Call_Succeeded, res_output = coalesce output JNull,
                  res_truncated = truncated, res_error = JUndefined\<rparr>) w1 of
                 (Inr _, w2) \<Rightarrow> (Inr fitted, w2)
               | (Inl e, w2) \<Rightarrow> tool_failed row (thrown_text e) w2)))"

definition run_task ::
    "loop_options \<Rightarrow> string \<Rightarrow> string \<Rightarrow> nat \<Rightarrow> call_request \<Rightarrow> call_task \<Rightarrow> jsval act" where
  "run_task opts holder runId messageSeq call t = (case t of
     Known v \<Rightarrow> ret v
   | Unknown_Tool \<Rightarrow>
       let error = error_value ''UNKNOWN_TOOL'' (''There is no tool named '' @ cq_name call @ ''. Use only the tools you were given.'')
       in and_then (start_call opts holder (denied_input runId messageSeq call error)) (\<lambda>_. ret (JObj [(''error'', error)]))
   | Interrupted p \<Rightarrow>
       let error = error_value ''OUTCOME_UNKNOWN'' (''The runner stopped while this call was running, so it may or may not have '' @
         ''taken effect. Check its result before trying again.'')
       in and_then (tries (finishToolCall (tc_id p) \<lparr>res_status = Outcome_Unknown, res_output = JUndefined,
            res_truncated = False, res_error = error\<rparr>)) (\<lambda>_. ret (JObj [(''error'', error)]))
   | Invalid rtool message \<Rightarrow>
       let error = error_value ''INVALID_INPUT'' message
       in and_then (start_call opts holder (base_input runId messageSeq call rtool Run_Store.Call_Failed error)) (\<lambda>_.
            ret (JObj [(''error'', error)]))
   | Execute rtool tool v \<Rightarrow> execute opts holder runId messageSeq call rtool tool v)"

type_synonym planned = "nat \<times> call_request \<times> call_task"

text \<open>Every read runs; the first error is thrown in the end.\<close>

fun run_reads :: "(call_request \<Rightarrow> call_task \<Rightarrow> jsval act) \<Rightarrow> planned list \<Rightarrow> (nat \<times> jsval) list act" where
  "run_reads run1 [] w = (Inr [], w)"
| "run_reads run1 ((i, call, t) # ps) w =
     (case run1 call t w of
        (Inl e, w1) \<Rightarrow> (Inl e, snd (run_reads run1 ps w1))
      | (Inr v, w1) \<Rightarrow> (case run_reads run1 ps w1 of
            (Inl e, w2) \<Rightarrow> (Inl e, w2) | (Inr outs, w2) \<Rightarrow> (Inr ((i, v) # outs), w2)))"

fun run_writes :: "(call_request \<Rightarrow> call_task \<Rightarrow> jsval act) \<Rightarrow> planned list \<Rightarrow> (nat \<times> jsval) list act" where
  "run_writes run1 [] w = (Inr [], w)"
| "run_writes run1 ((i, call, t) # ps) w =
     (if stopFor w = Some Abort_Lease_Lost then (Inr [], w)
      else and_then (run1 call t) (\<lambda>v. and_then (run_writes run1 ps) (\<lambda>outs. ret ((i, v) # outs))) w)"

definition settleCalls ::
    "loop_options \<Rightarrow> drive_context \<Rightarrow> run_row \<Rightarrow> nat \<Rightarrow> call_request list \<Rightarrow> tool_result list act" where
  "settleCalls opts c run messageSeq calls =
     and_then (asks (\<lambda>now s. (listToolCalls (run_id run) s, s))) (\<lambda>recorded.
       let plan = map (\<lambda>(i, call). (i, call, task_of c (o_resultChars opts) recorded call)) (enumerate 0 calls);
           run1 = run_task opts (dc_holder c) (run_id run) messageSeq
       in and_then (run_reads run1 (filter (\<lambda>(i, call, t). \<not> is_write_task t) plan)) (\<lambda>outs1.
          and_then (run_writes run1 (filter (\<lambda>(i, call, t). is_write_task t) plan)) (\<lambda>outs2.
            ret (map (\<lambda>(i, call). \<lparr>tr_callId = cq_callId call, tr_name = cq_name call,
                tr_output = (case map_of (outs1 @ outs2) i of Some v \<Rightarrow> v | None \<Rightarrow> JUndefined)\<rparr>) (enumerate 0 calls)))))"

section \<open>The loop\<close>

text \<open>One pass: the run goes on with a new row, or is over for this worker.\<close>

definition after_calls ::
    "loop_options \<Rightarrow> drive_context \<Rightarrow> run_row \<Rightarrow> message_row \<Rightarrow> call_request list \<Rightarrow> (process_outcome + run_row) act" where
  "after_calls opts c run lastMsg calls =
     and_then (settleCalls opts c run (msg_seq lastMsg) calls) (\<lambda>results. with_world (\<lambda>w.
       if stopFor w = Some Abort_Lease_Lost then ret (Inl Lease_Lost)
       else and_then (append_run (dc_holder c) run [toolResultMessage results]) (\<lambda>_. ret (Inr run))))"

definition park :: "drive_context \<Rightarrow> run_row \<Rightarrow> process_outcome act" where
  "park c run =
     and_then (tries (waitForInput (run_id run) (Some (dc_holder c)))) (\<lambda>parked1.
       let cancelled = (case parked1 of Some r \<Rightarrow> run_status r = Cancelled | None \<Rightarrow> False) in
       and_then (publish (Status_Event (run_id run) (if cancelled then Cancelled else Waiting_Input))) (\<lambda>_.
         ret (if cancelled then Finished else Waiting)))"

definition record_step :: "run_row \<Rightarrow> step_result \<Rightarrow> run_row act" where
  "record_step run step = tries (recordStep (run_id run) (sr_input step) (sr_output step))"

definition after_step ::
    "drive_context \<Rightarrow> run_row \<Rightarrow> step_result \<Rightarrow> (process_outcome + run_row) act" where
  "after_step c run step =
     (if sr_finish step = Refusal
      then and_then (record_step run step) (\<lambda>_. stop_with (fail (dc_holder c) run MODEL_REFUSED
        (if sr_text step = [] then ''The model declined to answer.'' else sr_text step)))
      else if sr_messages step = [] \<or> sr_finish step = Finish_Error \<and> sr_toolCalls step = []
      then and_then (record_step run step) (\<lambda>_. stop_with (fail (dc_holder c) run MODEL_ERROR
        ''The model stopped without an answer.''))
      else
        let lastStep = isLastStep (usage_from (dc_base c) run) (dc_limits c) in
        and_then (append_run (dc_holder c) run (sr_messages step)) (\<lambda>_.
        and_then (record_step run step) (\<lambda>run'.
          if lastStep \<and> sr_toolCalls step \<noteq> []
          then stop_with (fail (dc_holder c) run' STEP_LIMIT (step_limit_message (dc_limits c)))
          else if sr_finish step = Length \<and> sr_toolCalls step = []
          then and_then (tries (addWarning (run_id run) (''The answer was cut off at the model'' @ [CHR 0x27] @ ''s output limit.''))) (\<lambda>_.
            ret (Inr run'))
          else ret (Inr run'))))"

definition model_pass ::
    "loop_options \<Rightarrow> drive_context \<Rightarrow> run_row \<Rightarrow> message_row list \<Rightarrow> (process_outcome + run_row) act" where
  "model_pass opts c run messages =
     and_then (checkBeforeStep c run) (\<lambda>blocked. case blocked of
         Some out \<Rightarrow> ret (Inl out)
       | None \<Rightarrow>
           if isLastStep (usage_from (dc_base c) run) (dc_limits c) \<and>
              \<not> (messages \<noteq> [] \<and> isStepLimitNote (msg_content (last messages)))
           then and_then (append_run (dc_holder c) run [stepLimitNote]) (\<lambda>_. ret (Inr run))
           else and_then (callModel opts c run messages) (\<lambda>answer. case answer of
               Inl out \<Rightarrow> ret (Inl out) | Inr step \<Rightarrow> after_step c run step))"

definition drive_pass :: "loop_options \<Rightarrow> drive_context \<Rightarrow> run_row \<Rightarrow> (process_outcome + run_row) act" where
  "drive_pass opts c run =
     and_then (asks (\<lambda>now s. (listMessages (run_id run) None s, s))) (\<lambda>messages.
       if messages \<noteq> [] \<and> msg_role (last messages) = Assistant
       then let lastMsg = last messages; calls = toolCallsOf (msg_content lastMsg) in
         if calls \<noteq> [] then after_calls opts c run lastMsg calls
         else if run_mode run = Chat then stop_with (park c run)
         else stop_with (finish_with (dc_holder c) run
           (Outcome_Succeeded (JObj [(''text'', JStr (textOf (msg_content lastMsg)))])))
       else model_pass opts c run messages)"

text \<open>The loop itself may not end; \<open>None\<close> is out of fuel.\<close>

fun drive_loop ::
    "nat \<Rightarrow> loop_options \<Rightarrow> drive_context \<Rightarrow> run_row \<Rightarrow> runner_world \<Rightarrow> ((thrown + process_outcome) \<times> runner_world) option" where
  "drive_loop 0 opts c run w = None"
| "drive_loop (Suc n) opts c run w = (case drive_pass opts c run w of
     (Inl e, w') \<Rightarrow> Some (Inl e, w')
   | (Inr (Inl out), w') \<Rightarrow> Some (Inr out, w')
   | (Inr (Inr run'), w') \<Rightarrow> drive_loop n opts c run' w')"

definition context_of ::
    "loop_options \<Rightarrow> string \<Rightarrow> run_row \<Rightarrow> ai_model \<Rightarrow> (string \<times> resolved_tool \<times> runner_tool) list \<Rightarrow> int \<Rightarrow> drive_context" where
  "context_of opts holder run model offered now = \<lparr>dc_holder = holder, dc_model = model,
     dc_limits = lowest (ad_limits (run_definition run)) (o_ceilings opts), dc_offered = offered,
     dc_start = (if run_mode run = Chat then now else (case run_started_at run of Some t \<Rightarrow> t | None \<Rightarrow> now)),
     dc_base = (if run_mode run = Chat then Some run else None)\<rparr>"

definition drive ::
    "nat \<Rightarrow> loop_options \<Rightarrow> string \<Rightarrow> run_row \<Rightarrow> runner_world \<Rightarrow> ((thrown + process_outcome) \<times> runner_world) option" where
  "drive fuel opts holder run w =
     (case find_first (\<lambda>m. am_key m = ad_model (run_definition run)) (o_models opts) of
        None \<Rightarrow> Some (fail holder run MODEL_ERROR
          (''Model '' @ ad_model (run_definition run) @ '' is not offered on this instance.'') w)
      | Some model \<Rightarrow>
          (case offerTools opts run model w of
             (Inl e, w1) \<Rightarrow> Some (Inl e, w1)
           | (Inr offered, w1) \<Rightarrow>
               drive_loop fuel opts (context_of opts holder run model offered (rw_now w1)) run w1))"

definition process_run ::
    "nat \<Rightarrow> loop_options \<Rightarrow> string \<Rightarrow> runner_world \<Rightarrow> ((thrown + process_outcome) \<times> runner_world) option" where
  "process_run fuel opts runId w =
     (let holder = o_owner opts @ '':'' @ take 8 (o_uuid opts (rw_count w));
          w0 = w\<lparr>rw_count := rw_count w + 1\<rparr> in
      case query (claim_run runId holder (o_leaseSeconds opts)) w0 of
        (None, w1) \<Rightarrow> Some (Inr Not_Claimed, w1)
      | (Some run, w1) \<Rightarrow>
          (case drive fuel opts holder run ((snd (publish (Status_Event runId Running) w1))\<lparr>rw_abort := None\<rparr>) of
             None \<Rightarrow> None
           | Some (Inl (Store_Error (RUN_LEASE_LOST _)), w2) \<Rightarrow> Some (Inr Lease_Lost, w2)
           | Some r \<Rightarrow> Some r))"

end
