(* ===== verification/Agent_Loop_Frames.thy ===== *)
theory Agent_Loop_Frames
  imports Agent_Loop
begin

text \<open>
  How a relation between the world before and after is followed through the run loop. The
  composite actions are followed once, in locales over the relation; a property instantiates
  the relation and shows it for the primitive actions only. \<open>triple\<close> does the same for a
  condition that depends on the result.
\<close>

section \<open>Relations that every action of the loop keeps\<close>

definition obeys :: "(runner_world \<Rightarrow> runner_world \<Rightarrow> bool) \<Rightarrow> 'a act \<Rightarrow> bool" where
  "obeys R m \<longleftrightarrow> (\<forall>w. R w (snd (m w)))"

lemma obeysD: "obeys R m \<Longrightarrow> R w (snd (m w))"
  by (simp add: obeys_def)

text \<open>A relation that holds over any await.\<close>

locale awaiting =
  fixes R :: "runner_world \<Rightarrow> runner_world \<Rightarrow> bool"
  assumes refl: "R w w"
    and trans: "R u v \<Longrightarrow> R v w \<Longrightarrow> R u w"
    and turning: "R w (turn w)"
begin

lemma reading: "(\<And>now s. snd (f now s) = s) \<Longrightarrow> obeys R (asks f)"
  using turning by (auto simp: obeys_def asks_def query_def Let_def split: prod.split)
    (metis (no_types, lifting) prod.collapse snd_conv runner_world.surjective runner_world.update_convs(1))

lemma obeys_ret: "obeys R (ret x)"
  by (simp add: obeys_def ret_def refl)

lemma obeys_and_then: "obeys R m \<Longrightarrow> (\<And>x. obeys R (f x)) \<Longrightarrow> obeys R (and_then m f)"
  unfolding obeys_def
proof (intro allI)
  fix w assume m: "\<forall>w. R w (snd (m w))" and f: "\<And>x. \<forall>w. R w (snd (f x w))"
  obtain r w1 where mw: "m w = (r, w1)" by fastforce
  then have "R w w1" using m by (metis snd_conv)
  then show "R w (snd (and_then m f w))"
    using trans f by (cases r) (auto simp: and_then_def mw)
qed

lemma obeys_if: "obeys R m \<Longrightarrow> obeys R m' \<Longrightarrow> obeys R (if b then m else m')"
  by simp

lemma obeys_with_world: "(\<And>w. obeys R (f w)) \<Longrightarrow> obeys R (with_world f)"
  by (simp add: obeys_def with_world_def)

lemma obeys_throw: "obeys R (throw e)"
  by (simp add: obeys_def throw_def refl)

end

text \<open>The actions of \<open>settleCalls\<close>.\<close>

locale settling = awaiting +
  assumes starting: "obeys R (start_call opts holder inp)"
    and ending_call: "\<not> in_flight (res_status res) \<Longrightarrow> obeys R (tries (finishToolCall i res))"
    and executing: "obeys R (execute opts holder i sq call rtool tool arg)"
begin

lemma obeys_run_task: "obeys R (run_task opts holder i sq call t)"
  by (cases t) (auto simp: run_task_def Let_def in_flight_def
    intro!: obeys_and_then obeys_ret starting ending_call executing)

lemma obeys_run_reads: "(\<And>call t. obeys R (run1 call t)) \<Longrightarrow> obeys R (run_reads run1 ps)"
proof (induction ps)
  case Nil
  then show ?case by (simp add: obeys_def refl)
next
  case (Cons p ps)
  obtain i call t where p: "p = (i, call, t)" by (cases p)
  show ?case unfolding obeys_def
  proof
    fix w
    obtain r w1 where run1: "run1 call t w = (r, w1)" by fastforce
    have "R w w1" using obeysD [OF Cons.prems, of w call t] run1 by simp
    moreover have "R w1 (snd (run_reads run1 ps w1))" using obeysD [OF Cons.IH [OF Cons.prems]] .
    ultimately have "R w (snd (run_reads run1 ps w1))" by (rule trans)
    then show "R w (snd (run_reads run1 (p # ps) w))"
      using run1 p by (auto split: sum.splits prod.splits)
  qed
qed

lemma obeys_run_writes: "(\<And>call t. obeys R (run1 call t)) \<Longrightarrow> obeys R (run_writes run1 ps)"
proof (induction ps)
  case Nil
  then show ?case by (simp add: obeys_def refl)
next
  case (Cons p ps)
  obtain i call t where p: "p = (i, call, t)" by (cases p)
  have "obeys R (and_then (run1 call t) (\<lambda>v. and_then (run_writes run1 ps) (\<lambda>outs. ret ((i, v) # outs))))"
    by (intro obeys_and_then obeys_ret Cons.prems Cons.IH)
  then show ?case using p refl by (simp add: obeys_def)
qed

lemma obeys_settleCalls: "obeys R (settleCalls opts c run sq calls)"
  unfolding settleCalls_def Let_def
  by (intro obeys_and_then obeys_ret obeys_run_reads obeys_run_writes obeys_run_task reading) simp

end

text \<open>A relation that does not look at what tools did: it holds over \<open>execute\<close> as well.\<close>

locale marking = awaiting +
  assumes starting: "obeys R (start_call opts holder inp)"
    and ending_call: "\<not> in_flight (res_status res) \<Longrightarrow> obeys R (tries (finishToolCall i res))"
    and marking: "R w (w\<lparr>rw_executed := es\<rparr>)"
begin

lemma obeys_tool_failed: "obeys R (tool_failed row message)"
  unfolding tool_failed_def Let_def
  by (intro obeys_and_then obeys_ret ending_call) (simp add: failed_result_def in_flight_def)

lemma run_tool_R: "R w (snd (run_tool i callId rtool tool arg w))"
  unfolding run_tool_def using trans [OF marking turning] by simp

lemma obeys_execute: "obeys R (execute opts holder i sq call rtool tool arg)"
  unfolding execute_def
proof (rule obeys_and_then [OF starting], unfold obeys_def, rule allI)
  fix row :: tool_call_row and w
  let ?done = "\<lambda>v t. \<lparr>res_status = Call_Succeeded, res_output = v, res_truncated = t, res_error = JUndefined\<rparr>"
  obtain x w1 where run: "run_tool i (cq_callId call) rtool tool arg w = (x, w1)" by fastforce
  have w1: "R w w1" using run_tool_R [of w i "cq_callId call" rtool tool arg] run by simp
  have ended: "R w1 (snd (tries (finishToolCall (tc_id row) (?done v t)) w1))" for v t
    by (rule obeysD [OF ending_call]) (simp add: in_flight_def)
  have failed: "R w2 (snd (tool_failed row m w2))" for m w2
    using obeysD [OF obeys_tool_failed] .
  show "R w (snd (case run_tool i (cq_callId call) rtool tool arg w of
         (Inl message, w1) \<Rightarrow> tool_failed row message w1
       | (Inr output, w1) \<Rightarrow>
           (case fit (o_resultChars opts) output of (fitted, truncated) \<Rightarrow>
              (case tries (finishToolCall (tc_id row) (?done (coalesce output JNull) truncated)) w1 of
                 (Inr _, w2) \<Rightarrow> (Inr fitted, w2)
               | (Inl e, w2) \<Rightarrow> tool_failed row (thrown_text e) w2))))"
  proof (cases x)
    case (Inl m)
    then show ?thesis using trans [OF w1 failed] run by simp
  next
    case (Inr v)
    obtain fitted t where fit: "fit (o_resultChars opts) v = (fitted, t)" by fastforce
    obtain y w2 where ending: "tries (finishToolCall (tc_id row) (?done (coalesce v JNull) t)) w1 = (y, w2)" by fastforce
    have "R w w2" using trans [OF w1 ended [of "coalesce v JNull" t]] ending by simp
    then show ?thesis using run Inr fit ending failed trans by (cases y) auto
  qed
qed

end

sublocale marking \<subseteq> settling R
  by unfold_locales (rule starting, erule ending_call, rule obeys_execute)

text \<open>With the actions that report on the run.\<close>

locale reporting = settling +
  assumes publishing: "obeys R (publish ev)"
    and ending: "obeys R (tries (finish i outcome wo))"
    and parking: "obeys R (tries (waitForInput i wo))"
    and counting: "obeys R (tries (recordStep i a b))"
    and warning: "obeys R (tries (addWarning i note))"
begin

lemma obeys_finish_with: "obeys R (finish_with holder run outcome)"
  unfolding finish_with_def
  by (intro obeys_and_then ending obeys_ret) (auto intro: publishing obeys_ret split: option.split)

lemma obeys_fail: "obeys R (fail holder run code message)"
  unfolding fail_def by (rule obeys_finish_with)

lemma obeys_stop_with: "obeys R m \<Longrightarrow> obeys R (stop_with m)"
  unfolding stop_with_def by (intro obeys_and_then obeys_ret)

lemma obeys_stop_step: "obeys R m \<Longrightarrow> obeys R (stop_step m)"
  unfolding stop_step_def by (intro obeys_and_then obeys_ret)

lemma obeys_checkBeforeStep: "obeys R (checkBeforeStep c run)"
  unfolding checkBeforeStep_def limit_checks_def daily_check_def ask_row_def Let_def
  by (intro obeys_with_world obeys_if obeys_and_then obeys_ret obeys_stop_step obeys_finish_with obeys_fail reading) simp_all

lemma obeys_park: "obeys R (park c run)"
  unfolding park_def Let_def by (intro obeys_and_then obeys_ret parking publishing)

lemma obeys_model_result: "obeys R (model_result c run answer)"
  unfolding model_result_def
  by (auto intro!: obeys_with_world obeys_stop_with obeys_fail obeys_finish_with obeys_ret obeys_throw
      split: model_answer.split option.split abort_reason.split)

lemma obeys_add_notes: "obeys R (add_notes i ns)"
  by (induction ns) (auto intro!: obeys_and_then obeys_ret warning)

lemma obeys_offerTools: "obeys R (offerTools opts run model)"
  unfolding offerTools_def Let_def
  by (auto intro!: obeys_and_then obeys_ret obeys_add_notes split: prod.split)

end

text \<open>With the transcript.\<close>

locale working = reporting +
  assumes appending: "obeys R (tries (appendMessages i ms wo))"
begin

lemma obeys_append: "obeys R (append_run holder run ms)"
  unfolding append_run_def by (intro obeys_and_then appending) (auto intro: publishing obeys_ret)

lemma obeys_after_calls: "obeys R (after_calls opts c run lastMsg calls)"
  unfolding after_calls_def
  by (intro obeys_with_world obeys_if obeys_and_then obeys_ret obeys_settleCalls obeys_append)

lemma obeys_after_step: "obeys R (after_step c run step)"
  unfolding after_step_def record_step_def Let_def
  by (intro obeys_if obeys_and_then obeys_ret obeys_stop_with obeys_fail obeys_append counting warning)

end

text \<open>With the call of the model, and all actions.\<close>

locale conversing = reporting +
  assumes asking: "obeys R (ask_model opts req)"
begin

lemma obeys_callModel: "obeys R (callModel opts c run messages)"
  unfolding callModel_def by (intro obeys_with_world obeys_and_then asking obeys_model_result)

end

locale running = working R + conversing R for R
begin

lemma obeys_model_pass: "obeys R (model_pass opts c run messages)"
proof -
  have "obeys R (case answer of Inl out \<Rightarrow> ret (Inl out) | Inr step \<Rightarrow> after_step c run step)" for answer
    by (cases answer) (auto intro: obeys_ret obeys_after_step)
  moreover have "obeys R (and_then (append_run (dc_holder c) run [stepLimitNote]) (\<lambda>_. ret (Inr run)))"
    by (intro obeys_and_then obeys_append obeys_ret)
  ultimately show ?thesis
    unfolding model_pass_def
    by (intro obeys_and_then obeys_checkBeforeStep)
      (auto intro!: obeys_and_then obeys_ret obeys_callModel obeys_append split: option.split)
qed

lemma obeys_drive_pass: "obeys R (drive_pass opts c run)"
  unfolding drive_pass_def Let_def
  by (intro obeys_and_then obeys_if reading obeys_after_calls obeys_stop_with obeys_park obeys_finish_with obeys_model_pass) simp

lemma drive_loop_R: "drive_loop n opts c run w = Some (r, w') \<Longrightarrow> R w w'"
proof (induction n arbitrary: run w)
  case (Suc n)
  obtain x w1 where pass: "drive_pass opts c run w = (x, w1)" by fastforce
  then have "R w w1" using obeysD [OF obeys_drive_pass, of w opts c run] by simp
  then show ?case
    using Suc pass trans by (auto split: sum.splits)
qed simp

lemma drive_R: "drive n opts holder run w = Some (r, w') \<Longrightarrow> R w w'"
proof (cases "find_first (\<lambda>m. am_key m = ad_model (run_definition run)) (o_models opts)")
  case None
  assume "drive n opts holder run w = Some (r, w')"
  then have "fail holder run MODEL_ERROR (''Model '' @ ad_model (run_definition run) @ '' is not offered on this instance.'') w = (r, w')"
    using None by (simp add: drive_def)
  then show ?thesis using obeysD [OF obeys_fail, of w holder run MODEL_ERROR] by (metis snd_conv)
next
  case (Some model)
  assume d: "drive n opts holder run w = Some (r, w')"
  obtain x w1 where offer: "offerTools opts run model w = (x, w1)" by fastforce
  then have "R w w1" using obeysD [OF obeys_offerTools, of w opts run model] by simp
  moreover have "R w1 w'"
    using d Some offer refl drive_loop_R by (cases x) (auto simp: drive_def)
  ultimately show ?thesis by (rule trans)
qed

end

section \<open>Conditions on the result\<close>

text \<open>From a world with \<open>P\<close> the result and the world after have \<open>Q\<close>, and after an error \<open>E\<close>.\<close>

definition triple :: "(runner_world \<Rightarrow> bool) \<Rightarrow> 'a act \<Rightarrow> ('a \<Rightarrow> runner_world \<Rightarrow> bool) \<Rightarrow> (runner_world \<Rightarrow> bool) \<Rightarrow> bool" where
  "triple P m Q E \<longleftrightarrow> (\<forall>w. P w \<longrightarrow>
     (\<forall>x w'. m w = (Inr x, w') \<longrightarrow> Q x w') \<and> (\<forall>e w'. m w = (Inl e, w') \<longrightarrow> E w'))"

lemma tripleD: "triple P m Q E \<Longrightarrow> P w \<Longrightarrow> m w = (Inr x, w') \<Longrightarrow> Q x w'"
  by (simp add: triple_def)

lemma tripleD_error: "triple P m Q E \<Longrightarrow> P w \<Longrightarrow> m w = (Inl e, w') \<Longrightarrow> E w'"
  by (simp add: triple_def)

lemma triple_ret: "(\<And>w. P w \<Longrightarrow> Q x w) \<Longrightarrow> triple P (ret x) Q E"
  by (simp add: triple_def ret_def)

lemma triple_throw: "(\<And>w. P w \<Longrightarrow> E w) \<Longrightarrow> triple P (throw e) Q E"
  by (simp add: triple_def throw_def)

lemma triple_and_then: "triple P m Q E \<Longrightarrow> (\<And>x. triple (Q x) (f x) Q' E) \<Longrightarrow> triple P (and_then m f) Q' E"
  unfolding triple_def and_then_def by (auto split: prod.splits sum.splits)

lemma triple_if: "(b \<Longrightarrow> triple P m Q E) \<Longrightarrow> (\<not> b \<Longrightarrow> triple P m' Q E) \<Longrightarrow> triple P (if b then m else m') Q E"
  by simp

lemma triple_with_world: "(\<And>w. triple (\<lambda>u. u = w \<and> P u) (f w) Q E) \<Longrightarrow> triple P (with_world f) Q E"
  by (simp add: triple_def with_world_def)

lemma triple_post: "triple P m Q E \<Longrightarrow> (\<And>x w. Q x w \<Longrightarrow> Q' x w) \<Longrightarrow> (\<And>w. E w \<Longrightarrow> E' w) \<Longrightarrow> triple P m Q' E'"
  unfolding triple_def by blast

lemma triple_pre: "triple P m Q E \<Longrightarrow> (\<And>w. P' w \<Longrightarrow> P w) \<Longrightarrow> triple P' m Q E"
  unfolding triple_def by blast

text \<open>A condition that a relation carries over holds whatever the result is.\<close>

lemma triple_obeys: "obeys R m \<Longrightarrow> (\<And>w w'. P w \<Longrightarrow> R w w' \<Longrightarrow> Q w') \<Longrightarrow> triple P m (\<lambda>_. Q) Q"
  unfolding triple_def obeys_def by (metis snd_conv)

end
