(* ===== verification/Agent_Loop_Safety.thy ===== *)
theory Agent_Loop_Safety
  imports Agent_Loop_Frames
begin

text \<open>
  Whatever the model answers, the tools do and other workers commit in between, the run loop runs
  a write at most once.
\<close>

section \<open>Sound worlds\<close>

text \<open>
  Other workers commit transactions of the store only; no write was run twice, and every write
  that was run has an audit row that is settled.
\<close>

definition lawful :: "tick list \<Rightarrow> bool" where
  "lawful ts \<longleftrightarrow> (\<forall>t \<in> set ts. \<forall>s. history s (tk_commits t s))"

definition call_of :: "tool_call_row \<Rightarrow> string \<times> string" where
  "call_of c = (tc_run c, tc_call c)"

definition written :: "runner_world \<Rightarrow> (string \<times> string) list" where
  "written w = map (\<lambda>(i, c, e). (map to_lower i, c)) (filter (\<lambda>(i, c, e). e \<noteq> Read) (rw_executed w))"

definition settled_call :: "run_store \<Rightarrow> string \<times> string \<Rightarrow> bool" where
  "settled_call s k \<longleftrightarrow> (\<exists>c \<in> set (tool_calls s). call_of c = k \<and> settled c)"

definition sound :: "runner_world \<Rightarrow> bool" where
  "sound w \<longleftrightarrow> lawful (rw_ticks w) \<and> store_ok (rw_db w) \<and> distinct (written w) \<and>
     (\<forall>k \<in> set (written w). settled_call (rw_db w) k)"

lemma history_trans: "history a b \<Longrightarrow> history b c \<Longrightarrow> history a c"
  unfolding history_def by (rule rtranclp_trans)

lemma history_one: "store_step s s' \<Longrightarrow> history s s'"
  by (rule history_step [OF history_refl])

lemma settled_call_history: "history s s' \<Longrightarrow> store_ok s \<Longrightarrow> settled_call s k \<Longrightarrow> settled_call s' k"
proof -
  assume h: "history s s'" and ok: "store_ok s" and "settled_call s k"
  then obtain c where c: "c \<in> set (tool_calls s)" "call_of c = k" "settled c" by (auto simp: settled_call_def)
  obtain c' where "c' \<in> set (tool_calls s')" "call_step c c'"
    using call_of_history [OF h ok c(1)] by blast
  then show ?thesis using c by (auto simp: settled_call_def call_step_def call_key_def call_of_def)
qed

text \<open>What a turn does: time passes, the store has a history, nothing of this worker changes.\<close>

lemma turn_facts:
  assumes "lawful (rw_ticks w)"
  shows "history (rw_db w) (rw_db (turn w))" "lawful (rw_ticks (turn w))" "rw_executed (turn w) = rw_executed w"
    "rw_model_calls (turn w) = rw_model_calls w" "rw_count (turn w) = rw_count w"
  using assms by (auto simp: turn_def lawful_def split: list.splits)

lemma sound_history:
  assumes "sound w" "history (rw_db w) (rw_db w')" "lawful (rw_ticks w')" "rw_executed w' = rw_executed w"
  shows "sound w'"
  using assms settled_call_history [OF assms(2)] store_ok_history [OF assms(2)]
  by (auto simp: sound_def written_def)

lemma sound_turn: "sound w \<Longrightarrow> sound (turn w)"
  using sound_history [of w "turn w"] turn_facts [of w] by (auto simp: sound_def)

lemma query_run:
  obtains x s where "f (rw_now (turn w)) (rw_db (turn w)) = (x, s)" "query f w = (x, (turn w)\<lparr>rw_db := s\<rparr>)"
  by (cases "f (rw_now (turn w)) (rw_db (turn w))") (auto simp: query_def Let_def)

lemma sound_query:
  assumes "sound w" "\<And>now s. store_step s (snd (f now s))"
  shows "sound (snd (query f w))"
proof (rule query_run [of f w])
  fix x s assume f: "f (rw_now (turn w)) (rw_db (turn w)) = (x, s)" and q: "query f w = (x, (turn w)\<lparr>rw_db := s\<rparr>)"
  have "store_step (rw_db (turn w)) s" using assms(2) [of "rw_db (turn w)" "rw_now (turn w)"] f by simp
  then have "history (rw_db (turn w)) (rw_db ((turn w)\<lparr>rw_db := s\<rparr>))" by (simp add: history_one)
  moreover have "lawful (rw_ticks ((turn w)\<lparr>rw_db := s\<rparr>))" using sound_turn [OF assms(1)] by (simp add: sound_def)
  ultimately have "sound ((turn w)\<lparr>rw_db := s\<rparr>)"
    by (rule sound_history [OF sound_turn [OF assms(1)]]) simp
  then show ?thesis by (simp add: q)
qed

lemma tries_snd: "snd (tries f w) = snd (query f w)"
  by (auto simp: tries_def split: prod.split sum.split)

definition keeps_sound :: "runner_world \<Rightarrow> runner_world \<Rightarrow> bool" where
  "keeps_sound w w' \<longleftrightarrow> (sound w \<longrightarrow> sound w')"

lemma sound_tries: "(\<And>now s. store_step s (snd (f now s))) \<Longrightarrow> obeys keeps_sound (tries f)"
  using sound_query [of _ f] by (auto simp: obeys_def keeps_sound_def tries_snd)

section \<open>A call is run once\<close>

lemma sound_fields:
  "sound (w\<lparr>rw_count := n\<rparr>) = sound w" "sound (w\<lparr>rw_events := es\<rparr>) = sound w" "sound (w\<lparr>rw_abort := a\<rparr>) = sound w"
  "sound (w\<lparr>rw_model_calls := m\<rparr>) = sound w"
  by (simp_all add: sound_def written_def)

text \<open>After a start that was granted, the row is there, and the call was not run before as a write.\<close>

lemma start_granted:
  assumes "sound w" "start_call opts holder inp w = (Inr row, w')"
  shows "sound w' \<and> (\<exists>c \<in> set (tool_calls (rw_db w')). tc_id c = tc_id row \<and> call_of c = (map to_lower (st_run inp), st_call inp)) \<and>
    (map to_lower (st_run inp), st_call inp) \<notin> set (written w')"
proof -
  let ?w = "w\<lparr>rw_count := rw_count w + 1\<rparr>" and ?f = "startToolCall inp (Some holder) (o_uuid opts (rw_count w))"
  let ?k = "(map to_lower (st_run inp), st_call inp)"
  obtain x s where f: "?f (rw_now (turn ?w)) (rw_db (turn ?w)) = (x, s)" and q: "query ?f ?w = (x, (turn ?w)\<lparr>rw_db := s\<rparr>)"
    by (rule query_run [of ?f ?w])
  have x: "x = Inr row" "w' = (turn ?w)\<lparr>rw_db := s\<rparr>"
    using assms(2) q by (auto simp: start_call_def tries_def split: sum.splits)
  have sound_turned: "sound (turn ?w)" using sound_turn [of ?w] assms(1) by (simp add: sound_fields)
  have "sound (snd (query ?f ?w))"
    using assms(1) by (intro sound_query step_startCall) (simp add: sound_fields)
  then have "sound w'" using q x by simp
  moreover have "(\<exists>c \<in> set (tool_calls s). tc_id c = tc_id row \<and> call_of c = ?k) \<and> \<not> settled_call (rw_db (turn ?w)) ?k"
  proof (cases rule: startToolCall_cases [of inp "Some holder" "o_uuid opts (rw_count w)" "rw_now (turn ?w)" "rw_db (turn ?w)"])
    case refused
    then show ?thesis using f x by auto
  next
    case started
    then show ?thesis using f x
      by (auto simp: settled_call_def call_of_def find_first_None same_call_def)
  next
    case (restarted c)
    have c: "c \<in> set (tool_calls (rw_db (turn ?w)))" "same_call inp c" using find_first_Some [OF restarted(1)] by auto
    have row: "row = restart_row inp (rw_now (turn ?w)) c" using restarted(3) f x by simp
    have "row \<in> set (tool_calls s)" using restarted(3) f c row by (force simp: update_where_def)
    moreover have "call_of row = ?k" using c(2) row by (simp add: restart_row_def call_of_def same_call_def)
    moreover have "\<not> settled_call (rw_db (turn ?w)) ?k"
    proof
      assume "settled_call (rw_db (turn ?w)) ?k"
      then obtain d where d: "d \<in> set (tool_calls (rw_db (turn ?w)))" "call_of d = ?k" "settled d"
        by (auto simp: settled_call_def)
      have "d = c"
        using sound_turned by (intro the_call [OF _ restarted(1) d(1)])
          (use d(2) in \<open>auto simp: sound_def store_ok_def calls_ok_def call_of_def same_call_def\<close>)
      then show False using d(3) restarted(2) by (auto simp: settled_def restartable_def in_flight_def)
    qed
    ultimately show ?thesis by auto
  qed
  moreover have "written w' = written (turn ?w)" using x by (simp add: written_def)
  ultimately show ?thesis using sound_turned x(2) by (auto simp: sound_def)
qed

text \<open>While a tool runs, its call may be the one write without a settled row.\<close>

definition nearly :: "string \<Rightarrow> string \<times> string \<Rightarrow> runner_world \<Rightarrow> bool" where
  "nearly i k w \<longleftrightarrow> lawful (rw_ticks w) \<and> store_ok (rw_db w) \<and> distinct (written w) \<and>
     (\<forall>k' \<in> set (written w). settled_call (rw_db w) k' \<or> k' = k) \<and>
     (\<exists>c \<in> set (tool_calls (rw_db w)). tc_id c = i \<and> call_of c = k)"

lemma nearly_turn: "nearly i k w \<Longrightarrow> nearly i k (turn w)"
proof -
  assume n: "nearly i k w"
  then have law: "lawful (rw_ticks w)" and ok: "store_ok (rw_db w)" by (auto simp: nearly_def)
  note t = turn_facts [OF law]
  obtain c where c: "c \<in> set (tool_calls (rw_db w))" "tc_id c = i" "call_of c = k" using n by (auto simp: nearly_def)
  obtain c' where "c' \<in> set (tool_calls (rw_db (turn w)))" "call_step c c'"
    using call_of_history [OF t(1) ok c(1)] by blast
  then have "\<exists>c \<in> set (tool_calls (rw_db (turn w))). tc_id c = i \<and> call_of c = k"
    using c by (auto simp: call_step_def call_key_def call_of_def)
  moreover have "written (turn w) = written w" using t(3) by (simp add: written_def)
  moreover have "\<forall>k' \<in> set (written w). settled_call (rw_db (turn w)) k' \<or> k' = k"
    using n settled_call_history [OF t(1) ok] unfolding nearly_def by blast
  ultimately show ?thesis
    using n t(2) store_ok_history [OF t(1) ok] by (simp add: nearly_def)
qed

lemma finish_call_ends:
  assumes "store_ok s" "c \<in> set (tool_calls s)" "\<not> in_flight (res_status res)"
  obtains d s' where "finishToolCall (tc_id c) res now s = (Inr d, s')" "store_step s s'" "settled_call s' (call_of c)"
proof -
  let ?p = "\<lambda>d. tc_id d = tc_id c \<and> in_flight (tc_status d)"
  let ?s = "s\<lparr>tool_calls := update_where ?p (finish_call_row res now) (tool_calls s)\<rparr>"
  have fin: "finishToolCall (tc_id c) res now s = (case map_option (finish_call_row res now) (find_first ?p (tool_calls s)) of
      Some d \<Rightarrow> (Inr d, ?s)
    | None \<Rightarrow> (case find_first (\<lambda>d. tc_id d = tc_id c) (tool_calls ?s) of Some d \<Rightarrow> (Inr d, ?s) | None \<Rightarrow> (Inl (CALL_NOT_FOUND (tc_id c)), ?s)))"
    by (cases "find_first ?p (tool_calls s)") (simp_all add: finishToolCall_def first_returning Let_def)
  have ids: "tc_id (finish_call_row res now d) = tc_id d" "call_of (finish_call_row res now d) = call_of d"
    "\<not> in_flight (tc_status (finish_call_row res now d))" for d
    using assms(3) by (auto simp: finish_call_row_def call_of_def)
  have "\<exists>d \<in> set (tool_calls ?s). tc_id d = tc_id c \<and> call_of d = call_of c \<and> \<not> in_flight (tc_status d)"
  proof (cases "in_flight (tc_status c)")
    case True
    then have "finish_call_row res now c \<in> set (tool_calls ?s)" using assms(2) by (force simp: update_where_def)
    then show ?thesis using ids by blast
  next
    case False
    then have "c \<in> set (tool_calls ?s)" using assms(2) by (force simp: update_where_def)
    then show ?thesis using False by blast
  qed
  then obtain d where d: "d \<in> set (tool_calls ?s)" "tc_id d = tc_id c" "call_of d = call_of c" "\<not> in_flight (tc_status d)" by blast
  then have settled: "settled_call ?s (call_of c)" by (auto simp: settled_call_def settled_def)
  have "find_first (\<lambda>d. tc_id d = tc_id c) (tool_calls ?s) \<noteq> None" using d by (auto simp: find_first_None)
  then obtain e where "finishToolCall (tc_id c) res now s = (Inr e, ?s)"
    using fin by (cases "find_first ?p (tool_calls s)"; cases "find_first (\<lambda>d. tc_id d = tc_id c) (tool_calls ?s)") auto
  then show thesis using that settled step_finishCall [OF assms(3), of s "tc_id c" now] by simp
qed

lemma finish_sound:
  assumes "nearly i k w" "\<not> in_flight (res_status res)"
  obtains d w' where "tries (finishToolCall i res) w = (Inr d, w')" "sound w'"
proof -
  have n: "nearly i k (turn w)" using nearly_turn [OF assms(1)] .
  then obtain c where c: "c \<in> set (tool_calls (rw_db (turn w)))" "tc_id c = i" "call_of c = k" and ok: "store_ok (rw_db (turn w))"
    by (auto simp: nearly_def)
  obtain d s where fin: "finishToolCall i res (rw_now (turn w)) (rw_db (turn w)) = (Inr d, s)"
    "store_step (rw_db (turn w)) s" "settled_call s k"
    using finish_call_ends [OF ok c(1) assms(2)] c(2,3) by metis
  have "\<forall>k' \<in> set (written (turn w)). settled_call s k'"
    using n fin(3) settled_call_history [OF history_one [OF fin(2)] ok] unfolding nearly_def by blast
  moreover have "written ((turn w)\<lparr>rw_db := s\<rparr>) = written (turn w)" by (simp add: written_def)
  ultimately have "sound ((turn w)\<lparr>rw_db := s\<rparr>)"
    using n store_ok_step [OF fin(2) ok] by (simp add: nearly_def sound_def)
  moreover have "tries (finishToolCall i res) w = (Inr d, (turn w)\<lparr>rw_db := s\<rparr>)"
    using fin(1) by (simp add: tries_def query_def Let_def)
  ultimately show thesis by (rule that [rotated])
qed

lemma tool_failed_sound:
  assumes "nearly (tc_id row) k w"
  shows "sound (snd (tool_failed row message w))"
proof -
  have "\<not> in_flight (res_status (failed_result e))" for e by (simp add: failed_result_def in_flight_def)
  then obtain d w' where "tries (finishToolCall (tc_id row) (failed_result (error_value ''TOOL_ERROR'' message))) w = (Inr d, w')" "sound w'"
    using finish_sound [OF assms] by metis
  then show ?thesis by (simp add: tool_failed_def Let_def and_then_def ret_def)
qed

lemma run_tool_nearly:
  assumes "sound w" "\<exists>c \<in> set (tool_calls (rw_db w)). tc_id c = i \<and> call_of c = (map to_lower runId, callId)"
    "(map to_lower runId, callId) \<notin> set (written w)"
  shows "nearly i (map to_lower runId, callId) (snd (run_tool runId callId rtool tool v w))"
proof -
  have "nearly i (map to_lower runId, callId) (w\<lparr>rw_executed := rw_executed w @ [(runId, callId, tool_effect rtool)]\<rparr>)"
    using assms by (auto simp: nearly_def sound_def written_def)
  then show ?thesis by (simp add: run_tool_def nearly_turn)
qed

lemma start_call_sound: "obeys keeps_sound (start_call opts holder inp)"
  unfolding obeys_def keeps_sound_def start_call_def tries_snd
  by (intro allI impI sound_query step_startCall) (simp add: sound_fields)

lemma execute_sound: "obeys keeps_sound (execute opts holder i sq call rtool tool v)"
  unfolding obeys_def keeps_sound_def
proof (intro allI impI)
  fix w assume w: "sound w"
  let ?inp = "base_input i sq call rtool Executing JUndefined"
  obtain x w1 where st: "start_call opts holder ?inp w = (x, w1)" by fastforce
  have "sound w1"
    using obeysD [OF start_call_sound, of w opts holder ?inp] w st by (simp add: keeps_sound_def)
  show "sound (snd (execute opts holder i sq call rtool tool v w))"
  proof (cases x)
    case (Inl e)
    then show ?thesis using st \<open>sound w1\<close> by (simp add: execute_def and_then_def)
  next
    case (Inr row)
    have row: "\<exists>c \<in> set (tool_calls (rw_db w1)). tc_id c = tc_id row \<and> call_of c = (map to_lower i, cq_callId call)"
      "(map to_lower i, cq_callId call) \<notin> set (written w1)"
      using start_granted [OF w st [unfolded Inr]] by (simp_all add: base_input_def)
    obtain y w2 where run: "run_tool i (cq_callId call) rtool tool v w1 = (y, w2)" by fastforce
    have near: "nearly (tc_id row) (map to_lower i, cq_callId call) w2"
      using run_tool_nearly [OF \<open>sound w1\<close> row, of rtool tool v] run by simp
    show ?thesis
    proof (cases y)
      case (Inl message)
      then show ?thesis using st Inr run tool_failed_sound [OF near] by (simp add: execute_def and_then_def)
    next
      case y: (Inr outv)
      obtain fitted truncated where fit: "fit (o_resultChars opts) outv = (fitted, truncated)" by fastforce
      obtain d w3 where "tries (finishToolCall (tc_id row) \<lparr>res_status = Call_Succeeded, res_output = coalesce outv JNull,
          res_truncated = truncated, res_error = JUndefined\<rparr>) w2 = (Inr d, w3)" "sound w3"
        using finish_sound [OF near, of "\<lparr>res_status = Call_Succeeded, res_output = coalesce outv JNull,
          res_truncated = truncated, res_error = JUndefined\<rparr>"] by (auto simp: in_flight_def)
      then show ?thesis using st Inr run y fit by (simp add: execute_def and_then_def)
    qed
  qed
qed

text \<open>So the whole loop keeps a world sound.\<close>

interpretation sound_loop: running keeps_sound
proof
  show "obeys keeps_sound (start_call opts holder inp)" for opts holder inp
    by (rule start_call_sound)
  show "obeys keeps_sound (ask_model opts req)" for opts req
    using sound_turn by (auto simp: obeys_def keeps_sound_def ask_model_def sound_fields)
  show "obeys keeps_sound (publish ev)" for ev
    by (simp add: obeys_def keeps_sound_def publish_def sound_fields)
qed (auto simp: keeps_sound_def sound_turn
    intro: sound_tries execute_sound step_finishCall step_append step_finish step_wait step_recordStep step_addWarning)


section \<open>One worker, many jobs\<close>

text \<open>What a worker does with the jobs of its queue, one after the other; \<open>None\<close> is out of fuel.\<close>

fun process_all :: "(nat \<times> loop_options \<times> string) list \<Rightarrow> runner_world \<Rightarrow> runner_world option" where
  "process_all [] w = Some w"
| "process_all ((fuel, opts, runId) # jobs) w = (case process_run fuel opts runId w of
     None \<Rightarrow> None | Some (_, w') \<Rightarrow> process_all jobs w')"

text \<open>A job is a claim and, when it was granted, a drive.\<close>

lemma process_run_cases:
  assumes "process_run fuel opts i w = Some (r, w')"
  obtains (not_claimed) "r = Inr Not_Claimed"
      "query (claim_run i (o_owner opts @ '':'' @ take 8 (o_uuid opts (rw_count w))) (o_leaseSeconds opts))
        (w\<lparr>rw_count := rw_count w + 1\<rparr>) = (None, w')"
  | (driven) run w1 x where
      "query (claim_run i (o_owner opts @ '':'' @ take 8 (o_uuid opts (rw_count w))) (o_leaseSeconds opts))
        (w\<lparr>rw_count := rw_count w + 1\<rparr>) = (Some run, w1)"
      "drive fuel opts (o_owner opts @ '':'' @ take 8 (o_uuid opts (rw_count w))) run
        ((snd (publish (Status_Event i Running) w1))\<lparr>rw_abort := None\<rparr>) = Some (x, w')"
proof -
  obtain found w1 where claim: "query (claim_run i (o_owner opts @ '':'' @ take 8 (o_uuid opts (rw_count w))) (o_leaseSeconds opts))
        (w\<lparr>rw_count := rw_count w + 1\<rparr>) = (found, w1)" by fastforce
  show thesis
  proof (cases found)
    case None
    then show thesis using assms claim not_claimed by (simp add: process_run_def Let_def)
  next
    case (Some run)
    let ?d = "drive fuel opts (o_owner opts @ '':'' @ take 8 (o_uuid opts (rw_count w))) run
        ((snd (publish (Status_Event i Running) w1))\<lparr>rw_abort := None\<rparr>)"
    obtain d where d: "?d = Some d" using assms claim Some by (auto simp: process_run_def Let_def split: option.splits)
    obtain x w2 where xw: "d = (x, w2)" by fastforce
    have run: "process_run fuel opts i w = (case Some (x, w2) of None \<Rightarrow> None
        | Some (Inl (Store_Error (RUN_LEASE_LOST _)), w2) \<Rightarrow> Some (Inr Lease_Lost, w2) | Some r \<Rightarrow> Some r)"
      unfolding process_run_def Let_def claim Some option.case prod.case d xw ..
    have "w2 = w'"
    proof (cases x)
      case (Inl e)
      show ?thesis
      proof (cases e)
        case (Store_Error se)
        then show ?thesis using run assms Inl by (cases se) simp_all
      qed (use run assms Inl in simp)
    qed (use run assms in simp)
    then show thesis using driven claim Some d xw by simp
  qed
qed

lemma claim_sound:
  assumes "sound w" "query (claim_run i holder secs) (w\<lparr>rw_count := n\<rparr>) = (x, w1)"
  shows "sound w1"
proof -
  have "sound (snd (query (claim_run i holder secs) (w\<lparr>rw_count := n\<rparr>)))"
    by (intro sound_query step_claim) (simp add: sound_fields assms(1))
  then show ?thesis using assms(2) by simp
qed

lemma process_run_sound:
  assumes "sound w" "process_run fuel opts i w = Some (r, w')"
  shows "sound w'"
  using assms(2)
proof (cases rule: process_run_cases)
  case not_claimed
  then show ?thesis using claim_sound [OF assms(1)] by blast
next
  case (driven run w1 x)
  have "sound ((snd (publish (Status_Event i Running) w1))\<lparr>rw_abort := None\<rparr>)"
    using claim_sound [OF assms(1) driven(1)] by (simp add: publish_def sound_fields)
  then show ?thesis using sound_loop.drive_R [OF driven(2)] by (simp add: keeps_sound_def)
qed

lemma process_all_sound: "sound w \<Longrightarrow> process_all jobs w = Some w' \<Longrightarrow> sound w'"
proof (induction jobs arbitrary: w)
  case (Cons job jobs)
  obtain fuel opts i where job: "job = (fuel, opts, i)" by (cases job)
  obtain r w1 where "process_run fuel opts i w = Some (r, w1)" "process_all jobs w1 = Some w'"
    using Cons.prems(2) job by (auto split: option.splits)
  then show ?case using Cons process_run_sound by blast
qed simp

end
