(* ===== verification/Agent_Loop_Bounds.thy ===== *)
theory Agent_Loop_Bounds
  imports Agent_Loop_Safety
begin

text \<open>
  The run loop asks the model at most as often as the step limit allows, and it returns: with
  finitely many interruptions by others a pass is only repeated a bounded number of times.
\<close>

section \<open>Progress of the store\<close>

text \<open>The store goes on lawfully and no tick is added.\<close>

definition advances :: "runner_world \<Rightarrow> runner_world \<Rightarrow> bool" where
  "advances w w' \<longleftrightarrow> length (rw_ticks w') \<le> length (rw_ticks w) \<and>
     (lawful (rw_ticks w) \<longrightarrow> lawful (rw_ticks w') \<and> history (rw_db w) (rw_db w'))"

lemma advances_refl: "advances w w"
  by (simp add: advances_def)

lemma advances_turn: "advances w (turn w)"
  using turn_facts [of w] by (auto simp: advances_def turn_def split: list.split)

lemma advances_trans: "advances u v \<Longrightarrow> advances v w \<Longrightarrow> advances u w"
  by (auto simp: advances_def intro: history_trans)

lemma advances_fields:
  "advances w (w\<lparr>rw_executed := es\<rparr>)" "advances w (w\<lparr>rw_events := evs\<rparr>)" "advances w (w\<lparr>rw_count := n\<rparr>)"
  "advances w (w\<lparr>rw_abort := a\<rparr>)" "advances w (w\<lparr>rw_model_calls := n\<rparr>)"
  by (simp_all add: advances_def)

lemma advances_db: "store_step (rw_db w) s \<Longrightarrow> advances w (w\<lparr>rw_db := s\<rparr>)"
  by (simp add: advances_def history_one)

lemma advances_query: "(\<And>now s. store_step s (snd (f now s))) \<Longrightarrow> advances w (snd (query f w))"
  by (rule query_run [of f w]) (metis advances_db advances_trans advances_turn snd_conv)

lemma advances_tries: "(\<And>now s. store_step s (snd (f now s))) \<Longrightarrow> obeys advances (tries f)"
  unfolding obeys_def tries_snd by (intro allI advances_query)

lemma advances_start: "obeys advances (start_call opts holder inp)"
  unfolding obeys_def start_call_def tries_snd
  by (rule allI, rule advances_trans [OF advances_fields(3)], rule advances_query, rule step_startCall)

interpretation progress: running advances
proof
  show "obeys advances (execute opts holder i sq call rtool tool arg)" for opts holder i sq call rtool tool arg
  proof (rule marking.obeys_execute, unfold_locales)
    show "obeys advances (tries (finishToolCall i res))" if "\<not> in_flight (res_status res)" for i res
      using that by (intro advances_tries step_finishCall)
  qed (auto intro: advances_refl advances_turn advances_start advances_fields advances_trans)
  show "obeys advances (ask_model opts req)" for opts req
    unfolding obeys_def ask_model_def using advances_trans [OF advances_fields(5) advances_turn] by simp
  show "obeys advances (publish ev)" for ev
    by (simp add: obeys_def publish_def advances_fields)
  show "obeys advances (tries (finishToolCall i res))" if "\<not> in_flight (res_status res)" for i res
    using that by (intro advances_tries step_finishCall)
qed (auto intro: advances_refl advances_turn advances_start advances_tries step_append step_finish step_wait
    step_recordStep step_addWarning advances_trans)

text \<open>Only the model step counts as a model call.\<close>

definition same_calls :: "runner_world \<Rightarrow> runner_world \<Rightarrow> bool" where
  "same_calls w w' \<longleftrightarrow> rw_model_calls w' = rw_model_calls w"

lemma same_calls_refl: "same_calls w w"
  by (simp add: same_calls_def)

lemma same_calls_trans: "same_calls u v \<Longrightarrow> same_calls v w \<Longrightarrow> same_calls u w"
  by (simp add: same_calls_def)

lemma same_calls_executed: "same_calls w (w\<lparr>rw_executed := es\<rparr>)"
  by (simp add: same_calls_def)

lemma same_calls_turn: "same_calls w (turn w)"
  by (auto simp: same_calls_def turn_def split: list.split)

lemma same_calls_query: "same_calls w (snd (query f w))"
  by (rule query_run [of f w]) (use same_calls_turn [of w] in \<open>simp add: same_calls_def\<close>)

lemma same_calls_tries: "obeys same_calls (tries f)"
  unfolding obeys_def tries_snd by (intro allI same_calls_query)

lemma same_calls_start: "obeys same_calls (start_call opts holder inp)"
  unfolding obeys_def start_call_def tries_snd
  by (rule allI, rule same_calls_trans [OF _ same_calls_query]) (simp add: same_calls_def)

lemmas uncounted_rules = same_calls_refl same_calls_trans same_calls_turn same_calls_start same_calls_tries same_calls_executed

interpretation uncounted: working same_calls
proof
  show "obeys same_calls (execute opts holder i sq call rtool tool arg)" for opts holder i sq call rtool tool arg
    by (rule marking.obeys_execute, unfold_locales)
      (auto intro: uncounted_rules)
  show "obeys same_calls (publish ev)" for ev
    by (simp add: obeys_def publish_def same_calls_def)
qed (auto intro: uncounted_rules)


section \<open>The transcript\<close>

lemma js_sort_id: "sorted_wrt (\<lambda>a b. cmp a b \<le> 0) xs \<Longrightarrow> js_sort cmp xs = xs"
proof (induction xs)
  case (Cons x xs)
  then show ?case by (cases xs) auto
qed simp

lemma listMessages_part:
  assumes "numbered s" "is_uuid i"
  shows "listMessages i None s = run_part (map to_lower i) s"
proof -
  let ?part = "run_part (map to_lower i) s"
  have "map msg_seq ?part = [0..<length ?part]" using assms(1) by (simp add: numbered_def)
  then have "sorted_wrt (\<le>) (map msg_seq ?part)" by simp
  then have "js_sort (\<lambda>a b. of_nat (msg_seq a) - of_nat (msg_seq b)) ?part = ?part"
    by (intro js_sort_id) (simp add: sorted_wrt_map)
  then show ?thesis using assms(2) by (simp add: listMessages_def run_part_def)
qed

text \<open>What was appended last comes last.\<close>

lemma appended_last:
  assumes "store_ok s" "is_uuid i" "appendMessages i (ms @ [(role, m)]) wo now s = (Inr new, s')"
  shows "listMessages i None s' \<noteq> []" "msg_role (last (listMessages i None s')) = role"
    "msg_content (last (listMessages i None s')) = m" "new \<noteq> []"
proof -
  have "store_ok s'" using store_ok_step [OF step_append assms(1), of i "ms @ [(role, m)]" wo now] assms(3) by simp
  then have list: "listMessages i None s' = run_part (map to_lower i) s'"
    using assms(2) by (simp add: listMessages_part store_ok_def)
  have new: "run_messages s' = run_messages s @ insertMessages (map to_lower i) (next_seq i s) (ms @ [(role, m)])"
    "new = insertMessages (map to_lower i) (next_seq i s) (ms @ [(role, m)])"
    using assms(3) by (auto simp: appendMessages_def Let_def split: option.splits if_splits)
  have part: "run_part (map to_lower i) s' =
      run_part (map to_lower i) s @ insertMessages (map to_lower i) (next_seq i s) (ms @ [(role, m)])"
    unfolding run_part_def new(1) using insertMessages_run [of _ "map to_lower i"] by (auto simp: filter_id_conv)
  have ends: "insertMessages (map to_lower i) n (ms @ [(role, m)]) =
      insertMessages (map to_lower i) n ms @ [\<lparr>msg_run = map to_lower i, msg_seq = n + length ms, msg_role = role, msg_content = m\<rparr>]" for n
    by (simp add: insertMessages_def enumerate_append_eq)
  show "listMessages i None s' \<noteq> []" "msg_role (last (listMessages i None s')) = role"
    "msg_content (last (listMessages i None s')) = m" "new \<noteq> []"
    unfolding list part new(2) ends by simp_all
qed

section \<open>Following a run\<close>

text \<open>The row the loop works with is not ahead of the stored one.\<close>

definition known :: "run_row \<Rightarrow> run_store \<Rightarrow> bool" where
  "known run s \<longleftrightarrow> is_uuid (run_id run) \<and> map to_lower (run_id run) = run_id run \<and>
     (\<exists>r \<in> set (runs s). run_id r = run_id run \<and> run_steps run \<le> run_steps r)"

lemma known_history: "history s s' \<Longrightarrow> store_ok s \<Longrightarrow> known run s \<Longrightarrow> known run s'"
proof -
  assume h: "history s s'" and ok: "store_ok s" and k: "known run s"
  obtain r where r: "r \<in> set (runs s)" "run_id r = run_id run" "run_steps run \<le> run_steps r"
    using k by (auto simp: known_def)
  obtain r' where "r' \<in> set (runs s')" "row_step r r'" using row_of_history [OF h ok r(1)] by blast
  then show ?thesis using k r by (force simp: known_def row_step_def run_key_def)
qed

lemma known_row:
  assumes "store_ok s" "known run s"
  obtains r where "find_first (has_run_id (run_id run)) (runs s) = Some r" "run_id r = run_id run" "run_steps run \<le> run_steps r"
    "r \<in> set (runs s)"
proof -
  obtain r where r: "r \<in> set (runs s)" "run_id r = run_id run" "run_steps run \<le> run_steps r"
    using assms(2) by (auto simp: known_def)
  then have "find_first (has_run_id (run_id run)) (runs s) = Some r"
    using assms by (intro find_run) (auto simp: store_ok_def known_def has_run_id_def)
  then show thesis using that r by blast
qed

text \<open>How many steps are left under the limit, and how far the pass is from a model step.\<close>

definition steps_left :: "drive_context \<Rightarrow> run_row \<Rightarrow> nat" where
  "steps_left c run = nat (int (maxSteps (dc_limits c)) - u_steps (usage_from (dc_base c) run))"

definition phase :: "message_row list \<Rightarrow> nat" where
  "phase messages = (if messages = [] then 1 else if msg_role (last messages) = Assistant then 2
     else if isStepLimitNote (msg_content (last messages)) then 0 else 1)"

definition transcript :: "run_row \<Rightarrow> runner_world \<Rightarrow> message_row list" where
  "transcript run w = listMessages (run_id run) None (rw_db w)"

definition tracked :: "run_row \<Rightarrow> nat \<Rightarrow> nat \<Rightarrow> runner_world \<Rightarrow> bool" where
  "tracked run n k w \<longleftrightarrow> lawful (rw_ticks w) \<and> store_ok (rw_db w) \<and> known run (rw_db w) \<and>
     length (rw_ticks w) \<le> n \<and> rw_model_calls w = k"

lemma tracked_advances:
  "tracked run n k w \<Longrightarrow> advances w w' \<Longrightarrow> same_calls w w' \<Longrightarrow> tracked run n k w'"
  using known_history store_ok_history by (auto simp: tracked_def advances_def same_calls_def)

lemma tracked_kept:
  "obeys advances m \<Longrightarrow> obeys same_calls m \<Longrightarrow> triple (tracked run n k) m (\<lambda>_. tracked run n k) (tracked run n k)"
  unfolding triple_def obeys_def using tracked_advances by (metis snd_conv)


lemma tracked_query:
  assumes "tracked run n k w" "\<And>now s. store_step s (snd (f now s)) \<or> snd (f now s) = s"
  shows "tracked run (n - 1) k (snd (query f w))"
proof (rule query_run [of f w])
  fix x s assume f: "f (rw_now (turn w)) (rw_db (turn w)) = (x, s)" and q: "query f w = (x, (turn w)\<lparr>rw_db := s\<rparr>)"
  have turned: "tracked run (n - 1) k (turn w)"
    using tracked_advances [OF assms(1) advances_turn same_calls_turn] assms(1)
    by (auto simp: tracked_def turn_def split: list.splits)
  have "store_step (rw_db (turn w)) s \<or> s = rw_db (turn w)"
    using assms(2) [where now = "rw_now (turn w)" and s = "rw_db (turn w)"] f by simp
  then have "advances (turn w) ((turn w)\<lparr>rw_db := s\<rparr>)"
    using advances_db advances_refl [of "turn w"] by auto
  then show ?thesis
    using tracked_advances [OF turned] q by (simp add: same_calls_def)
qed

text \<open>A read of the store, and the transcript it returns.\<close>

lemma read_messages:
  "triple (\<lambda>w. w = w0 \<and> tracked run n k w) (asks (\<lambda>now s. (listMessages (run_id run) None s, s)))
     (\<lambda>messages w. tracked run (n - 1) k w \<and> (n = 0 \<longrightarrow> messages = transcript run w0)) (tracked run n k)"
  unfolding triple_def
proof (intro allI impI conjI; elim conjE)
  fix w x w'
  assume w: "w = w0" "tracked run n k w" and m: "asks (\<lambda>now s. (listMessages (run_id run) None s, s)) w = (Inr x, w')"
  then have "w' = snd (query (\<lambda>now s. (listMessages (run_id run) None s, s)) w)"
    "x = fst (query (\<lambda>now s. (listMessages (run_id run) None s, s)) w)"
    by (auto simp: asks_def split: prod.splits)
  moreover have "turn w = w" if "n = 0" using w(2) that by (simp add: tracked_def turn_def)
  ultimately show "tracked run (n - 1) k w'" "n = 0 \<Longrightarrow> x = transcript run w0"
    using tracked_query [OF w(2), of "\<lambda>now s. (listMessages (run_id run) None s, s)"] w(1)
    by (auto simp: query_def Let_def transcript_def)
qed (auto simp: asks_def split: prod.splits)

text \<open>The row that \<open>checkBeforeStep\<close> reads is not behind.\<close>

lemma current_row:
  "triple (tracked run n k) (ask_row run) (\<lambda>r w. tracked run n k w \<and> run_steps run \<le> run_steps r) (tracked run n k)"
  unfolding triple_def
proof (intro allI impI conjI)
  fix w x w'
  assume w: "tracked run n k w" and m: "ask_row run w = (Inr x, w')"
  have t: "tracked run n k (turn w)" by (rule tracked_advances [OF w advances_turn same_calls_turn])
  then obtain r where r: "find_first (has_run_id (run_id run)) (runs (rw_db (turn w))) = Some r" "run_steps run \<le> run_steps r"
    by (auto simp: tracked_def elim: known_row)
  have "is_uuid (run_id run)" using w by (simp add: tracked_def known_def)
  then have "x = r" "w' = turn w"
    using m r(1) by (auto simp: ask_row_def and_then_def asks_def query_def Let_def get_run_def ret_def)
  then show "tracked run n k w'" "run_steps run \<le> run_steps x" using t r(2) by simp_all
qed (auto simp: ask_row_def and_then_def asks_def ret_def split: prod.splits)

text \<open>An append that ends on a message of its own, with no one in between.\<close>

lemma append_tracked: "triple (tracked run n k) (append_run holder run ms) (\<lambda>_. tracked run n k) (tracked run n k)"
  by (intro tracked_kept progress.obeys_append uncounted.obeys_append)

lemma append_last:
  "triple (tracked run n k) (append_run holder run (ms @ [(role, m)]))
     (\<lambda>_ w. tracked run n k w \<and> (n = 0 \<longrightarrow> transcript run w \<noteq> [] \<and> msg_role (last (transcript run w)) = role \<and>
        msg_content (last (transcript run w)) = m)) (tracked run n k)"
  unfolding triple_def
proof (intro allI impI conjI)
  fix w x w'
  assume w: "tracked run n k w" and m: "append_run holder run (ms @ [(role, m)]) w = (Inr x, w')"
  show "tracked run n k w'" using tripleD [OF append_tracked w m] .
  assume "n = 0"
  then have turn: "turn w = w" using w by (simp add: tracked_def turn_def)
  obtain new s where app: "appendMessages (run_id run) (ms @ [(role, m)]) (Some holder) (rw_now w) (rw_db w) = (Inr new, s)"
    and w': "w' = snd (publish (Message_Event (run_id run) (msg_seq (last new))) (w\<lparr>rw_db := s\<rparr>)) \<or> w' = w\<lparr>rw_db := s\<rparr>"
    using m turn
    by (cases "appendMessages (run_id run) (ms @ [(role, m)]) (Some holder) (rw_now w) (rw_db w)")
      (auto simp: append_run_def and_then_def tries_def query_def Let_def ret_def split: sum.splits if_splits)
  have "rw_db w' = s" using w' by (auto simp: publish_def)
  then show "transcript run w' \<noteq> []" "msg_role (last (transcript run w')) = role" "msg_content (last (transcript run w')) = m"
    using appended_last [OF _ _ app] w by (auto simp: tracked_def known_def transcript_def)
next
  fix w e w'
  assume "tracked run n k w" "append_run holder run (ms @ [(role, m)]) w = (Inl e, w')"
  then show "tracked run n k w'" by (rule tripleD_error [OF append_tracked])
qed

lemmas append_one = append_last [of _ _ _ _ "[]" "fst m" "snd m" for m, unfolded append_Nil prod.collapse]

text \<open>A recorded step leaves one step less.\<close>

lemma record_step_left:
  "triple (tracked run n k) (record_step run step)
     (\<lambda>run' w. tracked run' n k w \<and> run_steps run + 1 \<le> run_steps run') (tracked run n k)"
  unfolding triple_def
proof (intro allI impI conjI)
  fix w x w'
  assume w: "tracked run n k w" and m: "record_step run step w = (Inr x, w')"
  let ?f = "count_step (sr_input step) (sr_output step) (rw_now (turn w))"
  have t: "tracked run n k (turn w)" by (rule tracked_advances [OF w advances_turn same_calls_turn])
  obtain r where r: "find_first (has_run_id (run_id run)) (runs (rw_db (turn w))) = Some r" "run_id r = run_id run"
    "run_steps run \<le> run_steps r" "r \<in> set (runs (rw_db (turn w)))"
    using t by (auto simp: tracked_def elim: known_row)
  have x: "x = ?f r" and rows: "runs (rw_db w') = update_where (has_run_id (run_id run)) ?f (runs (rw_db (turn w)))"
    using m r(1) by (auto simp: record_step_def tries_def query_def Let_def recordStep_def first_returning split: prod.splits)
  have "tracked run n k w'"
    using tripleD [OF tracked_kept [OF progress.counting uncounted.counting], OF w, of "run_id run" "sr_input step" "sr_output step"] m
    by (simp add: record_step_def)
  moreover have "x \<in> set (runs (rw_db w'))"
    unfolding rows x update_where_def using r w
    by (auto simp: tracked_def known_def has_run_id_def intro!: rev_image_eqI [of r])
  moreover have "run_id x = run_id run" using x r(2) by (simp add: count_step_def)
  ultimately show "tracked x n k w'" "run_steps run + 1 \<le> run_steps x"
    using x r(3) by (auto simp: tracked_def known_def)
next
  fix w e w'
  assume "tracked run n k w" "record_step run step w = (Inl e, w')"
  then show "tracked run n k w'"
    unfolding record_step_def by (rule tripleD_error [OF tracked_kept [OF progress.counting uncounted.counting]])
qed


section \<open>One pass\<close>

text \<open>
  A pass ends the run, brings the transcript one phase on, or asks the model once and uses up a
  step; it asks the model at most once, and never without a step left.
\<close>

definition over :: "drive_context \<Rightarrow> run_row \<Rightarrow> nat \<Rightarrow> runner_world \<Rightarrow> bool" where
  "over c run k w \<longleftrightarrow> rw_model_calls w \<le> k + min 1 (steps_left c run)"

definition passed ::
    "drive_context \<Rightarrow> run_row \<Rightarrow> nat \<Rightarrow> nat \<Rightarrow> nat \<Rightarrow> process_outcome + run_row \<Rightarrow> runner_world \<Rightarrow> bool" where
  "passed c run n k ph x w = (case x of
     Inl _ \<Rightarrow> over c run k w
   | Inr run' \<Rightarrow> run' = run \<and> tracked run n k w \<and> (n = 0 \<longrightarrow> phase (transcript run w) < ph)
       \<or> tracked run' n (k + 1) w \<and> 0 < steps_left c run \<and> steps_left c run' < steps_left c run)"

lemma tracked_over: "tracked run n k w \<Longrightarrow> over c run k w"
  by (simp add: tracked_def over_def)

lemma tracked_over_left: "tracked run n (Suc k) w \<Longrightarrow> 0 < steps_left c run \<Longrightarrow> over c run k w"
  by (auto simp: tracked_def over_def)

lemma steps_left_less: "run_steps run + 1 \<le> run_steps run' \<Longrightarrow> 0 < steps_left c run \<Longrightarrow> steps_left c run' < steps_left c run"
  by (auto simp: steps_left_def usage_from_def split: option.splits)

text \<open>Ending the run.\<close>

lemma stop_passed:
  assumes "obeys advances m" "obeys same_calls m"
  shows "triple (tracked run n k) (stop_with m) (passed c run n k ph) (over c run k)"
proof -
  have "triple (tracked run n k) (stop_with m) (\<lambda>x w. tracked run n k w \<and> (\<exists>out. x = Inl out)) (tracked run n k)"
    unfolding stop_with_def
    by (rule triple_and_then [OF tracked_kept [OF assms]]) (auto intro: triple_ret)
  then show ?thesis by (rule triple_post) (auto simp: passed_def tracked_over)
qed

lemma stop_left:
  assumes "obeys advances m" "obeys same_calls m" "0 < steps_left c run"
  shows "triple (tracked run' n (Suc k)) (stop_with m) (passed c run n k ph) (over c run k)"
proof -
  have "triple (tracked run' n (Suc k)) (stop_with m) (\<lambda>x w. tracked run' n (Suc k) w \<and> (\<exists>out. x = Inl out)) (tracked run' n (Suc k))"
    unfolding stop_with_def
    by (rule triple_and_then [OF tracked_kept [OF assms(1,2)]]) (auto intro: triple_ret)
  then show ?thesis
    by (rule triple_post) (use assms(3) in \<open>auto simp: passed_def over_def tracked_def\<close>)
qed

lemma isStepLimitNote_note: "isStepLimitNote (snd stepLimitNote)" "\<not> isStepLimitNote (snd (toolResultMessage results))"
  by (simp_all add: isStepLimitNote_def stepLimitNote_def toolResultMessage_def field_def)

text \<open>The tool results follow an answer with calls.\<close>

lemma calls_passed:
  "triple (tracked run n k) (after_calls opts c run lastMsg calls) (passed c run n k 2) (over c run k)"
proof -
  have appended: "triple (tracked run n k) (and_then (append_run (dc_holder c) run [toolResultMessage results]) (\<lambda>_. ret (Inr run)))
      (passed c run n k 2) (over c run k)" for results
  proof -
    have "triple (tracked run n k) (append_run (dc_holder c) run [toolResultMessage results])
        (\<lambda>_ w. passed c run n k 2 (Inr run) w) (over c run k)"
      by (rule triple_post [OF append_one])
        (auto simp: passed_def phase_def tracked_over isStepLimitNote_note, simp add: toolResultMessage_def)
    then show ?thesis by (rule triple_and_then) (rule triple_ret)
  qed
  have kept: "triple (tracked run n k) (settleCalls opts c run (msg_seq lastMsg) calls) (\<lambda>_. tracked run n k) (over c run k)"
    by (rule triple_post [OF tracked_kept [OF progress.obeys_settleCalls uncounted.obeys_settleCalls]])
      (auto intro: tracked_over)
  show ?thesis
    unfolding after_calls_def
  proof (rule triple_and_then [OF kept], rule triple_with_world, rule triple_if)
    show "triple (\<lambda>u. u = w \<and> tracked run n k u) (ret (Inl Lease_Lost)) (passed c run n k 2) (over c run k)" for w
      by (rule triple_ret) (auto simp: passed_def tracked_over)
    show "triple (\<lambda>u. u = w \<and> tracked run n k u) (and_then (append_run (dc_holder c) run [toolResultMessage results]) (\<lambda>_. ret (Inr run)))
      (passed c run n k 2) (over c run k)" for w results
      by (rule triple_pre [OF appended]) blast
  qed
qed

text \<open>The checks let a run pass only with a step left.\<close>

lemma check_passed:
  "triple (tracked run n k) (checkBeforeStep c run)
     (\<lambda>x w. tracked run n k w \<and> (x = None \<longrightarrow> 0 < steps_left c run)) (tracked run n k)"
proof -
  let ?Q = "\<lambda>x w. tracked run n k w \<and> (x = None \<longrightarrow> 0 < steps_left c run)"
  have stopped: "triple (\<lambda>u. tracked run n k u \<and> P u) (stop_step m) ?Q (tracked run n k)"
    if "obeys advances m" "obeys same_calls m" for m P
    unfolding stop_step_def
    by (rule triple_pre [OF triple_and_then [OF tracked_kept [OF that]]]) (auto intro: triple_ret)
  have daily: "triple (\<lambda>u. tracked run n k u \<and> P u) (daily_check c run now1) ?Q (tracked run n k)"
    if "0 < steps_left c run" for now1 P
  proof (rule triple_pre)
    show "triple (tracked run n k) (daily_check c run now1) ?Q (tracked run n k)"
      by (rule triple_post [OF tracked_kept])
        (auto simp: that daily_check_def
          intro!: progress.obeys_and_then progress.obeys_if progress.obeys_ret progress.obeys_stop_step progress.obeys_fail progress.reading
            uncounted.obeys_and_then uncounted.obeys_if uncounted.obeys_ret uncounted.obeys_stop_step uncounted.obeys_fail uncounted.reading)
  qed blast
  have limits: "triple (\<lambda>u. tracked run n k u \<and> P u) (limit_checks c run current now1) ?Q (tracked run n k)"
    if "run_steps run \<le> run_steps current" for now1 current P
    unfolding limit_checks_def Let_def
  proof (intro triple_if stopped progress.obeys_fail uncounted.obeys_fail daily)
    assume "\<not> u_steps (usage_from (dc_base c) current) \<ge> int (maxSteps (dc_limits c))"
    then show "0 < steps_left c run"
      using that by (auto simp: steps_left_def usage_from_def split: option.splits)
  qed
  have rest: "triple (\<lambda>w. tracked run n k w \<and> run_steps run \<le> run_steps current)
      (if b \<or> cancel_requested current then stop_step (finish_with (dc_holder c) run (Outcome_Cancelled None))
       else with_world (\<lambda>w1. limit_checks c run current (rw_now w1))) ?Q (tracked run n k)" for b current
  proof (rule triple_if)
    show "triple (\<lambda>w. tracked run n k w \<and> run_steps run \<le> run_steps current)
        (stop_step (finish_with (dc_holder c) run (Outcome_Cancelled None))) ?Q (tracked run n k)"
      by (intro stopped progress.obeys_finish_with uncounted.obeys_finish_with)
    show "triple (\<lambda>w. tracked run n k w \<and> run_steps run \<le> run_steps current)
        (with_world (\<lambda>w1. limit_checks c run current (rw_now w1))) ?Q (tracked run n k)"
    proof (cases "run_steps run \<le> run_steps current")
      case True
      show ?thesis by (rule triple_with_world, rule triple_pre [OF limits [OF True, of "\<lambda>_. True"]]) auto
    next
      case False
      then show ?thesis by (simp add: triple_def)
    qed
  qed
  show ?thesis
    unfolding checkBeforeStep_def
  proof (rule triple_with_world, rule triple_if)
    show "triple (\<lambda>u. u = w \<and> tracked run n k u) (ret (Some Lease_Lost)) ?Q (tracked run n k)" for w
      by (rule triple_ret) simp
    show "triple (\<lambda>u. u = w \<and> tracked run n k u) (and_then (ask_row run) (\<lambda>current.
         if stopFor w = Some Abort_Cancelled \<or> cancel_requested current
         then stop_step (finish_with (dc_holder c) run (Outcome_Cancelled None))
         else with_world (\<lambda>w1. limit_checks c run current (rw_now w1)))) ?Q (tracked run n k)" for w
      by (rule triple_pre [OF triple_and_then [OF current_row rest]]) blast
  qed
qed


text \<open>A model step: one call, and then what it answered is appended and counted.\<close>

lemma model_called: "triple (tracked run n k) (callModel opts c run messages) (\<lambda>_. tracked run n (k + 1)) (tracked run n (k + 1))"
proof -
  have result: "triple (tracked run n k') (model_result c run answer) (\<lambda>_. tracked run n k') (tracked run n k')" for answer k'
    by (intro tracked_kept progress.obeys_model_result uncounted.obeys_model_result)
  have "triple (tracked run n k) (ask_model opts req) (\<lambda>_. tracked run n (k + 1)) (tracked run n (k + 1))" for req
    unfolding triple_def
  proof (intro allI impI conjI)
    fix w x w'
    assume w: "tracked run n k w" and m: "ask_model opts req w = (Inr x, w')"
    have "tracked run n (k + 1) (w\<lparr>rw_model_calls := rw_model_calls w + 1\<rparr>)" using w by (simp add: tracked_def)
    then show "tracked run n (k + 1) w'"
      using tracked_advances [OF _ advances_turn same_calls_turn] m by (auto simp: ask_model_def)
  qed (simp add: ask_model_def)
  then have "triple (tracked run n k) (and_then (ask_model opts (request_of c run messages w)) (model_result c run))
      (\<lambda>_. tracked run n (k + 1)) (tracked run n (k + 1))" for w
    using result by (rule triple_and_then)
  then show ?thesis
    unfolding callModel_def by (rule_tac triple_with_world, rule_tac triple_pre [where P = "tracked run n k"]) auto
qed

lemma step_passed:
  assumes left: "0 < steps_left c run"
  shows "triple (tracked run n (Suc k)) (after_step c run step) (passed c run n k ph) (over c run k)"
proof -
  have ended: "triple (tracked run' n (Suc k)) (stop_with (fail (dc_holder c) run1 code m)) (passed c run n k ph) (over c run k)" for run1 run' code m
    by (intro stop_left progress.obeys_fail uncounted.obeys_fail left)
  have counted: "triple (tracked run n (Suc k)) (record_step run step)
      (\<lambda>run' w. tracked run' n (Suc k) w \<and> steps_left c run' < steps_left c run) (over c run k)"
    by (rule triple_post [OF record_step_left]) (auto intro: steps_left_less left tracked_over_left)
  have failed: "triple (tracked run n (Suc k)) (and_then (record_step run step) (\<lambda>_. stop_with (fail (dc_holder c) run code m)))
      (passed c run n k ph) (over c run k)" for code m
    by (rule triple_and_then [OF counted], rule triple_pre [OF ended]) blast
  have warned: "triple (tracked run' n (Suc k)) (tries (addWarning (run_id run) remark)) (\<lambda>_. tracked run' n (Suc k)) (over c run k)" for run' remark
    by (rule triple_post [OF tracked_kept [OF progress.warning uncounted.warning]]) (use left in \<open>auto simp: over_def tracked_def\<close>)
  have goes_on: "passed c run n k ph (Inr run') w" if "tracked run' n (Suc k) w" "steps_left c run' < steps_left c run" for run' w
    using that left by (simp add: passed_def)
  have appended: "triple (tracked run n (Suc k)) (append_run (dc_holder c) run (sr_messages step)) (\<lambda>_. tracked run n (Suc k)) (over c run k)"
    by (rule triple_post [OF append_tracked]) (auto intro: tracked_over_left left)
  have last_part: "triple (\<lambda>w. tracked run' n (Suc k) w \<and> steps_left c run' < steps_left c run)
      (if b then stop_with (fail (dc_holder c) run' STEP_LIMIT m)
       else if b' then and_then (tries (addWarning (run_id run) remark)) (\<lambda>_. ret (Inr run')) else ret (Inr run'))
      (passed c run n k ph) (over c run k)" for run' b b' m remark
  proof (cases "steps_left c run' < steps_left c run")
    case True
    have "triple (tracked run' n (Suc k)) (and_then (tries (addWarning (run_id run) remark)) (\<lambda>_. ret (Inr run'))) (passed c run n k ph) (over c run k)"
      by (rule triple_and_then [OF warned], rule triple_ret) (rule goes_on [OF _ True])
    moreover have "triple (tracked run' n (Suc k)) (ret (Inr run')) (passed c run n k ph) (over c run k)"
      by (rule triple_ret) (rule goes_on [OF _ True])
    ultimately show ?thesis by (rule_tac triple_pre [where P = "tracked run' n (Suc k)"]) (auto intro: triple_if ended)
  next
    case False
    then show ?thesis by (simp add: triple_def)
  qed
  show ?thesis
    unfolding after_step_def Let_def
    by (rule triple_if, rule failed, rule triple_if, rule failed,
        rule triple_and_then [OF appended], rule triple_and_then [OF counted], rule last_part)
qed

lemma phase_note: "ms \<noteq> [] \<Longrightarrow> msg_role (last ms) = fst stepLimitNote \<Longrightarrow> msg_content (last ms) = snd stepLimitNote \<Longrightarrow> phase ms = 0"
  using isStepLimitNote_note by (simp add: phase_def) (simp add: stepLimitNote_def)

lemma model_passed:
  assumes "\<not> (messages \<noteq> [] \<and> msg_role (last messages) = Assistant)"
  shows "triple (tracked run n k) (model_pass opts c run messages) (passed c run n k (phase messages)) (over c run k)"
proof -
  let ?ph = "phase messages"
  have noted: "triple (tracked run n k) (and_then (append_run (dc_holder c) run [stepLimitNote]) (\<lambda>_. ret (Inr run)))
      (passed c run n k ?ph) (over c run k)" if "\<not> (messages \<noteq> [] \<and> isStepLimitNote (msg_content (last messages)))"
  proof -
    have ph: "?ph = 1" using that assms by (auto simp: phase_def)
    have "triple (tracked run n k) (append_run (dc_holder c) run [stepLimitNote]) (\<lambda>_ w. passed c run n k ?ph (Inr run) w) (over c run k)"
      by (rule triple_post [OF append_one])
        (auto simp: passed_def phase_note ph tracked_over)
    then show ?thesis by (rule triple_and_then) (rule triple_ret)
  qed
  have asked: "triple (tracked run n k) (and_then (callModel opts c run messages) (\<lambda>answer. case answer of
               Inl out \<Rightarrow> ret (Inl out) | Inr step \<Rightarrow> after_step c run step)) (passed c run n k ?ph) (over c run k)"
    if left: "0 < steps_left c run"
  proof -
    have "triple (tracked run n (Suc k)) (case answer of Inl out \<Rightarrow> ret (Inl out) | Inr step \<Rightarrow> after_step c run step)
        (passed c run n k ?ph) (over c run k)" for answer
    proof (cases answer)
      case (Inl out)
      then show ?thesis by (auto intro!: triple_ret simp: passed_def tracked_over_left left)
    next
      case (Inr step)
      then show ?thesis using step_passed [OF left] by simp
    qed
    moreover have "triple (tracked run n k) (callModel opts c run messages) (\<lambda>_. tracked run n (Suc k)) (over c run k)"
      by (rule triple_post [OF model_called]) (auto intro: tracked_over_left left)
    ultimately show ?thesis by (rule_tac triple_and_then)
  qed
  have checked: "triple (tracked run n k) (checkBeforeStep c run)
      (\<lambda>x w. tracked run n k w \<and> (x = None \<longrightarrow> 0 < steps_left c run)) (over c run k)"
    by (rule triple_post [OF check_passed]) (auto intro: tracked_over)
  have "triple (\<lambda>w. tracked run n k w \<and> (x = None \<longrightarrow> 0 < steps_left c run))
      (case x of Some out \<Rightarrow> ret (Inl out) | None \<Rightarrow>
           if isLastStep (usage_from (dc_base c) run) (dc_limits c) \<and>
              \<not> (messages \<noteq> [] \<and> isStepLimitNote (msg_content (last messages)))
           then and_then (append_run (dc_holder c) run [stepLimitNote]) (\<lambda>_. ret (Inr run))
           else and_then (callModel opts c run messages) (\<lambda>answer. case answer of
               Inl out \<Rightarrow> ret (Inl out) | Inr step \<Rightarrow> after_step c run step))
      (passed c run n k ?ph) (over c run k)" for x
  proof (cases x)
    case (Some out)
    then show ?thesis by (auto intro!: triple_ret simp: passed_def tracked_over)
  next
    case None
    show ?thesis
    proof (cases "0 < steps_left c run")
      case True
      show ?thesis unfolding None option.case
        by (rule triple_pre [where P = "tracked run n k"], rule triple_if, rule noted, blast, rule asked [OF True]) blast
    qed (simp add: None triple_def)
  qed
  then show ?thesis unfolding model_pass_def by (rule triple_and_then [OF checked])
qed

lemma park_passed: "triple (tracked run n k) (stop_with (park c run)) (passed c run n k ph) (over c run k)"
  by (intro stop_passed progress.obeys_park uncounted.obeys_park)

lemma messages_passed:
  "triple (tracked run n k) (if messages \<noteq> [] \<and> msg_role (last messages) = Assistant
       then let lastMsg = last messages; calls = toolCallsOf (msg_content lastMsg) in
         if calls \<noteq> [] then after_calls opts c run lastMsg calls
         else if run_mode run = Chat then stop_with (park c run)
         else stop_with (finish_with (dc_holder c) run
           (Outcome_Succeeded (JObj [(''text'', JStr (textOf (msg_content lastMsg)))])))
       else model_pass opts c run messages) (passed c run n k (phase messages)) (over c run k)"
proof (cases "messages \<noteq> [] \<and> msg_role (last messages) = Assistant")
  case True
  then have "phase messages = 2" by (simp add: phase_def)
  then show ?thesis using True
    by (auto simp: Let_def intro: calls_passed park_passed stop_passed progress.obeys_finish_with uncounted.obeys_finish_with)
next
  case False
  then show ?thesis using model_passed by auto
qed

text \<open>So each pass from a world ends the run or lowers the potential.\<close>

lemma drive_passed:
  assumes "tracked run n k w" "drive_pass opts c run w = (x, w')"
  shows "case x of Inr (Inr run') \<Rightarrow> passed c run (n - 1) k (phase (transcript run w)) (Inr run') w' \<or>
      0 < n \<and> passed c run (n - 1) k 3 (Inr run') w' | _ \<Rightarrow> over c run k w'"
proof -
  have cont: "triple (\<lambda>u. tracked run (n - 1) k u \<and> (n = 0 \<longrightarrow> messages = transcript run w))
      (if messages \<noteq> [] \<and> msg_role (last messages) = Assistant
       then let lastMsg = last messages; calls = toolCallsOf (msg_content lastMsg) in
         if calls \<noteq> [] then after_calls opts c run lastMsg calls
         else if run_mode run = Chat then stop_with (park c run)
         else stop_with (finish_with (dc_holder c) run
           (Outcome_Succeeded (JObj [(''text'', JStr (textOf (msg_content lastMsg)))])))
       else model_pass opts c run messages)
      (\<lambda>x u. passed c run (n - 1) k (phase (transcript run w)) x u \<or> 0 < n \<and> passed c run (n - 1) k 3 x u)
      (over c run k)" for messages
  proof (cases "n = 0 \<longrightarrow> messages = transcript run w")
    case True
    have "phase messages < 3" by (simp add: phase_def)
    then have widen: "passed c run (n - 1) k 3 x u" if "passed c run (n - 1) k (phase messages) x u" for x u
      using that by (auto simp: passed_def split: sum.splits)
    show ?thesis
      by (rule triple_pre [OF triple_post [OF messages_passed [of run "n - 1" k messages opts c]]])
        (use True widen in auto)
  qed (simp add: triple_def)
  have "triple (\<lambda>u. u = w \<and> tracked run n k u) (drive_pass opts c run)
      (\<lambda>x u. passed c run (n - 1) k (phase (transcript run w)) x u \<or> 0 < n \<and> passed c run (n - 1) k 3 x u) (over c run k)"
    unfolding drive_pass_def
    by (rule triple_and_then [OF triple_post [OF read_messages] cont]) (auto intro: tracked_over)
  note pass = tripleD [OF this, of w] tripleD_error [OF this, of w]
  show ?thesis
  proof (cases x)
    case (Inl e)
    then show ?thesis using pass(2) assms by simp
  next
    case (Inr y)
    then have "passed c run (n - 1) k (phase (transcript run w)) y w' \<or> 0 < n \<and> passed c run (n - 1) k 3 y w'"
      using pass(1) assms by simp
    then show ?thesis using Inr by (cases y) (auto simp: passed_def)
  qed
qed


section \<open>The loop\<close>

lemma phase_bound: "phase ms \<le> 2"
  by (simp add: phase_def)

text \<open>Each interruption may put the run back by all phases of all steps, once.\<close>

definition potential :: "nat \<Rightarrow> drive_context \<Rightarrow> run_row \<Rightarrow> nat \<Rightarrow> runner_world \<Rightarrow> nat" where
  "potential m c run n w = n * (3 * m + 3) + 3 * steps_left c run + phase (transcript run w)"

lemma pass_lowers:
  assumes "tracked run n k w" "drive_pass opts c run w = (Inr (Inr run'), w')" "steps_left c run \<le> m"
  obtains k' where "tracked run' (n - 1) k' w'" "k' + steps_left c run' \<le> k + steps_left c run"
    "steps_left c run' \<le> m" "potential m c run' (n - 1) w' < potential m c run n w"
proof -
  have p: "passed c run (n - 1) k (phase (transcript run w)) (Inr run') w' \<or> 0 < n \<and> passed c run (n - 1) k 3 (Inr run') w'"
    using drive_passed [OF assms(1,2)] by simp
  then consider
      (same) "run' = run" "tracked run (n - 1) k w'" "n = 0 \<Longrightarrow> phase (transcript run w') < phase (transcript run w)"
    | (step) "tracked run' (n - 1) (k + 1) w'" "steps_left c run' < steps_left c run"
    unfolding passed_def by (cases n) auto
  then show thesis
  proof cases
    case same
    have "potential m c run (n - 1) w' < potential m c run n w"
      using same(3) phase_bound [of "transcript run w'"] by (cases n) (auto simp: potential_def)
    then show thesis using that [of k] same assms(3) by simp
  next
    case step
    have "potential m c run' (n - 1) w' < potential m c run n w"
      using step(2) phase_bound [of "transcript run' w'"] assms(3) by (cases n) (auto simp: potential_def)
    then show thesis using that [of "k + 1"] step assms(3) by simp
  qed
qed

lemma drive_loop_returns:
  "tracked run n k w \<Longrightarrow> steps_left c run \<le> m \<Longrightarrow> potential m c run n w < fuel \<Longrightarrow> drive_loop fuel opts c run w \<noteq> None"
proof (induction fuel arbitrary: run n k w)
  case (Suc fuel)
  obtain x w1 where pass: "drive_pass opts c run w = (x, w1)" by fastforce
  show ?case
  proof (cases "\<exists>run'. x = Inr (Inr run')")
    case True
    then obtain run' where x: "x = Inr (Inr run')" by blast
    obtain k' where k': "tracked run' (n - 1) k' w1" "k' + steps_left c run' \<le> k + steps_left c run"
      "steps_left c run' \<le> m" "potential m c run' (n - 1) w1 < potential m c run n w"
      using pass_lowers [OF Suc.prems(1) pass [unfolded x] Suc.prems(2)] .
    then have "drive_loop fuel opts c run' w1 \<noteq> None" using Suc.IH [OF k'(1,3)] Suc.prems(3) by simp
    then show ?thesis using pass x by simp
  next
    case False
    then show ?thesis using pass by (auto split: sum.splits)
  qed
qed simp

lemma drive_loop_calls:
  "tracked run n k w \<Longrightarrow> drive_loop fuel opts c run w = Some (x, w') \<Longrightarrow> rw_model_calls w' \<le> k + steps_left c run"
proof (induction fuel arbitrary: run n k w)
  case (Suc fuel)
  obtain y w1 where pass: "drive_pass opts c run w = (y, w1)" by fastforce
  show ?case
  proof (cases "\<exists>run'. y = Inr (Inr run')")
    case True
    then obtain run' where y: "y = Inr (Inr run')" by blast
    obtain k' where k': "tracked run' (n - 1) k' w1" "k' + steps_left c run' \<le> k + steps_left c run"
      using pass_lowers [OF Suc.prems(1) pass [unfolded y] order_refl] .
    have "rw_model_calls w' \<le> k' + steps_left c run'"
      using Suc.IH [OF k'(1)] Suc.prems(2) pass y by simp
    then show ?thesis using k'(2) by linarith
  next
    case False
    then have "over c run k w1" "w1 = w'"
      using drive_passed [OF Suc.prems(1) pass] Suc.prems(2) pass by (auto split: sum.splits)
    then show ?thesis by (auto simp: over_def)
  qed
qed simp

section \<open>From the claim on\<close>

lemma lower_lower [simp]: "to_lower (to_lower c) = to_lower c"
proof -
  have "\<forall>c. to_lower (to_lower c) = to_lower c" by code_simp
  then show ?thesis by blast
qed

lemma lower_char: "to_lower c = CHR ''-'' \<longleftrightarrow> c = CHR ''-''" "hex_digit_char (to_lower c) = hex_digit_char c"
proof -
  have "\<forall>c. (to_lower c = CHR ''-'' \<longleftrightarrow> c = CHR ''-'') \<and> hex_digit_char (to_lower c) = hex_digit_char c" by code_simp
  then show "to_lower c = CHR ''-'' \<longleftrightarrow> c = CHR ''-''" "hex_digit_char (to_lower c) = hex_digit_char c" by blast+
qed

lemma lower_uuid: "is_uuid (map to_lower i) = is_uuid i"
proof -
  have "split_on CHR ''-'' (map to_lower i) = map (map to_lower) (split_on CHR ''-'' i)"
    by (induction i) (auto simp: lower_char split: list.splits)
  then show ?thesis by (simp add: is_uuid_def lower_char list.pred_map comp_def)
qed

text \<open>What a granted claim returns is the row as it is now stored.\<close>

lemma claim_known:
  assumes "claim_run i holder secs now s = (Some run, s')"
  obtains r where "r \<in> set (runs s)" "has_run_id i r" "run_key run = run_key r" "run_steps run = run_steps r" "known run s'"
proof -
  have uuid: "is_uuid i" and found: "map_option (take_lease holder secs now) (find_first (claimable i now) (runs s)) = Some run"
    and s': "s' = s\<lparr>runs := update_where (claimable i now) (take_lease holder secs now) (runs s)\<rparr>"
    using assms by (auto simp: claim_run_def first_returning split: if_splits)
  then obtain r where r: "find_first (claimable i now) (runs s) = Some r" "run = take_lease holder secs now r" by auto
  have c: "r \<in> set (runs s)" "claimable i now r" using find_first_Some [OF r(1)] by auto
  then have id: "has_run_id i r" by (simp add: claimable_def)
  have "run \<in> set (runs s')" using c r(2) s' by (auto simp: update_where_def intro!: rev_image_eqI [of r])
  moreover have "run_id run = map to_lower i" using id r(2) by (simp add: take_lease_def has_run_id_def)
  ultimately have "known run s'" using uuid by (auto simp: known_def lower_uuid comp_def)
  then show thesis using that [OF c(1) id] r(2) by (simp add: run_key_def take_lease_def)
qed

lemma claim_tracked:
  assumes ok: "lawful (rw_ticks w)" "store_ok (rw_db w)"
    and q: "query (claim_run i holder secs) (w\<lparr>rw_count := n\<rparr>) = (Some run, w1)"
  shows "tracked run (length (rw_ticks w)) (rw_model_calls w) w1"
    "r \<in> set (runs (rw_db w)) \<Longrightarrow> has_run_id i r \<Longrightarrow> run_key run = run_key r \<and> run_steps r \<le> run_steps run"
proof -
  let ?w = "w\<lparr>rw_count := n\<rparr>"
  obtain x s where f: "claim_run i holder secs (rw_now (turn ?w)) (rw_db (turn ?w)) = (x, s)"
    and q': "query (claim_run i holder secs) ?w = (x, (turn ?w)\<lparr>rw_db := s\<rparr>)"
    by (rule query_run [of "claim_run i holder secs" ?w])
  have x: "x = Some run" "w1 = (turn ?w)\<lparr>rw_db := s\<rparr>" using q q' by auto
  obtain r0 where r0: "r0 \<in> set (runs (rw_db (turn ?w)))" "has_run_id i r0" "run_key run = run_key r0"
    "run_steps run = run_steps r0" "known run s"
    using claim_known [OF f [unfolded x]] .
  have adv: "advances ?w w1" using advances_query [of "claim_run i holder secs" ?w] step_claim q by (metis snd_conv)
  then have h: "history (rw_db w) (rw_db w1)" "lawful (rw_ticks w1)" "length (rw_ticks w1) \<le> length (rw_ticks w)"
    using ok by (auto simp: advances_def)
  have "same_calls ?w w1" using same_calls_query [of ?w "claim_run i holder secs"] q by (metis snd_conv)
  then show "tracked run (length (rw_ticks w)) (rw_model_calls w) w1"
    using h store_ok_history [OF h(1) ok(2)] r0(5) x(2) by (simp add: tracked_def same_calls_def)
  assume r: "r \<in> set (runs (rw_db w))" "has_run_id i r"
  have ht: "history (rw_db w) (rw_db (turn ?w))" using advances_turn [of ?w] ok by (simp add: advances_def)
  obtain r' where r': "r' \<in> set (runs (rw_db (turn ?w)))" "row_step r r'" using row_of_history [OF ht ok(2) r(1)] by blast
  have "run_id r' = run_id r0" using r'(2) r(2) r0(2) by (simp add: row_step_def run_key_def has_run_id_def)
  then have "r' = r0"
    using store_ok_history [OF ht ok(2)] r'(1) r0(1) by (auto simp: store_ok_def distinct_map inj_on_def)
  then show "run_key run = run_key r \<and> run_steps r \<le> run_steps run" using r'(2) r0 by (simp add: row_step_def)
qed

text \<open>The steps a driven run may still take.\<close>

definition steps_allowed :: "loop_options \<Rightarrow> run_row \<Rightarrow> nat" where
  "steps_allowed opts r = min (maxSteps (ad_limits (run_definition r))) (maxSteps (o_ceilings opts))
     - (if run_mode r = Chat then 0 else run_steps r)"

lemma steps_left_start: "steps_left (context_of opts holder run model offered now) run = steps_allowed opts run"
  by (auto simp: steps_left_def context_of_def usage_from_def lowest_def steps_allowed_def)

lemma fail_tracked: "triple (tracked run n k) (fail holder run code m) (\<lambda>_. tracked run n k) (tracked run n k)"
  by (intro tracked_kept progress.obeys_fail uncounted.obeys_fail)

lemma offer_tracked: "triple (tracked run n k) (offerTools opts run model) (\<lambda>_. tracked run n k) (tracked run n k)"
  by (intro tracked_kept progress.obeys_offerTools uncounted.obeys_offerTools)

lemma drive_calls:
  assumes "tracked run n k w" "drive fuel opts holder run w = Some (x, w')"
  shows "rw_model_calls w' \<le> k + steps_allowed opts run"
proof (cases "find_first (\<lambda>m. am_key m = ad_model (run_definition run)) (o_models opts)")
  case None
  then have "fail holder run MODEL_ERROR (''Model '' @ ad_model (run_definition run) @ '' is not offered on this instance.'') w = (x, w')"
    using assms(2) by (simp add: drive_def)
  then have "tracked run n k w'" using tripleD [OF fail_tracked assms(1)] tripleD_error [OF fail_tracked assms(1)] by (cases x) metis+
  then show ?thesis by (simp add: tracked_def)
next
  case (Some model)
  obtain y w1 where offer: "offerTools opts run model w = (y, w1)" by fastforce
  then have t: "tracked run n k w1" using tripleD [OF offer_tracked assms(1)] tripleD_error [OF offer_tracked assms(1)] by (cases y) metis+
  show ?thesis
  proof (cases y)
    case (Inl e)
    then show ?thesis using t assms(2) Some offer by (simp add: drive_def tracked_def)
  next
    case (Inr offered)
    then show ?thesis
      using drive_loop_calls [OF t, of fuel opts "context_of opts holder run model offered (rw_now w1)"] assms(2) Some offer
      by (simp add: drive_def steps_left_start)
  qed
qed

lemma drive_returns:
  assumes "tracked run n k w" "steps_allowed opts run \<le> m" "(n + 1) * (3 * m + 3) \<le> fuel"
  shows "drive fuel opts holder run w \<noteq> None"
proof (cases "find_first (\<lambda>m. am_key m = ad_model (run_definition run)) (o_models opts)")
  case (Some model)
  obtain y w1 where offer: "offerTools opts run model w = (y, w1)" by fastforce
  show ?thesis
  proof (cases y)
    case (Inr offered)
    let ?c = "context_of opts holder run model offered (rw_now w1)"
    have t: "tracked run n k w1" using tripleD [OF offer_tracked assms(1)] offer Inr by metis
    have "potential m ?c run n w1 < fuel"
      using assms(2,3) phase_bound [of "transcript run w1"] by (simp add: potential_def steps_left_start)
    then have "drive_loop fuel opts ?c run w1 \<noteq> None"
      using drive_loop_returns [OF t] assms(2) by (simp add: steps_left_start)
    then show ?thesis using Some offer Inr by (simp add: drive_def)
  qed (use Some offer in \<open>simp add: drive_def\<close>)
qed (simp add: drive_def)

end
