(* ===== verification/Agent_Loop_Properties.thy ===== *)
theory Agent_Loop_Properties
  imports Agent_Loop_Bounds
begin

text \<open>The properties of the run loop, and a worked run they apply to.\<close>

section \<open>A worked run\<close>

text \<open>A chat whose model calls one write tool and then answers; a server renews the lease meanwhile.\<close>

definition loop_tool :: runner_tool where
  "loop_tool = \<lparr>rt_descriptor = sample_tool, rt_parse = Inr, rt_execute = (\<lambda>v n. Inr v)\<rparr>"

definition loop_model :: "model_request \<Rightarrow> nat \<Rightarrow> model_answer" where
  "loop_model req n = Answer \<lparr>sr_messages = [], sr_toolCalls = [], sr_text = ''no'', sr_finish = Refusal, sr_input = 3, sr_output = 2\<rparr>"

definition loop_opts :: loop_options where
  "loop_opts = \<lparr>o_step = loop_model, o_tools = [loop_tool], o_models = [\<lparr>am_key = ''m'', am_tools = True\<rparr>],
     o_ceilings = \<lparr>maxSteps = 4, maxTokens = 900, timeoutSeconds = 50, dailyTokens = 900\<rparr>, o_resultChars = 30,
     o_owner = ''w'', o_leaseSeconds = 60, o_digest = (\<lambda>s. s), o_uuid = (\<lambda>n. replicate n CHR ''u'')\<rparr>"

definition loop_tick :: tick where
  "loop_tick = \<lparr>tk_commits = (\<lambda>s. snd (renewLease demo_id ''w:'' 60 5 s)), tk_now = 5, tk_abort = None\<rparr>"

definition loop_call :: "message_role \<times> jsval" where
  "loop_call = (Assistant, JObj [(''content'', JArr [JObj [(''type'', JStr ''tool-call''), (''toolCallId'', JStr ''c1''),
     (''toolName'', JStr ''graph__merge''), (''input'', JNull)]])])"

definition loop_world :: runner_world where
  "loop_world = \<lparr>rw_db = snd (create ((demo_input None)\<lparr>cr_messages := [loop_call]\<rparr>) demo_id 0 empty_store), rw_ticks = [loop_tick],
     rw_now = 1, rw_abort = None, rw_count = 0, rw_model_calls = 0, rw_executed = [], rw_events = []\<rparr>"

lemma loop_world_lawful: "history empty_store (rw_db loop_world)" "lawful (rw_ticks loop_world)"
proof -
  have "rw_db loop_world = snd (create ((demo_input None)\<lparr>cr_messages := [loop_call]\<rparr>) demo_id 0 empty_store)" by (simp add: loop_world_def)
  then show "history empty_store (rw_db loop_world)" by (simp add: history_one step_create)
  show "lawful (rw_ticks loop_world)"
    by (simp add: loop_world_def lawful_def loop_tick_def history_one step_renew)
qed

lemma loop_world_result:
  "case process_run 30 loop_opts demo_id loop_world of None \<Rightarrow> False
     | Some (r, w) \<Rightarrow> written w = [(demo_id, ''c1'')] \<and> rw_model_calls w = 1"
  by code_simp

lemma loop_world_run:
  obtains r w where "process_run 30 loop_opts demo_id loop_world = Some (r, w)" "written w = [(demo_id, ''c1'')]" "rw_model_calls w = 1"
  using loop_world_result by (auto split: option.splits)

lemma loop_world_row:
  "map run_id (runs (rw_db loop_world)) = [map to_lower demo_id] \<and> steps_allowed loop_opts (hd (runs (rw_db loop_world))) = 4
    \<and> rw_model_calls loop_world = 0 \<and> length (rw_ticks loop_world) = 1 \<and> maxSteps (o_ceilings loop_opts) = 4 \<and> rw_executed loop_world = []"
  by code_simp

lemma process_driven:
  assumes "query (claim_run i (o_owner opts @ '':'' @ take 8 (o_uuid opts (rw_count w))) (o_leaseSeconds opts))
      (w\<lparr>rw_count := rw_count w + 1\<rparr>) = (Some run, w1)"
    "drive fuel opts (o_owner opts @ '':'' @ take 8 (o_uuid opts (rw_count w))) run
      ((snd (publish (Status_Event i Running) w1))\<lparr>rw_abort := None\<rparr>) = Some d"
  shows "process_run fuel opts i w \<noteq> None"
proof -
  obtain x w2 where d: "d = (x, w2)" by fastforce
  have run: "process_run fuel opts i w = (case Some (x, w2) of None \<Rightarrow> None
      | Some (Inl (Store_Error (RUN_LEASE_LOST _)), w2) \<Rightarrow> Some (Inr Lease_Lost, w2) | Some r \<Rightarrow> Some r)"
    unfolding process_run_def Let_def assms(1) option.case prod.case assms(2) d ..
  show ?thesis
  proof (cases x)
    case (Inl e)
    show ?thesis
    proof (cases e)
      case (Store_Error se)
      show ?thesis unfolding run Inl Store_Error by (cases se) simp_all
    next
      case (Other_Error m)
      show ?thesis unfolding run Inl Other_Error by simp
    qed
  next
    case (Inr out)
    show ?thesis unfolding run Inr by simp
  qed
qed

section \<open>Properties\<close>



text \<open>
  C6: The model is asked at most as often as the limits allow: one job asks it at most
  \<open>maxSteps\<close> times, of the definition and of the instance, whichever is lower; for a run that is
  not a chat the steps of earlier workers count against it.
\<close>

theorem model_calls_bounded:
  assumes "history empty_store (rw_db w)" "lawful (rw_ticks w)"
    "r \<in> set (runs (rw_db w))" "run_id r = map to_lower i"
    "process_run fuel opts i w = Some (x, w')"
  shows "rw_model_calls w' \<le> rw_model_calls w + steps_allowed opts r"
  using assms(5)
proof (cases rule: process_run_cases)
  case not_claimed
  then have "w' = snd (query (claim_run i (o_owner opts @ '':'' @ take 8 (o_uuid opts (rw_count w))) (o_leaseSeconds opts))
      (w\<lparr>rw_count := rw_count w + 1\<rparr>))" by simp
  then have "same_calls (w\<lparr>rw_count := rw_count w + 1\<rparr>) w'" using same_calls_query by simp
  then show ?thesis by (simp add: same_calls_def)
next
  case (driven run w1 y)
  have ok: "store_ok (rw_db w)" by (rule store_ok_history [OF assms(1) store_ok_empty])
  note claim = claim_tracked [OF assms(2) ok driven(1)]
  have same: "run_key run = run_key r \<and> run_steps r \<le> run_steps run" using claim(2) assms(3,4) by (simp add: has_run_id_def)
  have t: "tracked run (length (rw_ticks w)) (rw_model_calls w) ((snd (publish (Status_Event i Running) w1))\<lparr>rw_abort := None\<rparr>)"
    using claim(1) by (simp add: tracked_def publish_def)
  have "rw_model_calls w' \<le> rw_model_calls w + steps_allowed opts run" by (rule drive_calls [OF t driven(2)])
  also have "steps_allowed opts run \<le> steps_allowed opts r" using same by (auto simp: steps_allowed_def run_key_def)
  finally show ?thesis by simp
qed

theorem model_calls_bounded_witness:
  "\<exists>x w'. process_run 30 loop_opts demo_id loop_world = Some (x, w') \<and> rw_model_calls w' = 1 \<and> rw_model_calls w' \<le> 0 + 4"
proof -
  obtain x w' where w': "process_run 30 loop_opts demo_id loop_world = Some (x, w')" "rw_model_calls w' = 1"
    by (rule loop_world_run)
  let ?r = "hd (runs (rw_db loop_world))"
  have r: "?r \<in> set (runs (rw_db loop_world))" "run_id ?r = map to_lower demo_id"
    using loop_world_row by (cases "runs (rw_db loop_world)"; simp)+
  from model_calls_bounded [OF loop_world_lawful r w'(1)] loop_world_row have "rw_model_calls w' \<le> 0 + 4" by simp
  then show ?thesis using w' by blast
qed

text \<open>
  C4: Processing a run returns: with finitely many interruptions by others, the loop ends within
  three passes per step for each interruption, so \<open>(ticks + 1) * (3 * maxSteps + 3)\<close> passes are
  always enough; the model is never asked for ever and the transcript never grows without end.
\<close>

theorem process_run_returns:
  assumes "history empty_store (rw_db w)" "lawful (rw_ticks w)"
    "(length (rw_ticks w) + 1) * (3 * maxSteps (o_ceilings opts) + 3) \<le> fuel"
  shows "process_run fuel opts i w \<noteq> None"
proof -
  let ?h = "o_owner opts @ '':'' @ take 8 (o_uuid opts (rw_count w))"
  have ok: "store_ok (rw_db w)" by (rule store_ok_history [OF assms(1) store_ok_empty])
  obtain found w1 where q: "query (claim_run i ?h (o_leaseSeconds opts)) (w\<lparr>rw_count := rw_count w + 1\<rparr>) = (found, w1)" by fastforce
  show ?thesis
  proof (cases found)
    case (Some run)
    let ?w = "(snd (publish (Status_Event i Running) w1))\<lparr>rw_abort := None\<rparr>"
    have t: "tracked run (length (rw_ticks w)) (rw_model_calls w) ?w"
      using claim_tracked(1) [OF assms(2) ok q [unfolded Some]] by (simp add: tracked_def publish_def)
    have "drive fuel opts ?h run ?w \<noteq> None"
      by (rule drive_returns [OF t _ assms(3)]) (simp add: steps_allowed_def)
    then obtain d where "drive fuel opts ?h run ?w = Some d" by blast
    then show ?thesis by (rule process_driven [OF q [unfolded Some]])
  next
    case None
    show ?thesis unfolding process_run_def Let_def q None by simp
  qed
qed

theorem process_run_returns_witness: "process_run 30 loop_opts demo_id loop_world \<noteq> None"
  by (rule process_run_returns [OF loop_world_lawful]) (use loop_world_row in simp)

end
