(* ===== verification/Cypher_Guard.thy ===== *)
theory Cypher_Guard
  imports Prelude
begin

text \<open>
  The check for Cypher that a caller wrote (\<open>packages/shared/src/cypher/read-only-guard.ts\<close>):
  the reader that splits the text into tokens, the text without its strings and comments, and
  the verdict. The reader works on the rest of the text and the character before it, where the
  code works on an index; the spans it reports are positions in the whole text. Code units
  above 255, two of which the code lists as odd line breaks, have no counterpart.
\<close>

datatype refusal = EMPTY | TOO_LONG | UNREADABLE | WRITE_KEYWORD | PROCEDURE | FUNCTION | QUERY_OPTIONS | INTERNAL_LABEL

datatype verdict = Accepted | Refused refusal string "string option"

definition isInternalLabel :: "string \<Rightarrow> bool" where
  "isInternalLabel label = starts_with label ''_''"

definition WRITE_KEYWORDS :: "string list" where
  "WRITE_KEYWORDS = [''CREATE'', ''INSERT'', ''MERGE'', ''SET'', ''REMOVE'', ''DELETE'', ''DETACH'', ''NODETACH'',
     ''FOREACH'', ''LOAD'', ''DROP'', ''ALTER'', ''RENAME'', ''GRANT'', ''DENY'', ''REVOKE'', ''START'', ''STOP'',
     ''ENABLE'', ''DEALLOCATE'', ''REALLOCATE'', ''DRYRUN'', ''TERMINATE'', ''SHOW'', ''USE'', ''TRANSACTIONS'']"

definition ALLOWED_PROCEDURES :: "string list" where
  "ALLOWED_PROCEDURES = [''db.labels'', ''db.relationshipTypes'', ''db.propertyKeys'', ''db.schema.visualization'',
     ''db.schema.nodeTypeProperties'', ''db.schema.relTypeProperties'', ''apoc.path.expand'', ''apoc.path.expandConfig'',
     ''apoc.path.spanningTree'', ''apoc.path.subgraphAll'', ''apoc.path.subgraphNodes'']"

definition ALLOWED_FUNCTIONS :: "string list" where
  "ALLOWED_FUNCTIONS = [''date.realtime'', ''date.statement'', ''date.transaction'', ''date.truncate'',
     ''datetime.fromepoch'', ''datetime.fromepochmillis'', ''datetime.realtime'', ''datetime.statement'',
     ''datetime.transaction'', ''datetime.truncate'', ''localdatetime.realtime'', ''localdatetime.statement'',
     ''localdatetime.transaction'', ''localdatetime.truncate'', ''localtime.realtime'', ''localtime.statement'',
     ''localtime.transaction'', ''localtime.truncate'', ''time.realtime'', ''time.statement'', ''time.transaction'',
     ''time.truncate'', ''duration.between'', ''duration.indays'', ''duration.inmonths'', ''duration.inseconds'',
     ''point.distance'', ''point.withinbbox'', ''vector.similarity.cosine'', ''vector.similarity.euclidean'',
     ''apoc.convert.fromjsonlist'', ''apoc.convert.fromjsonmap'']"

definition MAX_QUERY_LENGTH :: nat where "MAX_QUERY_LENGTH = 100000"

datatype token = Name string bool | Punct char | Value_Token

section \<open>Characters\<close>

definition PUNCTUATION :: string where "PUNCTUATION = ''!#%&()*+,-./:;<=>?@[]^{|}~''"

definition odd_line_break :: "char \<Rightarrow> bool" where
  "odd_line_break c = (let n = (of_char c :: nat) in
     n \<le> 8 \<or> n = 11 \<or> n = 12 \<or> 14 \<le> n \<and> n \<le> 31 \<or> n = 127 \<or> n = 133)"

definition isNameStart :: "char \<Rightarrow> bool" where
  "isNameStart c = (is_lower c \<or> is_upper c \<or> c = CHR ''_'')"

definition isNamePart :: "char \<Rightarrow> bool" where
  "isNamePart c = (is_lower c \<or> is_upper c \<or> is_digit c \<or> c = CHR ''_'')"

definition is_hex :: "char \<Rightarrow> bool" where
  "is_hex c = (is_digit c \<or> to_lower c \<in> set ''abcdef'')"

definition is_octal :: "char \<Rightarrow> bool" where
  "is_octal c = (is_digit c \<and> c \<noteq> CHR ''8'' \<and> c \<noteq> CHR ''9'')"

text \<open>The character at an index, \<open>None\<close> past the end; a test of it.\<close>

definition char_at :: "string \<Rightarrow> nat \<Rightarrow> char option" where
  "char_at s i = (if i < length s then Some (s ! i) else None)"

definition char_is :: "(char \<Rightarrow> bool) \<Rightarrow> char option \<Rightarrow> bool" where
  "char_is p c = (case c of Some d \<Rightarrow> p d | None \<Rightarrow> False)"

definition run_length :: "(char \<Rightarrow> bool) \<Rightarrow> string \<Rightarrow> nat" where
  "run_length p s = length (takeWhile p s)"

section \<open>The reader\<close>

text \<open>The length of the number that a text begins with.\<close>

definition endOfNumber :: "string \<Rightarrow> nat" where
  "endOfNumber s =
     (let radix = (if char_at s 0 = Some CHR ''0'' then map_option to_lower (char_at s 1) else None) in
      if radix = Some CHR ''x'' then 2 + run_length is_hex (drop 2 s)
      else if radix = Some CHR ''o'' then 2 + run_length is_octal (drop 2 s)
      else
        let i = run_length is_digit s;
            j = (if char_at s i = Some CHR ''.'' \<and> char_is is_digit (char_at s (i + 1))
                 then i + 1 + run_length is_digit (drop (i + 1) s) else i) in
        if char_at s j = Some CHR ''e'' \<or> char_at s j = Some CHR ''E''
        then let signed = (if char_at s (j + 1) = Some CHR ''+'' \<or> char_at s (j + 1) = Some CHR ''-'' then 1 else 0) in
          if char_is is_digit (char_at s (j + 1 + signed))
          then j + 1 + signed + run_length is_digit (drop (j + 1 + signed) s) else j
        else j)"

text \<open>The name up to the closing backtick, and the length with that backtick.\<close>

fun quotedName :: "string \<Rightarrow> (string \<times> nat) option" where
  "quotedName [] = None"
| "quotedName (c # cs) =
     (if c \<noteq> CHR 0x60 then map_option (\<lambda>(name, n). (c # name, n + 1)) (quotedName cs)
      else (case cs of
          d # ds \<Rightarrow> if d = CHR 0x60 then map_option (\<lambda>(name, n). (CHR 0x60 # name, n + 2)) (quotedName ds) else Some ([], 1)
        | [] \<Rightarrow> Some ([], 1)))"

text \<open>The length of a string literal after its opening quote, and of a comment after its opening.\<close>

fun string_end :: "char \<Rightarrow> string \<Rightarrow> nat option" where
  "string_end q [] = None"
| "string_end q (c # cs) =
     (if c = q then Some 1
      else if c = CHR 0x5C then (case cs of [] \<Rightarrow> None | _ # ds \<Rightarrow> map_option (\<lambda>n. n + 2) (string_end q ds))
      else map_option (\<lambda>n. n + 1) (string_end q cs))"

fun comment_end :: "string \<Rightarrow> nat option" where
  "comment_end (c # d # cs) =
     (if c = CHR ''*'' \<and> d = CHR ''/'' then Some 2 else map_option (\<lambda>n. n + 1) (comment_end (d # cs)))"
| "comment_end _ = None"

fun unicode_escape :: "string \<Rightarrow> bool" where
  "unicode_escape (c # d # cs) = (c = CHR 0x5C \<and> to_lower d = CHR ''u'' \<or> unicode_escape (d # cs))"
| "unicode_escape _ = False"

definition line_char :: "char \<Rightarrow> bool" where
  "line_char c = (c \<noteq> CHR 0x0A \<and> c \<noteq> CHR 0x0D)"

definition blank_char :: "char \<Rightarrow> bool" where
  "blank_char c = (c = CHR '' '' \<or> c = CHR 0x09 \<or> c = CHR 0x0A \<or> c = CHR 0x0D)"

text \<open>
  One turn of the loop: the token read, if any, the length read, and the inert part of it
  (a start relative to this turn; its end is the end of the turn). \<open>prior\<close> is the character
  in front.
\<close>

definition read_one :: "char option \<Rightarrow> string \<Rightarrow> string + token option \<times> nat \<times> nat option" where
  "read_one prior s = (case s of [] \<Rightarrow> Inr (None, 0, None) | c # cs \<Rightarrow>
     (let follow = char_at cs 0 in
      if blank_char c then Inr (None, 1, None)
      else if c = CHR ''/'' \<and> follow = Some CHR ''/'' then
        (if list_ex odd_line_break (takeWhile line_char s)
         then Inl ''A comment contains a control character or an unusual line break.''
         else Inr (None, run_length line_char s, Some 0))
      else if c = CHR ''/'' \<and> follow = Some CHR ''*'' then
        (case comment_end (drop 2 s) of
           None \<Rightarrow> Inl ''A block comment is never closed.''
         | Some n \<Rightarrow> Inr (None, n + 2, Some 0))
      else if c = CHR 0x27 \<or> c = CHR 0x22 then
        (case string_end c cs of
           None \<Rightarrow> Inl ''A string is never closed.''
         | Some n \<Rightarrow> Inr (Some Value_Token, n + 1, Some 0))
      else if c = CHR 0x60 then
        (case quotedName cs of
           None \<Rightarrow> Inl ''A backtick-quoted name is never closed.''
         | Some (name, n) \<Rightarrow> Inr (Some (Name name True), n + 1, Some 0))
      else if c = CHR ''$'' \<and> char_is isNamePart prior then
        Inl ''A \"$\" directly after a name or a number is not supported. Put a space before a parameter.''
      else if c = CHR ''$'' \<and> char_is is_digit follow then
        (let n = run_length is_digit cs in
         if char_is isNamePart (char_at cs n) then Inl ''A numbered parameter runs straight into a name.''
         else Inr (Some Value_Token, n + 1, None))
      else if c = CHR ''$'' \<and> char_is isNameStart follow then
        Inr (Some Value_Token, run_length isNamePart cs + 1, None)
      else if c = CHR ''$'' \<and> follow = Some CHR 0x60 then
        (case quotedName (drop 1 cs) of
           None \<Rightarrow> Inl ''A backtick-quoted name is never closed.''
         | Some (name, n) \<Rightarrow> Inr (Some Value_Token, n + 2, Some 1))
      else if is_digit c then
        (if char_is isNamePart (char_at s (endOfNumber s)) then Inl ''A number runs straight into a name.''
         else Inr (Some Value_Token, endOfNumber s, None))
      else if isNameStart c then
        Inr (Some (Name (c # takeWhile isNamePart cs) False), run_length isNamePart cs + 1, None)
      else if c \<in> set PUNCTUATION \<or> c = CHR ''$'' then Inr (Some (Punct c), 1, None)
      else if c = CHR 0x5C then Inl ''A backslash is only supported inside a string.''
      else Inl (''Outside strings, backtick-quoted names and comments, raw queries may contain only plain ASCII '' @
        ''characters. Quote the name in backticks, or pass the value as a parameter.'')))"

text \<open>Every turn reads something.\<close>

lemma run_length_pos: "p c \<Longrightarrow> 0 < run_length p (c # cs)"
  by (simp add: run_length_def)

lemma endOfNumber_pos: "is_digit c \<Longrightarrow> 0 < endOfNumber (c # cs)"
  using run_length_pos [of is_digit c cs] by (auto simp: endOfNumber_def Let_def)

lemma read_one_pos: "read_one prior (c # cs) = Inr (t, n, sp) \<Longrightarrow> 0 < n"
  using endOfNumber_pos [of c cs] run_length_pos [of line_char c cs]
  by (auto simp: read_one_def Let_def line_char_def split: if_splits option.splits prod.splits)

type_synonym tokenized = "token list \<times> (nat \<times> nat) list"

function read_all :: "nat \<Rightarrow> char option \<Rightarrow> string \<Rightarrow> string + tokenized" where
  "read_all i prior s = (if s = [] then Inr ([], []) else
     (case read_one prior s of
        Inl reason \<Rightarrow> Inl reason
      | Inr (t, n, sp) \<Rightarrow>
          (case read_all (i + n) (char_at s (n - 1)) (drop n s) of
             Inl reason \<Rightarrow> Inl reason
           | Inr (tokens, inert) \<Rightarrow>
               Inr ((case t of None \<Rightarrow> tokens | Some u \<Rightarrow> u # tokens),
                 (case sp of None \<Rightarrow> inert | Some k \<Rightarrow> (i + k, i + n) # inert)))))"
  by pat_completeness auto
termination
proof (relation "measure (\<lambda>(i, prior, s). length s)", goal_cases)
  case (2 i prior s x t y n sp)
  then show ?case using read_one_pos [of prior "hd s" "tl s"] by (cases s) auto
qed simp

declare read_all.simps [simp del]

definition tokenize :: "string \<Rightarrow> string + tokenized" where
  "tokenize text =
     (if unicode_escape text
      then Inl (''Unicode escape sequences (a backslash followed by \"u\") are not supported in raw queries. '' @
        ''Type the character itself, or pass the value as a parameter.'')
      else read_all 0 None text)"

definition blank_span :: "string \<Rightarrow> nat \<times> nat \<Rightarrow> string" where
  "blank_span code sp = (case sp of (start, end1) \<Rightarrow>
     take start code @ replicate (end1 - start) CHR '' '' @ drop end1 code)"

definition cypherCodeText :: "string \<Rightarrow> string option" where
  "cypherCodeText cypher =
     (if length cypher > MAX_QUERY_LENGTH then None
      else (case tokenize cypher of Inl _ \<Rightarrow> None
        | Inr (tokens, inert) \<Rightarrow> Some (foldl blank_span cypher inert)))"

section \<open>The verdict\<close>

definition token_at :: "token list \<Rightarrow> nat \<Rightarrow> token option" where
  "token_at ts i = (if i < length ts then Some (ts ! i) else None)"

definition isPunct :: "token option \<Rightarrow> char \<Rightarrow> bool" where
  "isPunct t c = (t = Some (Punct c))"

fun isWord :: "token option \<Rightarrow> string \<Rightarrow> bool" where
  "isWord (Some (Name text quoted)) word = (\<not> quoted \<and> map to_upper text = word)"
| "isWord _ word = False"

fun is_name :: "token option \<Rightarrow> bool" where
  "is_name (Some (Name _ _)) = True"
| "is_name _ = False"

fun dotted_rest :: "token list \<Rightarrow> string list \<times> nat" where
  "dotted_rest (a # Name t quoted # ts) =
     (if a = Punct CHR ''.'' then (case dotted_rest ts of (segments, n) \<Rightarrow> (t # segments, n + 2)) else ([], 0))"
| "dotted_rest _ = ([], 0)"

definition dottedName :: "token list \<Rightarrow> nat \<Rightarrow> string \<times> nat" where
  "dottedName ts start =
     (case token_at ts start of
        Some (Name text _) \<Rightarrow> (case dotted_rest (drop (start + 1) ts) of
          (segments, n) \<Rightarrow> (join ''.'' (text # segments), start + 1 + n))
      | _ \<Rightarrow> ([], start + 1))"

definition import_token :: "token \<Rightarrow> bool" where
  "import_token t = (is_name (Some t) \<or> t = Punct CHR '','' \<or> t = Punct CHR ''*'')"

definition opensImportList :: "token list \<Rightarrow> nat \<Rightarrow> bool" where
  "opensImportList ts open1 =
     (let i = open1 + 1 + length (takeWhile import_token (drop (open1 + 1) ts)) in
      isPunct (token_at ts i) CHR '')'' \<and> isPunct (token_at ts (i + 1)) CHR ''{'')"

definition refuse :: "refusal \<Rightarrow> string \<Rightarrow> string option \<Rightarrow> verdict" where
  "refuse code message keyword = Refused code message keyword"

definition checkCall :: "token list \<Rightarrow> nat \<Rightarrow> verdict + nat" where
  "checkCall ts call =
     (let after = token_at ts (call + 1) in
      if isPunct after CHR ''{'' then Inr (call + 1)
      else if isPunct after CHR ''('' \<and> opensImportList ts (call + 1) then Inr (call + 1)
      else if is_name after then
        (case dottedName ts (call + 1) of (name, end1) \<Rightarrow>
           if name \<in> set ALLOWED_PROCEDURES then Inr end1
           else Inl (refuse PROCEDURE (''Procedure '' @ name @ '' is not available to raw queries. The ones that are: '' @
             join '', '' ALLOWED_PROCEDURES @ ''.'') (Some ''CALL'')))
      else Inl (refuse PROCEDURE (''CALL must be followed by a subquery in braces or by one of the procedures available to raw '' @
        ''queries. If \"call\" is a name in your graph, quote it in backticks.'') (Some ''CALL'')))"

lemma dottedName_end: "start < snd (dottedName ts start)"
  by (auto simp: dottedName_def split: option.splits token.splits prod.splits)

lemma checkCall_resume: "checkCall ts call = Inr resume \<Longrightarrow> call < resume"
  using dottedName_end [of "call + 1" ts]
  by (auto simp: checkCall_def Let_def refuse_def split: if_splits prod.splits)

definition label_allowed :: "token list \<Rightarrow> nat \<Rightarrow> bool" where
  "label_allowed ts i =
     (let prior = (if i = 0 then None else token_at ts (i - 1)) in
      isPunct prior CHR ''.'' \<or>
      (isPunct prior CHR ''{'' \<or> isPunct prior CHR '','') \<and> isPunct (token_at ts (i + 1)) CHR '':'')"

definition later_segment :: "token list \<Rightarrow> nat \<Rightarrow> bool" where
  "later_segment ts i =
     (2 \<le> i \<and> isPunct (token_at ts (i - 1)) CHR ''.'' \<and> is_name (token_at ts (i - 2)))"

definition function_refused :: "token list \<Rightarrow> nat \<Rightarrow> bool" where
  "function_refused ts i = (case dottedName ts i of (name, end1) \<Rightarrow>
     CHR ''.'' \<in> set name \<and> isPunct (token_at ts end1) CHR ''('' \<and> map to_lower name \<notin> set ALLOWED_FUNCTIONS)"

text \<open>The checks of a name that is not a listed word: \<open>None\<close> when it passes.\<close>

definition check_function :: "token list \<Rightarrow> nat \<Rightarrow> verdict option" where
  "check_function ts i =
     (if \<not> later_segment ts i \<and> function_refused ts i
      then Some (refuse FUNCTION (''Function '' @ fst (dottedName ts i) @ '' is not available to raw queries. Built-in '' @
        ''functions without a namespace are, and so are the date, time, duration, point and vector functions.'') None)
      else None)"

definition check_name :: "token list \<Rightarrow> nat \<Rightarrow> string \<Rightarrow> bool \<Rightarrow> verdict + nat" where
  "check_name ts i text quoted =
     (let word = map to_upper text in
      if isInternalLabel text \<and> \<not> label_allowed ts i
      then Inl (refuse INTERNAL_LABEL (''Labels that start with an underscore are internal and are not available to raw '' @
        ''queries. A name like that may only be used as a property (n._name) or as a map key.'') None)
      else if \<not> quoted \<and> word \<in> set WRITE_KEYWORDS
      then Inl (refuse WRITE_KEYWORD (word @ '' is not allowed: raw queries are read-only. If it is a name in your graph, '' @
        ''quote it in backticks.'') (Some word))
      else if \<not> quoted \<and> word = ''CALL'' then checkCall ts i
      else (case check_function ts i of Some v \<Rightarrow> Inl v | None \<Rightarrow> Inr (i + 1)))"

definition check_token :: "token list \<Rightarrow> nat \<Rightarrow> verdict + nat" where
  "check_token ts i =
     (if isPunct (token_at ts i) CHR '';'' then Inl (refuse UNREADABLE ''Raw queries run one statement at a time.'' None)
      else if isPunct (token_at ts i) CHR ''$'' \<and> isPunct (token_at ts (i + 1)) CHR ''(''
      then Inl (refuse INTERNAL_LABEL (''Labels and relationship types chosen when the query runs ($(...)) are not '' @
        ''available to raw queries.'') None)
      else (case token_at ts i of
          Some (Name text quoted) \<Rightarrow> check_name ts i text quoted
        | _ \<Rightarrow> Inr (i + 1)))"

lemma check_token_resume: "check_token ts i = Inr j \<Longrightarrow> i < j"
  using checkCall_resume [of ts i j]
  by (auto simp: check_token_def check_name_def Let_def split: if_splits option.splits token.splits)

function check_tokens :: "token list \<Rightarrow> nat \<Rightarrow> nat \<Rightarrow> verdict" where
  "check_tokens ts last1 i =
     (if i < last1 then (case check_token ts i of Inl v \<Rightarrow> v | Inr j \<Rightarrow> check_tokens ts last1 j) else Accepted)"
  by pat_completeness auto
termination
  by (relation "measure (\<lambda>(ts, last1, i). last1 - i)") (auto dest: check_token_resume)

declare check_tokens.simps [simp del]

definition explaining :: "token \<Rightarrow> bool" where
  "explaining t = (isWord (Some t) ''EXPLAIN'' \<or> isWord (Some t) ''PROFILE'')"

definition query_end :: "token list \<Rightarrow> nat" where
  "query_end ts = (if ts \<noteq> [] \<and> isPunct (token_at ts (length ts - 1)) CHR '';'' then length ts - 1 else length ts)"

definition checkReadOnlyCypher :: "string \<Rightarrow> verdict" where
  "checkReadOnlyCypher cypher =
     (if length cypher > MAX_QUERY_LENGTH
      then refuse TOO_LONG ''Raw queries are limited to 100,000 characters. Pass long lists as parameters.'' None
      else (case tokenize cypher of
          Inl reason \<Rightarrow> refuse UNREADABLE reason None
        | Inr (ts, inert) \<Rightarrow>
            if query_end ts = 0 then refuse EMPTY ''The query is empty.'' None
            else if isWord (token_at ts (length (takeWhile explaining ts))) ''CYPHER''
            then refuse QUERY_OPTIONS ''Query options (a leading CYPHER ...) are not available to raw queries.'' None
            else check_tokens ts (query_end ts) 0))"

end
