(* ===== verification/Cypher_Safety.thy ===== *)
theory Cypher_Safety
  imports Cypher_Guard
begin

text \<open>
  What the check of \<open>Cypher_Guard\<close> accepts, stated without its loop: every position of the token
  list is innocent by itself. And what \<open>cypherCodeText\<close> leaves of the text.
\<close>

section \<open>Innocent positions\<close>

definition call_allowed :: "token list \<Rightarrow> nat \<Rightarrow> bool" where
  "call_allowed ts i \<longleftrightarrow> isPunct (token_at ts (i + 1)) CHR ''{''
     \<or> isPunct (token_at ts (i + 1)) CHR ''('' \<and> opensImportList ts (i + 1)
     \<or> is_name (token_at ts (i + 1)) \<and> fst (dottedName ts (i + 1)) \<in> set ALLOWED_PROCEDURES"

definition after_call :: "token list \<Rightarrow> nat \<Rightarrow> bool" where
  "after_call ts i \<longleftrightarrow> 0 < i \<and> isWord (token_at ts (i - 1)) ''CALL''"

definition name_innocent :: "token list \<Rightarrow> nat \<Rightarrow> string \<Rightarrow> bool \<Rightarrow> bool" where
  "name_innocent ts i text quoted \<longleftrightarrow>
     (isInternalLabel text \<longrightarrow> label_allowed ts i) \<and>
     (\<not> quoted \<longrightarrow> map to_upper text \<notin> set WRITE_KEYWORDS) \<and>
     (\<not> quoted \<and> map to_upper text = ''CALL'' \<longrightarrow> call_allowed ts i) \<and>
     (\<not> later_segment ts i \<and> \<not> after_call ts i \<longrightarrow> \<not> function_refused ts i)"

definition innocent :: "token list \<Rightarrow> nat \<Rightarrow> bool" where
  "innocent ts i \<longleftrightarrow> \<not> isPunct (token_at ts i) CHR '';'' \<and>
     \<not> (isPunct (token_at ts i) CHR ''$'' \<and> isPunct (token_at ts (i + 1)) CHR ''('') \<and>
     (\<forall>text quoted. token_at ts i = Some (Name text quoted) \<longrightarrow> name_innocent ts i text quoted)"

definition read_only_tokens :: "token list \<Rightarrow> bool" where
  "read_only_tokens ts \<longleftrightarrow> 0 < query_end ts \<and>
     \<not> isWord (token_at ts (length (takeWhile explaining ts))) ''CYPHER'' \<and> (\<forall>i < query_end ts. innocent ts i)"

section \<open>Dotted names\<close>

lemma dotted_rest_shape:
  "dotted_rest xs = (segs, n) \<Longrightarrow> n = 2 * length segs \<and> n \<le> length xs \<and>
     (\<forall>m < length segs. xs ! (2 * m) = Punct CHR ''.'' \<and> (\<exists>quoted. xs ! (2 * m + 1) = Name (segs ! m) quoted))"
proof (induction xs arbitrary: segs n rule: dotted_rest.induct)
  case (1 a t quoted ts)
  show ?case
  proof (cases "a = Punct CHR ''.''")
    case True
    obtain segs1 n1 where r: "dotted_rest ts = (segs1, n1)" by fastforce
    have eq: "segs = t # segs1" "n = n1 + 2" using "1.prems" True r by auto
    show ?thesis using "1.IH" [OF True r] True by (auto simp: eq less_Suc_eq_0_disj nth_Cons split: nat.splits)
  next
    case False
    then show ?thesis using "1.prems" by simp
  qed
qed auto

text \<open>The tokens of a dotted name: its segments at even distances, dots between them.\<close>

lemma dottedName_shape:
  assumes "token_at ts s = Some (Name text quoted)"
  obtains segs where "dottedName ts s = (join ''.'' (text # segs), s + 1 + 2 * length segs)"
    "s + 1 + 2 * length segs \<le> length ts"
    "\<And>m. m < length segs \<Longrightarrow> token_at ts (s + 1 + 2 * m) = Some (Punct CHR ''.'')"
    "\<And>m. m \<le> length segs \<Longrightarrow> \<exists>q. token_at ts (s + 2 * m) = Some (Name ((text # segs) ! m) q)"
proof -
  obtain segs n where r: "dotted_rest (drop (s + 1) ts) = (segs, n)" by fastforce
  note shape = dotted_rest_shape [OF r]
  have s: "s < length ts" "ts ! s = Name text quoted" using assms by (auto simp: token_at_def split: if_splits)
  have len: "s + 1 + 2 * length segs \<le> length ts" using shape s(1) by auto
  have dots: "token_at ts (s + 1 + 2 * m) = Some (Punct CHR ''.'')" if "m < length segs" for m
    using shape that len by (simp add: token_at_def)
  have names: "\<exists>q. token_at ts (s + 2 * m) = Some (Name ((text # segs) ! m) q)" if "m \<le> length segs" for m
  proof (cases m)
    case 0
    then show ?thesis using assms by simp
  next
    case (Suc k)
    then have "\<exists>q. drop (s + 1) ts ! (2 * k + 1) = Name (segs ! k) q" using shape that by auto
    then show ?thesis using Suc that len by (simp add: token_at_def)
  qed
  have "dottedName ts s = (join ''.'' (text # segs), s + 1 + 2 * length segs)"
    using assms r shape by (simp add: dottedName_def)
  then show thesis using that len dots names by blast
qed

lemma split_on_join_parts: "ps \<noteq> [] \<Longrightarrow> split_on sep (join [sep] ps) = concat (map (split_on sep) ps)"
proof (induction "[sep]" ps rule: join.induct)
  case (3 x y ys)
  have "split_on sep (x @ sep # r) = split_on sep x @ split_on sep r" for r
  proof (induction x)
    case (Cons c x)
    then show ?case using split_on_nonempty [of sep x] by (auto split: list.splits)
  qed simp
  then show ?case using 3 by simp
qed auto

definition call_words :: "string list" where
  "call_words = ''CALL'' # WRITE_KEYWORDS"

text \<open>No segment of a listed procedure is a refused word, and none begins with an underscore.\<close>

lemma procedures_clean:
  "list_all (\<lambda>p. list_all (\<lambda>part. map to_upper part \<notin> set call_words) (split_on CHR ''.'' p) \<and> \<not> isInternalLabel p)
     ALLOWED_PROCEDURES"
  by code_simp

lemma words_undotted: "list_all (\<lambda>w. CHR ''.'' \<notin> set w) call_words"
  by code_simp

lemma segment_clean:
  assumes "join ''.'' segs \<in> set ALLOWED_PROCEDURES" "t \<in> set segs"
  shows "map to_upper t \<notin> set call_words"
proof (cases "CHR ''.'' \<in> set t")
  case True
  then have "to_upper CHR ''.'' \<in> set (map to_upper t)" by simp
  moreover have "to_upper CHR ''.'' = CHR ''.''" by (simp add: to_upper_def is_lower_def)
  ultimately show ?thesis using words_undotted by (auto simp: list_all_iff)
next
  case False
  have "t \<in> set (split_on CHR ''.'' (join ''.'' segs))"
  proof -
    have "t \<in> set (split_on CHR ''.'' t)" by (simp add: split_on_no_sep [OF False])
    then have "t \<in> set (concat (map (split_on CHR ''.'') segs))" using assms(2) by (simp only: set_concat set_map) blast
    moreover have "segs \<noteq> []" using assms(2) by auto
    ultimately show ?thesis by (simp add: split_on_join_parts [of segs "CHR ''.''", simplified])
  qed
  then show ?thesis using procedures_clean assms(1) unfolding list_all_iff by blast
qed

lemma first_segment_clean:
  assumes "join ''.'' (t # segs) \<in> set ALLOWED_PROCEDURES"
  shows "\<not> isInternalLabel t"
proof
  assume "isInternalLabel t"
  then have "isInternalLabel (join ''.'' (t # segs))"
    by (cases segs) (auto simp: isInternalLabel_def starts_with_iff)
  then show False using procedures_clean assms unfolding list_all_iff by blast
qed


section \<open>The loop\<close>

lemma is_nameE: "is_name t \<Longrightarrow> (\<And>text quoted. t = Some (Name text quoted) \<Longrightarrow> P) \<Longrightarrow> P"
  by (cases t rule: is_name.cases) auto

lemma call_function: "map to_upper text = ''CALL'' \<Longrightarrow> token_at ts i = Some (Name text quoted) \<Longrightarrow>
    token_at ts (i + 1) \<noteq> Some (Punct CHR ''.'') \<Longrightarrow> \<not> function_refused ts i"
proof -
  assume call: "map to_upper text = ''CALL''" and t: "token_at ts i = Some (Name text quoted)"
    and nodot: "token_at ts (i + 1) \<noteq> Some (Punct CHR ''.'')"
  obtain segs where d: "dottedName ts i = (join ''.'' (text # segs), i + 1 + 2 * length segs)"
    "\<And>m. m < length segs \<Longrightarrow> token_at ts (i + 1 + 2 * m) = Some (Punct CHR ''.'')"
    using dottedName_shape [OF t] by metis
  have "segs = []"
  proof (rule ccontr)
    assume "segs \<noteq> []"
    then show False using d(2) [of 0] nodot by simp
  qed
  moreover have "CHR ''.'' \<notin> set text"
  proof
    assume "CHR ''.'' \<in> set text"
    then have "to_upper CHR ''.'' \<in> set (map to_upper text)" by simp
    then show False by (simp add: call to_upper_def is_lower_def)
  qed
  ultimately show "\<not> function_refused ts i" using d(1) by (simp add: function_refused_def)
qed

text \<open>The positions of a listed procedure are innocent.\<close>

lemma procedure_innocent:
  assumes call: "isWord (token_at ts (s - 1)) ''CALL''" "0 < s" and "is_name (token_at ts s)"
    and ok: "fst (dottedName ts s) \<in> set ALLOWED_PROCEDURES" and k: "s \<le> k" "k < snd (dottedName ts s)"
  shows "innocent ts k \<and> \<not> isWord (token_at ts k) ''CALL''"
proof -
  obtain nm quoted where t: "token_at ts s = Some (Name nm quoted)" using assms(3) by (rule is_nameE)
  obtain segs where d: "dottedName ts s = (join ''.'' (nm # segs), s + 1 + 2 * length segs)"
    and dots: "\<And>m. m < length segs \<Longrightarrow> token_at ts (s + 1 + 2 * m) = Some (Punct CHR ''.'')"
    and names: "\<And>m. m \<le> length segs \<Longrightarrow> \<exists>q. token_at ts (s + 2 * m) = Some (Name ((nm # segs) ! m) q)"
    using dottedName_shape [OF t] by metis
  have proc: "join ''.'' (nm # segs) \<in> set ALLOWED_PROCEDURES" using ok d by simp
  show ?thesis
  proof (cases "even (k - s)")
    case False
    then obtain m where m: "k - s = 2 * m + 1" by (rule oddE)
    then have "m < length segs" "k = s + 1 + 2 * m" using k d by auto
    then show ?thesis using dots [of m] by (simp add: innocent_def isPunct_def)
  next
    case True
    then obtain m where "k - s = 2 * m" by (rule evenE)
    then have m: "m \<le> length segs" "k = s + 2 * m" using k d by auto
    define seg where "seg = (nm # segs) ! m"
    obtain q where q: "token_at ts k = Some (Name seg q)" using names [OF m(1)] m(2) seg_def by auto
    have "seg \<in> set (nm # segs)" using m(1) unfolding seg_def by (intro nth_mem) simp
    from segment_clean [OF proc this] have clean: "map to_upper seg \<notin> set WRITE_KEYWORDS" "map to_upper seg \<noteq> ''CALL''"
      by (auto simp: call_words_def)
    have "name_innocent ts k seg q"
    proof (cases m)
      case 0
      then have "\<not> isInternalLabel seg" using first_segment_clean [OF proc] by (simp add: seg_def)
      moreover have "after_call ts k" using 0 m call by (simp add: after_call_def)
      ultimately show ?thesis using clean by (simp add: name_innocent_def)
    next
      case (Suc l)
      then have "token_at ts (k - 1) = Some (Punct CHR ''.'')" using dots [of l] m by simp
      moreover have "is_name (token_at ts (k - 2))" using names [of l] Suc m by auto
      moreover have "2 \<le> k" using Suc m by simp
      ultimately have "later_segment ts k" "label_allowed ts k"
        by (auto simp: later_segment_def label_allowed_def isPunct_def)
      then show ?thesis using clean by (simp add: name_innocent_def)
    qed
    then show ?thesis using q clean by (simp add: innocent_def isPunct_def)
  qed
qed

text \<open>Where the loop stands: never on the name after a \<open>CALL\<close>.\<close>

definition loop_at :: "token list \<Rightarrow> nat \<Rightarrow> bool" where
  "loop_at ts i \<longleftrightarrow> (after_call ts i \<longrightarrow> \<not> is_name (token_at ts i))"

lemma check_token_Inl:
  assumes "check_token ts i = Inl v" "loop_at ts i"
  shows "v \<noteq> Accepted \<and> \<not> innocent ts i"
proof (cases "token_at ts i")
  case None
  then show ?thesis using assms by (simp add: check_token_def isPunct_def)
next
  case (Some t)
  show ?thesis
  proof (cases t)
    case (Name nm quoted)
    then have name: "check_name ts i nm quoted = Inl v" "is_name (token_at ts i)"
      using assms(1) Some by (simp_all add: check_token_def isPunct_def)
    have "v \<noteq> Accepted \<and> \<not> name_innocent ts i nm quoted"
      using name assms(2)
      by (auto simp: check_name_def name_innocent_def checkCall_def call_allowed_def check_function_def loop_at_def
        refuse_def Let_def split: if_splits option.splits prod.splits)
    then show ?thesis using Some Name by (simp add: innocent_def)
  next
    case (Punct c)
    then show ?thesis using assms(1) Some
      by (auto simp: check_token_def innocent_def isPunct_def refuse_def split: if_splits)
  next
    case Value_Token
    then show ?thesis using assms(1) Some by (simp add: check_token_def isPunct_def)
  qed
qed

text \<open>A step forward covers innocent positions only, and stands well again.\<close>

lemma isWord_name: "isWord t w \<Longrightarrow> is_name t"
  by (cases t rule: is_name.cases) auto

lemma checkCall_cases:
  assumes "checkCall ts i = Inr j"
  obtains (sub) "j = i + 1" "isPunct (token_at ts (i + 1)) CHR ''{'' \<or>
      isPunct (token_at ts (i + 1)) CHR ''('' \<and> opensImportList ts (i + 1)"
  | (proc) "is_name (token_at ts (i + 1))" "fst (dottedName ts (i + 1)) \<in> set ALLOWED_PROCEDURES"
      "j = snd (dottedName ts (i + 1))"
proof -
  obtain name end1 where d: "dottedName ts (i + 1) = (name, end1)" by fastforce
  show thesis
  proof (cases "isPunct (token_at ts (i + 1)) CHR ''{'' \<or> isPunct (token_at ts (i + 1)) CHR ''('' \<and> opensImportList ts (i + 1)")
    case True
    then have "j = i + 1" using assms by (auto simp: checkCall_def Let_def split: if_splits)
    then show ?thesis using True by (rule sub)
  next
    case False
    then have "is_name (token_at ts (i + 1))" "name \<in> set ALLOWED_PROCEDURES" "j = end1"
      using assms d by (auto simp: checkCall_def Let_def split: if_splits)
    then show ?thesis using d by (intro proc) simp_all
  qed
qed

lemma check_call_step:
  assumes "checkCall ts i = Inr j" "token_at ts i = Some (Name nm False)" "map to_upper nm = ''CALL''"
  shows "call_allowed ts i \<and> (\<forall>k. i < k \<and> k < j \<longrightarrow> innocent ts k) \<and> loop_at ts j \<and> \<not> function_refused ts i"
  using assms(1)
proof (cases rule: checkCall_cases)
  case sub
  then have punct: "\<exists>c. token_at ts (i + 1) = Some (Punct c) \<and> c \<noteq> CHR ''.''" by (auto simp: isPunct_def)
  then have "loop_at ts j" using sub(1) by (auto simp: loop_at_def)
  moreover have "\<not> function_refused ts i" using punct by (intro call_function [OF assms(3,2)]) auto
  moreover have "call_allowed ts i" using sub(2) unfolding call_allowed_def by blast
  moreover have "\<forall>k. i < k \<and> k < j \<longrightarrow> innocent ts k" using sub(1) by auto
  ultimately show ?thesis by blast
next
  case proc
  have word: "isWord (token_at ts i) ''CALL''" using assms(3) by (simp only: assms(2) isWord.simps) simp
  have inner: "innocent ts k \<and> \<not> isWord (token_at ts k) ''CALL''" if "i < k" "k < j" for k
    using procedure_innocent [of ts "i + 1" k] word proc that by simp
  have "i + 1 < j" using dottedName_end [of "i + 1" ts] proc(3) by simp
  then have "loop_at ts j" using inner [of "j - 1"] by (simp add: loop_at_def after_call_def)
  moreover have "\<not> function_refused ts i" using proc(1) by (intro call_function [OF assms(3,2)]) auto
  moreover have "call_allowed ts i" using proc(1,2) unfolding call_allowed_def by blast
  ultimately show ?thesis using inner by blast
qed

lemma check_token_Inr:
  assumes "check_token ts i = Inr j"
  shows "innocent ts i" "\<forall>k. i < k \<and> k < j \<longrightarrow> innocent ts k" "loop_at ts j"
proof -
  have "innocent ts i \<and> (\<forall>k. i < k \<and> k < j \<longrightarrow> innocent ts k) \<and> loop_at ts j"
  proof (cases "is_name (token_at ts i)")
    case False
    have "j = i + 1" "innocent ts i"
      using assms False by (auto simp: check_token_def innocent_def split: if_splits option.splits token.splits)
    moreover have "\<not> isWord (token_at ts i) ''CALL''" using False isWord_name by blast
    ultimately show ?thesis by (auto simp: loop_at_def after_call_def)
  next
    case True
    then obtain nm quoted where t: "token_at ts i = Some (Name nm quoted)" by (rule is_nameE)
    have name: "check_name ts i nm quoted = Inr j"
      using assms t by (auto simp: check_token_def isPunct_def)
    have label: "isInternalLabel nm \<longrightarrow> label_allowed ts i" and word: "\<not> quoted \<longrightarrow> map to_upper nm \<notin> set WRITE_KEYWORDS"
      using name by (auto simp: check_name_def Let_def split: if_splits)
    show ?thesis
    proof (cases "\<not> quoted \<and> map to_upper nm = ''CALL''")
      case True
      then have "checkCall ts i = Inr j" using name label word by (auto simp: check_name_def Let_def split: if_splits)
      moreover have "token_at ts i = Some (Name nm False)" "map to_upper nm = ''CALL''" using True t by auto
      ultimately have call: "call_allowed ts i \<and> (\<forall>k. i < k \<and> k < j \<longrightarrow> innocent ts k) \<and> loop_at ts j \<and> \<not> function_refused ts i"
        by (rule check_call_step)
      then have "innocent ts i"
        using label word t by (simp add: innocent_def name_innocent_def isPunct_def)
      then show ?thesis using call by blast
    next
      case False
      then have "check_function ts i = None" "j = i + 1"
        using name label word by (auto simp: check_name_def Let_def split: if_splits option.splits)
      then have "\<not> later_segment ts i \<longrightarrow> \<not> function_refused ts i" "\<not> isWord (token_at ts i) ''CALL''"
        using False t by (auto simp: check_function_def split: if_splits)
      then show ?thesis using \<open>j = i + 1\<close> t label word False
        by (auto simp: innocent_def name_innocent_def isPunct_def loop_at_def after_call_def)
    qed
  qed
  then show "innocent ts i" "\<forall>k. i < k \<and> k < j \<longrightarrow> innocent ts k" "loop_at ts j" by auto
qed

lemma check_tokens_exact:
  "loop_at ts i \<Longrightarrow> check_tokens ts e i = Accepted \<longleftrightarrow> (\<forall>k. i \<le> k \<and> k < e \<longrightarrow> innocent ts k)"
proof (induction ts e i rule: check_tokens.induct)
  case (1 ts e i)
  show ?case
  proof (cases "i < e")
    case True
    show ?thesis
    proof (cases "check_token ts i")
      case (Inl v)
      have "v \<noteq> Accepted" "\<not> innocent ts i" using check_token_Inl [OF Inl "1.prems"] by auto
      then show ?thesis using True Inl by (subst check_tokens.simps) auto
    next
      case (Inr j)
      note step = check_token_Inr [OF Inr]
      have "check_tokens ts e i = check_tokens ts e j" using True Inr by (subst check_tokens.simps) simp
      also have "\<dots> = Accepted \<longleftrightarrow> (\<forall>k. j \<le> k \<and> k < e \<longrightarrow> innocent ts k)"
        by (rule "1.IH" [OF True Inr step(3)])
      also have "\<dots> \<longleftrightarrow> (\<forall>k. i \<le> k \<and> k < e \<longrightarrow> innocent ts k)"
      proof (intro iffI allI impI)
        fix k assume rest: "\<forall>k. j \<le> k \<and> k < e \<longrightarrow> innocent ts k" and k: "i \<le> k \<and> k < e"
        show "innocent ts k"
          using k rest step(1,2) by (cases "k = i"; cases "k < j") auto
      qed (use check_token_resume [OF Inr] in auto)
      finally show ?thesis .
    qed
  qed (subst check_tokens.simps, auto)
qed


section \<open>The text without strings and comments\<close>

definition quote_char :: "char \<Rightarrow> bool" where
  "quote_char c \<longleftrightarrow> c = CHR 0x27 \<or> c = CHR 0x22 \<or> c = CHR 0x60"

definition spanned :: "(nat \<times> nat) list \<Rightarrow> nat \<Rightarrow> bool" where
  "spanned inert i \<longleftrightarrow> (\<exists>(a, b) \<in> set inert. a \<le> i \<and> i < b)"

lemma run_length_le: "run_length p s \<le> length s"
  by (simp add: run_length_def length_takeWhile_le)

lemma take_run_length: "take (run_length p s) s = takeWhile p s"
  by (metis append_eq_conv_conj run_length_def takeWhile_dropWhile_id)

lemma quotedName_le: "quotedName s = Some (name, n) \<Longrightarrow> n \<le> length s"
proof (induction s arbitrary: name n rule: quotedName.induct)
  case (2 c cs)
  then show ?case by (cases cs) (auto split: if_splits)
qed simp

lemma string_end_le: "string_end q s = Some n \<Longrightarrow> n \<le> length s"
proof (induction q s arbitrary: n rule: string_end.induct)
  case (2 q c cs)
  then show ?case by (cases cs) (auto split: if_splits)
qed simp

lemma comment_end_le: "comment_end s = Some n \<Longrightarrow> n \<le> length s"
  by (induction s arbitrary: n rule: comment_end.induct) (auto split: if_splits)

text \<open>A turn that leaves an inert span stays in the text, and the span in the turn.\<close>

lemma read_one_span: "read_one prior s = Inr (t, n, Some k) \<Longrightarrow> k \<le> n \<and> n \<le> length s \<and> (k = 0 \<or> k = 1 \<and> s ! 0 = CHR ''$'')"
proof (cases s)
  case (Cons c cs)
  assume "read_one prior s = Inr (t, n, Some k)"
  then show ?thesis
    using Cons run_length_le [of line_char s] string_end_le [of c cs] quotedName_le [of cs] quotedName_le [of "drop 1 cs"]
      comment_end_le [of "drop 2 s"]
    by (cases cs) (auto simp: read_one_def Let_def char_at_def split: if_splits option.splits prod.splits)
qed (simp add: read_one_def)

lemma spans_inside:
  "read_all i prior s = Inr (ts, inert) \<Longrightarrow> (a, b) \<in> set inert \<Longrightarrow> i \<le> a \<and> a \<le> b \<and> b \<le> i + length s"
proof (induction i prior s arbitrary: ts inert rule: read_all.induct)
  case (1 i prior s)
  have "s \<noteq> []" using "1.prems" by (auto simp: read_all.simps)
  obtain t n sp where one: "read_one prior s = Inr (t, n, sp)"
    using "1.prems"(1) \<open>s \<noteq> []\<close> by (subst (asm) read_all.simps) (auto split: sum.splits prod.splits)
  obtain ts1 inert1 where rest: "read_all (i + n) (char_at s (n - 1)) (drop n s) = Inr (ts1, inert1)"
    and inert: "inert = (case sp of None \<Rightarrow> inert1 | Some k \<Rightarrow> (i + k, i + n) # inert1)"
    using "1.prems"(1) \<open>s \<noteq> []\<close> one by (subst (asm) read_all.simps) (auto split: sum.splits prod.splits)
  show ?case
  proof (cases "(a, b) \<in> set inert1")
    case True
    then have "drop n s \<noteq> []" using rest by (auto simp: read_all.simps)
    then show ?thesis using "1.IH" [OF \<open>s \<noteq> []\<close> one refl refl rest True] by auto
  next
    case False
    then obtain k where "sp = Some k" "a = i + k" "b = i + n"
      using "1.prems"(2) inert by (auto split: option.splits)
    then show ?thesis using read_one_span [of prior s t n k] one by auto
  qed
qed

lemma blank_span_length: "a \<le> b \<Longrightarrow> b \<le> length code \<Longrightarrow> length (blank_span code (a, b)) = length code"
  by (simp add: blank_span_def)

lemma blank_span_nth:
  "a \<le> b \<Longrightarrow> b \<le> length code \<Longrightarrow> i < length code \<Longrightarrow>
     blank_span code (a, b) ! i = (if a \<le> i \<and> i < b then CHR '' '' else code ! i)"
  by (auto simp: blank_span_def nth_append)

lemma blank_spans:
  "\<forall>(a, b) \<in> set inert. a \<le> b \<and> b \<le> length code \<Longrightarrow> length (foldl blank_span code inert) = length code \<and>
     (\<forall>i < length code. foldl blank_span code inert ! i = (if spanned inert i then CHR '' '' else code ! i))"
proof (induction inert arbitrary: code)
  case (Cons sp inert)
  obtain a b where sp: "sp = (a, b)" by fastforce
  have ab: "a \<le> b" "b \<le> length code" using Cons.prems sp by auto
  have len: "length (blank_span code sp) = length code" using blank_span_length [OF ab] sp by simp
  have "\<forall>(a, b) \<in> set inert. a \<le> b \<and> b \<le> length (blank_span code sp)" using Cons.prems len by auto
  from Cons.IH [OF this] show ?case
    using len blank_span_nth [OF ab] by (auto simp: sp spanned_def)
qed (simp add: spanned_def)

text \<open>A turn that leaves no span reads no quote.\<close>

definition plain_upto :: "string \<Rightarrow> nat \<Rightarrow> bool" where
  "plain_upto s n \<longleftrightarrow> (\<forall>j < n. j < length s \<longrightarrow> \<not> quote_char (s ! j))"

lemma plain_0 [simp]: "plain_upto s 0"
  by (simp add: plain_upto_def)

lemma plain_Suc: "plain_upto s n \<Longrightarrow> (n < length s \<Longrightarrow> \<not> quote_char (s ! n)) \<Longrightarrow> plain_upto s (Suc n)"
  by (auto simp: plain_upto_def less_Suc_eq)

lemma run_length_nth: "j < run_length p s \<Longrightarrow> p (s ! j)"
  unfolding run_length_def by (metis nth_mem set_takeWhileD takeWhile_nth)

lemma plain_run:
  assumes "plain_upto s n" "n \<le> length s" "\<And>c. p c \<Longrightarrow> \<not> quote_char c"
  shows "plain_upto s (n + run_length p (drop n s))"
  unfolding plain_upto_def
proof (intro allI impI)
  fix j assume j: "j < n + run_length p (drop n s)" "j < length s"
  show "\<not> quote_char (s ! j)"
  proof (cases "j < n")
    case False
    then have "p (drop n s ! (j - n))" using j False by (intro run_length_nth [of "j - n" p "drop n s"]) simp
    then show ?thesis using assms(2,3) False by simp
  qed (use assms(1) j in \<open>simp add: plain_upto_def\<close>)
qed

lemma plain_classes:
  "is_digit c \<Longrightarrow> \<not> quote_char c" "is_hex c \<Longrightarrow> \<not> quote_char c" "is_octal c \<Longrightarrow> \<not> quote_char c"
  "isNamePart c \<Longrightarrow> \<not> quote_char c" "isNameStart c \<Longrightarrow> \<not> quote_char c"
  by (auto simp: quote_char_def is_digit_def is_hex_def is_octal_def isNamePart_def isNameStart_def is_lower_def is_upper_def to_lower_def)

lemma char_at_Some: "char_at s i = Some c \<longleftrightarrow> i < length s \<and> s ! i = c"
  by (auto simp: char_at_def)

lemma quote_lower: "quote_char c \<Longrightarrow> to_lower c = c \<and> c \<noteq> CHR ''x'' \<and> c \<noteq> CHR ''o''"
  by (auto simp: quote_char_def to_lower_def is_upper_def)

lemma plain_number: "char_is is_digit (char_at s 0) \<Longrightarrow> plain_upto s (endOfNumber s)"
proof -
  assume start: "char_is is_digit (char_at s 0)"
  note digits = plain_run [where p = is_digit, OF _ _ plain_classes(1)]
  have prefix2: "plain_upto s 2 \<and> 2 \<le> length s" if lead: "map_option to_lower (char_at s 1) = Some r" "r \<in> {CHR ''x'', CHR ''o''}"
      "char_at s 0 = Some CHR ''0''" for r
  proof -
    obtain c where c: "1 < length s" "s ! 1 = c" "to_lower c = r" using lead(1) by (auto simp: char_at_Some)
    then have "\<not> quote_char c" using quote_lower [of c] lead(2) by auto
    moreover have "\<not> quote_char (s ! 0)" using lead(3) by (simp add: char_at_Some quote_char_def)
    ultimately show ?thesis using c by (auto simp: plain_upto_def less_2_cases_iff)
  qed
  define i where "i = run_length is_digit s"
  have i: "plain_upto s i" "i \<le> length s" using digits [of s 0] run_length_le [of is_digit s] by (auto simp: i_def)
  define j where "j = (if char_at s i = Some CHR ''.'' \<and> char_is is_digit (char_at s (i + 1))
      then i + 1 + run_length is_digit (drop (i + 1) s) else i)"
  have j: "plain_upto s j \<and> j \<le> length s"
  proof (cases "char_at s i = Some CHR ''.'' \<and> char_is is_digit (char_at s (i + 1))")
    case True
    then have "plain_upto s (i + 1)" "i + 1 \<le> length s"
      using plain_Suc [OF i(1)] by (auto simp: char_at_Some quote_char_def)
    then show ?thesis using digits [of s "i + 1"] run_length_le [of is_digit "drop (i + 1) s"] True by (simp add: j_def)
  qed (use i in \<open>auto simp: j_def\<close>)
  define g where "g = (if char_at s (j + 1) = Some CHR ''+'' \<or> char_at s (j + 1) = Some CHR ''-'' then 1 else 0 :: nat)"
  have e: "plain_upto s (j + 1 + g + run_length is_digit (drop (j + 1 + g) s))"
    if "char_at s j = Some CHR ''e'' \<or> char_at s j = Some CHR ''E''"
  proof -
    have "plain_upto s (j + 1)" "j + 1 \<le> length s"
      using that plain_Suc [of s j] j by (auto simp: char_at_Some quote_char_def)
    then have "plain_upto s (j + 1 + g) \<and> j + 1 + g \<le> length s"
      using plain_Suc [of s "j + 1"] by (auto simp: g_def char_at_Some quote_char_def)
    then show ?thesis using digits by blast
  qed
  have "endOfNumber s =
      (let radix = (if char_at s 0 = Some CHR ''0'' then map_option to_lower (char_at s 1) else None) in
       if radix = Some CHR ''x'' then 2 + run_length is_hex (drop 2 s)
       else if radix = Some CHR ''o'' then 2 + run_length is_octal (drop 2 s)
       else if char_at s j = Some CHR ''e'' \<or> char_at s j = Some CHR ''E''
       then if char_is is_digit (char_at s (j + 1 + g)) then j + 1 + g + run_length is_digit (drop (j + 1 + g) s) else j
       else j)"
    unfolding endOfNumber_def Let_def i_def [symmetric] j_def [symmetric] g_def [symmetric] ..
  then show ?thesis
    using prefix2 j e plain_run [of s 2 is_hex, OF _ _ plain_classes(2)] plain_run [of s 2 is_octal, OF _ _ plain_classes(3)]
    by (auto simp: Let_def split: if_splits)
qed

lemma plain_Cons: "\<not> quote_char c \<Longrightarrow> (\<And>d. p d \<Longrightarrow> \<not> quote_char d) \<Longrightarrow> plain_upto (c # cs) (Suc (run_length p cs))"
  using run_length_nth [of _ p cs] by (auto simp: plain_upto_def nth_Cons split: nat.splits)

lemma plain_1: "\<not> quote_char c \<Longrightarrow> plain_upto (c # cs) (Suc 0)"
  by (simp add: plain_upto_def)

lemma read_one_plain:
  assumes "read_one prior (c # cs) = Inr (t, n, None)"
  shows "plain_upto (c # cs) n"
proof -
  have dollar: "\<not> quote_char CHR ''$''" by (simp add: quote_char_def)
  show ?thesis
    using assms plain_1 [of c cs] plain_Cons [where p = is_digit and cs = cs, OF dollar plain_classes(1)]
      plain_Cons [where p = isNamePart and cs = cs, OF dollar plain_classes(4)]
      plain_Cons [where p = isNamePart and cs = cs and c = c, OF _ plain_classes(4)] plain_classes(5) [of c] plain_number [of "c # cs"]
    by (auto simp: read_one_def Let_def char_at_def char_is_def blank_char_def quote_char_def
        split: if_splits option.splits prod.splits)
qed

lemma unspanned_plain:
  "read_all i prior s = Inr (ts, inert) \<Longrightarrow> j < length s \<Longrightarrow> \<not> spanned inert (i + j) \<Longrightarrow> \<not> quote_char (s ! j)"
proof (induction i prior s arbitrary: ts inert j rule: read_all.induct)
  case (1 i prior s)
  have "s \<noteq> []" using "1.prems" by auto
  then obtain c cs where s: "s = c # cs" by (cases s) auto
  obtain t n sp where one: "read_one prior s = Inr (t, n, sp)"
    using "1.prems"(1) \<open>s \<noteq> []\<close> by (subst (asm) read_all.simps) (auto split: sum.splits prod.splits)
  obtain ts1 inert1 where rest: "read_all (i + n) (char_at s (n - 1)) (drop n s) = Inr (ts1, inert1)"
    and inert: "inert = (case sp of None \<Rightarrow> inert1 | Some k \<Rightarrow> (i + k, i + n) # inert1)"
    using "1.prems"(1) \<open>s \<noteq> []\<close> one by (subst (asm) read_all.simps) (auto split: sum.splits prod.splits)
  show ?case
  proof (cases "j < n")
    case False
    have "\<not> spanned inert1 (i + n + (j - n))"
      using "1.prems"(3) False inert by (auto simp: spanned_def split: option.splits)
    then have "\<not> quote_char (drop n s ! (j - n))"
      using "1.IH" [OF \<open>s \<noteq> []\<close> one refl refl rest, of "j - n"] "1.prems"(2) False by simp
    then show ?thesis using False "1.prems"(2) by simp
  next
    case j: True
    show ?thesis
    proof (cases sp)
      case None
      then show ?thesis using read_one_plain [of prior c cs t n] one s j "1.prems"(2) by (simp add: plain_upto_def)
    next
      case (Some k)
      then have "\<not> k \<le> j" using "1.prems"(3) j inert by (auto simp: spanned_def)
      then have "j = 0" "s ! 0 = CHR ''$''" using read_one_span [of prior s t n k] one Some by auto
      then show ?thesis by (simp add: quote_char_def)
    qed
  qed
qed

section \<open>Properties\<close>

text \<open>
  C7: What the check accepts, exactly: a text of bounded length that the reader can split into
  tokens, with no leading \<open>CYPHER\<close> block, whose tokens are innocent at every position up to an
  optional final semicolon. Innocent means: no second statement, no label computed at run
  time; a bare word is no write keyword, and a bare \<open>CALL\<close> opens a subquery or names a listed
  procedure; a name that starts with an underscore is a property or a map key; and a dotted
  name before a parenthesis, unless it is the procedure of a \<open>CALL\<close>, is a listed function.
  The loop's jumps over procedure names let nothing else through and refuse nothing more.
\<close>

theorem accepted_exactly:
  "checkReadOnlyCypher cypher = Accepted \<longleftrightarrow> length cypher \<le> MAX_QUERY_LENGTH \<and>
     (\<exists>ts inert. tokenize cypher = Inr (ts, inert) \<and> 0 < query_end ts \<and>
        \<not> isWord (token_at ts (length (takeWhile explaining ts))) ''CYPHER'' \<and> (\<forall>i < query_end ts. innocent ts i))"
proof -
  have "loop_at ts 0" for ts by (simp add: loop_at_def after_call_def)
  then have "check_tokens ts e 0 = Accepted \<longleftrightarrow> (\<forall>i < e. innocent ts i)" for ts e
    by (simp add: check_tokens_exact)
  then show ?thesis
    by (auto simp: checkReadOnlyCypher_def refuse_def split: sum.splits prod.splits)
qed

lemma accepted_exactly_witness:
  "checkReadOnlyCypher ''CALL db.labels()'' = Accepted \<and>
     (\<exists>ts inert. tokenize ''CALL db.labels()'' = Inr (ts, inert) \<and> innocent ts 0 \<and> innocent ts 3)"
proof -
  let ?ts = "[Name ''CALL'' False, Name ''db'' False, Punct CHR ''.'', Name ''labels'' False, Punct CHR ''('', Punct CHR '')'']"
  have read: "tokenize ''CALL db.labels()'' = Inr (?ts, []) \<and> query_end ?ts = 6 \<and>
      \<not> isWord (token_at ?ts (length (takeWhile explaining ?ts))) ''CYPHER'' \<and> check_tokens ?ts 6 0 = Accepted"
    by code_simp
  then have "checkReadOnlyCypher ''CALL db.labels()'' = Accepted"
    by (simp add: checkReadOnlyCypher_def MAX_QUERY_LENGTH_def)
  moreover from this read have "\<forall>i < 6. innocent ?ts i"
    unfolding accepted_exactly by auto
  ultimately show ?thesis using read by simp
qed

text \<open>
  The text without strings, comments and quoted names has the length of the query, every
  character at its place or blanked, and no quote of any kind is left in it, so that a pattern
  found in it was not inside a string. It exists exactly when the check does not call the
  query too long and can read it.
\<close>

theorem code_text_blanked:
  assumes "cypherCodeText cypher = Some code"
  shows "length code = length cypher \<and> (\<forall>i < length cypher. code ! i = cypher ! i \<or> code ! i = CHR '' '') \<and>
    (\<forall>c \<in> set code. c \<noteq> CHR 0x27 \<and> c \<noteq> CHR 0x22 \<and> c \<noteq> CHR 0x60)"
proof -
  obtain ts inert where read: "read_all 0 None cypher = Inr (ts, inert)" and code: "code = foldl blank_span cypher inert"
    using assms by (auto simp: cypherCodeText_def tokenize_def split: if_splits sum.splits prod.splits)
  have "\<forall>(a, b) \<in> set inert. a \<le> b \<and> b \<le> length cypher"
    using spans_inside [OF read] by fastforce
  from blank_spans [OF this] have blanked: "length code = length cypher"
      "\<And>i. i < length cypher \<Longrightarrow> code ! i = (if spanned inert i then CHR '' '' else cypher ! i)"
    by (auto simp: code)
  have "\<not> quote_char c" if "c \<in> set code" for c
  proof -
    obtain i where i: "i < length cypher" "c = code ! i" using \<open>c \<in> set code\<close> blanked(1) by (auto simp: in_set_conv_nth)
    show ?thesis
      using unspanned_plain [OF read i(1)] blanked(2) [OF i(1)] i(2) by (simp add: quote_char_def)
  qed
  then show ?thesis using blanked by (auto simp: quote_char_def)
qed

lemma code_text_blanked_witness:
  "cypherCodeText ''RETURN /* a */ '' = Some ''RETURN         '' \<and> length ''RETURN         '' = length ''RETURN /* a */ ''"
proof -
  have "tokenize ''RETURN /* a */ '' = Inr ([Name ''RETURN'' False], [(7, 14)]) \<and>
      foldl blank_span ''RETURN /* a */ '' [(7, 14)] = ''RETURN         ''" by code_simp
  then have "cypherCodeText ''RETURN /* a */ '' = Some ''RETURN         ''"
    by (simp add: cypherCodeText_def MAX_QUERY_LENGTH_def)
  from code_text_blanked [OF this] this show ?thesis by blast
qed

end
