(* ===== verification/Knowledge_Store.thy ===== *)
theory Knowledge_Store
  imports Rows Clock
begin

text \<open>
  The store of the knowledge layer (\<open>packages/knowledge/src/store.ts\<close> with
  \<open>db/migrations/0002_knowledge.sql\<close> and the data of \<open>connector-sdk/src/knowledge/types.ts\<close>):
  containers an admin selects, their documents, the indexed chunks, the people they refer to
  and a key/value table. Every operation is one statement or one transaction that locks the
  rows it decides on, here one function of the store; \<open>now\<close> is the transaction's clock in
  milliseconds. \<open>randomUUID\<close> gives ids that were never used: they are drawn from a counter.
  Timestamps of the source are kept as the text they arrive in. The database sorts names by a
  collation of its own, a parameter.
\<close>

section \<open>Data of the connectors\<close>

datatype container_kind = Kind_Channel | Kind_Space | Kind_Project | Kind_Repository
datatype document_kind = Slack_Thread | Slack_Channel_Day | Confluence_Page | Jira_Issue
  | Github_Pull_Request | Github_Issue | Github_Doc
datatype container_visibility = Vis_Open | Vis_Restricted | Vis_Unknown
datatype document_state = Doc_Open | Doc_Closed | Doc_Merged | Doc_Resolved | Doc_Archived
datatype principal_kind = Kind_User | Kind_Bot | Kind_Group | Kind_External
datatype run_kind = Poll | Reconcile

record source_acl =
  acl_open :: bool
  acl_principals :: "string list"
  acl_capturedAt :: string

record source_container =
  sc_externalId :: string
  sc_kind :: container_kind
  sc_name :: string
  sc_url :: "string option"
  sc_visibility :: container_visibility
  sc_archived :: bool
  sc_acl :: "source_acl option"

record selected_container = source_container +
  sc_checkpoint :: "string option"

record source_principal =
  sp_externalId :: string
  sp_kind :: principal_kind
  sp_displayName :: string
  sp_email :: "string option"
  sp_login :: "string option"
  sp_active :: bool

record document_segment =
  seg_key :: string
  seg_headingPath :: "string list option"
  seg_authorExternalId :: "string option"
  seg_authorName :: "string option"
  seg_at :: "string option"
  seg_url :: "string option"
  seg_text :: string

record document_input =
  di_externalId :: string
  di_kind :: document_kind
  di_title :: string
  di_url :: string
  di_segments :: "document_segment list"
  di_sourceVersion :: string
  di_sourceCreatedAt :: string
  di_sourceUpdatedAt :: string
  di_author :: "string option"
  di_participants :: "string list"
  di_state :: "document_state option"
  di_attributes :: jsval
  di_restricted :: bool
  di_acl :: "source_acl option"

record change_batch =
  cb_documents :: "document_input list"
  cb_deleted :: "string list"
  cb_checkpoint :: "string option"
  cb_principals :: "source_principal list option"
  cb_notes :: "string list option"

record prune_options =
  po_listedAt :: "int option"
  po_kinds :: "document_kind list option"

section \<open>Rows\<close>

datatype index_status = Idx_Pending | Idx_Indexing | Idx_Indexed | Idx_Failed | Idx_Skipped

record container_row =
  kc_id :: nat
  kc_connector :: string
  kc_externalId :: string
  kc_kind :: container_kind
  kc_name :: string
  kc_url :: "string option"
  kc_visibility :: container_visibility
  kc_archived :: bool
  kc_acl :: "source_acl option"
  kc_selected :: bool
  kc_selectedBy :: "string option"
  kc_selectedAt :: "int option"
  kc_acknowledgedBy :: "string option"
  kc_mapped :: "string list"
  kc_checkpoint :: "string option"
  kc_lastPolledAt :: "int option"
  kc_lastReconciledAt :: "int option"
  kc_goneAt :: "int option"
  kc_purgeAt :: "int option"
  kc_updatedAt :: int

record document_row =
  kd_id :: nat
  kd_connector :: string
  kd_container :: nat
  kd_externalId :: string
  kd_kind :: document_kind
  kd_title :: string
  kd_url :: string
  kd_segments :: "document_segment list"
  kd_contentHash :: "string option"
  kd_sourceVersion :: string
  kd_sourceCreatedAt :: string
  kd_sourceUpdatedAt :: string
  kd_author :: "nat option"
  kd_participants :: "nat list"
  kd_state :: "document_state option"
  kd_attributes :: jsval
  kd_restricted :: bool
  kd_acl :: "source_acl option"
  kd_redactions :: nat
  kd_status :: index_status
  kd_claimedAt :: "int option"
  kd_attempts :: nat
  kd_error :: "string option"
  kd_indexedHash :: "string option"
  kd_indexVersion :: "nat option"
  kd_deletedAt :: "int option"
  kd_updatedAt :: int

record stored_chunk_input =
  ch_seq :: nat
  ch_segmentKeys :: "string list"
  ch_url :: "string option"
  ch_occurredAt :: "string option"
  ch_prefix :: string
  ch_text :: string
  ch_textHash :: string
  ch_tokens :: nat
  ch_embedding :: string
  ch_model :: string

record chunk_row = stored_chunk_input +
  ch_document :: nat

record principal_row =
  kp_id :: nat
  kp_connector :: string
  kp_externalId :: string
  kp_kind :: principal_kind
  kp_displayName :: string
  kp_email :: "string option"
  kp_login :: "string option"
  kp_active :: bool

record knowledge_store =
  containers :: "container_row list"
  documents :: "document_row list"
  chunks :: "chunk_row list"
  principals :: "principal_row list"
  kstate :: "string \<rightharpoonup> jsval"
  next_id :: nat

definition empty_knowledge :: knowledge_store where
  "empty_knowledge = \<lparr>containers = [], documents = [], chunks = [], principals = [], kstate = Map.empty, next_id = 0\<rparr>"

datatype knowledge_error = CONTAINER_CHANGED string | DUPLICATE_CHUNK

definition CLAIM_STALE_MS :: int where "CLAIM_STALE_MS = 600000"
definition MAX_INDEX_ATTEMPTS :: nat where "MAX_INDEX_ATTEMPTS = 5"

section \<open>Deletions and what goes with a row\<close>

definition delete_documents :: "(document_row \<Rightarrow> bool) \<Rightarrow> knowledge_store \<Rightarrow> knowledge_store" where
  "delete_documents p s =
     (let ids = map kd_id (filter p (documents s)) in
      s\<lparr>documents := filter (\<lambda>d. \<not> p d) (documents s), chunks := filter (\<lambda>c. ch_document c \<notin> set ids) (chunks s)\<rparr>)"

definition delete_containers :: "(container_row \<Rightarrow> bool) \<Rightarrow> knowledge_store \<Rightarrow> knowledge_store" where
  "delete_containers p s =
     (let ids = map kc_id (filter p (containers s)) in
      (delete_documents (\<lambda>d. kd_container d \<in> set ids) s)\<lparr>containers := filter (\<lambda>c. \<not> p c) (containers s)\<rparr>)"

definition delete_principals :: "(principal_row \<Rightarrow> bool) \<Rightarrow> knowledge_store \<Rightarrow> knowledge_store" where
  "delete_principals p s =
     (let ids = map kp_id (filter p (principals s)) in
      s\<lparr>principals := filter (\<lambda>q. \<not> p q) (principals s),
        documents := update_where (\<lambda>d. \<exists>a \<in> set ids. kd_author d = Some a) (\<lambda>d. d\<lparr>kd_author := None\<rparr>) (documents s)\<rparr>)"

definition delete_chunks_of :: "nat list \<Rightarrow> knowledge_store \<Rightarrow> knowledge_store" where
  "delete_chunks_of ids s = s\<lparr>chunks := filter (\<lambda>c. ch_document c \<notin> set ids) (chunks s)\<rparr>"

section \<open>Containers\<close>

definition this_container :: "string \<Rightarrow> string \<Rightarrow> container_row \<Rightarrow> bool" where
  "this_container connector ext c = (kc_connector c = connector \<and> kc_externalId c = ext)"

definition new_container :: "nat \<Rightarrow> string \<Rightarrow> source_container \<Rightarrow> int \<Rightarrow> container_row" where
  "new_container i connector c now = \<lparr>kc_id = i, kc_connector = connector, kc_externalId = sc_externalId c, kc_kind = sc_kind c,
     kc_name = sc_name c, kc_url = sc_url c, kc_visibility = sc_visibility c, kc_archived = sc_archived c, kc_acl = sc_acl c,
     kc_selected = False, kc_selectedBy = None, kc_selectedAt = None, kc_acknowledgedBy = None, kc_mapped = [],
     kc_checkpoint = None, kc_lastPolledAt = None, kc_lastReconciledAt = None, kc_goneAt = None, kc_purgeAt = None,
     kc_updatedAt = now\<rparr>"

definition relisted :: "source_container \<Rightarrow> int \<Rightarrow> container_row \<Rightarrow> container_row" where
  "relisted c now r = r\<lparr>kc_kind := sc_kind c, kc_name := sc_name c, kc_url := sc_url c, kc_visibility := sc_visibility c,
     kc_archived := sc_archived c, kc_acl := (case sc_acl c of Some a \<Rightarrow> Some a | None \<Rightarrow> kc_acl r),
     kc_goneAt := (if kc_purgeAt r \<noteq> None then kc_goneAt r else None), kc_updatedAt := now\<rparr>"

definition upsertContainerRow :: "string \<Rightarrow> int \<Rightarrow> source_container \<Rightarrow> knowledge_store \<Rightarrow> knowledge_store" where
  "upsertContainerRow connector now c s =
     (if find_first (this_container connector (sc_externalId c)) (containers s) = None
      then s\<lparr>containers := containers s @ [new_container (next_id s) connector c now], next_id := next_id s + 1\<rparr>
      else s\<lparr>containers := update_where (this_container connector (sc_externalId c)) (relisted c now) (containers s)\<rparr>)"

definition upsertContainer :: "string \<Rightarrow> source_container \<Rightarrow> int \<Rightarrow> knowledge_store \<Rightarrow> knowledge_store" where
  "upsertContainer connector c now s = upsertContainerRow connector now c s"

definition upsertContainers :: "string \<Rightarrow> source_container list \<Rightarrow> int \<Rightarrow> knowledge_store \<Rightarrow> knowledge_store" where
  "upsertContainers connector cs now s =
     (let s1 = fold (upsertContainerRow connector now) cs s in
      s1\<lparr>containers := update_where
        (\<lambda>c. kc_connector c = connector \<and> kc_goneAt c = None \<and> kc_externalId c \<notin> sc_externalId ` set cs)
        (\<lambda>c. c\<lparr>kc_goneAt := Some now, kc_updatedAt := now\<rparr>) (containers s1)\<rparr>)"

type_synonym collation = "string \<Rightarrow> string \<Rightarrow> rat"

definition listContainers :: "collation \<Rightarrow> string \<Rightarrow> knowledge_store \<Rightarrow> container_row list" where
  "listContainers coll connector s =
     js_sort (\<lambda>a b. coll (kc_name a) (kc_name b)) (filter (\<lambda>c. kc_connector c = connector) (containers s))"

definition toSelected :: "container_row \<Rightarrow> selected_container" where
  "toSelected r = \<lparr>sc_externalId = kc_externalId r, sc_kind = kc_kind r, sc_name = kc_name r, sc_url = kc_url r,
     sc_visibility = kc_visibility r, sc_archived = kc_archived r, sc_acl = kc_acl r, sc_checkpoint = kc_checkpoint r\<rparr>"

definition visited_at :: "run_kind \<Rightarrow> container_row \<Rightarrow> int option" where
  "visited_at mode c = (case mode of Reconcile \<Rightarrow> kc_lastReconciledAt c | Poll \<Rightarrow> kc_lastPolledAt c)"

text \<open>\<open>ASC NULLS FIRST\<close>.\<close>

definition stamp_compare :: "int option \<Rightarrow> int option \<Rightarrow> rat" where
  "stamp_compare a b = (case (a, b) of (None, None) \<Rightarrow> 0 | (None, Some _) \<Rightarrow> -1 | (Some _, None) \<Rightarrow> 1
     | (Some x, Some y) \<Rightarrow> of_int (x - y))"

definition fetchable :: "string \<Rightarrow> container_row \<Rightarrow> bool" where
  "fetchable connector c = (kc_connector c = connector \<and> kc_selected c \<and> kc_goneAt c = None \<and> kc_purgeAt c = None \<and>
     (kc_visibility c = Vis_Open \<or> kc_acknowledgedBy c \<noteq> None))"

definition selectedContainers :: "collation \<Rightarrow> string \<Rightarrow> run_kind \<Rightarrow> knowledge_store \<Rightarrow> selected_container list" where
  "selectedContainers coll connector mode s = map toSelected
     (js_sort (\<lambda>a b. let k = stamp_compare (visited_at mode a) (visited_at mode b) in
        if k \<noteq> 0 then k else coll (kc_name a) (kc_name b)) (filter (fetchable connector) (containers s)))"

definition visit :: "run_kind \<Rightarrow> int \<Rightarrow> container_row \<Rightarrow> container_row" where
  "visit mode now c = (case mode of Reconcile \<Rightarrow> c\<lparr>kc_lastReconciledAt := Some now, kc_updatedAt := now\<rparr>
     | Poll \<Rightarrow> c\<lparr>kc_lastPolledAt := Some now, kc_updatedAt := now\<rparr>)"

definition markVisited :: "string \<Rightarrow> selected_container \<Rightarrow> run_kind \<Rightarrow> int \<Rightarrow> knowledge_store \<Rightarrow> knowledge_store" where
  "markVisited connector c mode now s =
     s\<lparr>containers := update_where (this_container connector (sc_externalId c)) (visit mode now) (containers s)\<rparr>"

definition setSelected :: "string \<Rightarrow> string \<Rightarrow> bool \<Rightarrow> string \<Rightarrow> int \<Rightarrow> knowledge_store \<Rightarrow> knowledge_store" where
  "setSelected connector ext selected by now s =
     s\<lparr>containers := update_where (this_container connector ext)
        (\<lambda>c. c\<lparr>kc_selected := selected, kc_selectedBy := Some by, kc_selectedAt := Some now, kc_updatedAt := now\<rparr>) (containers s)\<rparr>"

section \<open>The picker\<close>

fun has_substring :: "string \<Rightarrow> string \<Rightarrow> bool" where
  "has_substring p [] = (p = [])"
| "has_substring p (c # cs) = (starts_with (c # cs) p \<or> has_substring p cs)"

record container_summary =
  su_row :: container_row
  su_acknowledgedBy :: "string option"
  su_documents :: nat
  su_indexed :: nat
  su_pending :: nat
  su_failed :: nat
  su_restricted :: nat

definition count_where :: "(document_row \<Rightarrow> bool) \<Rightarrow> nat \<Rightarrow> knowledge_store \<Rightarrow> nat" where
  "count_where p i s = length (filter (\<lambda>d. kd_container d = i \<and> kd_deletedAt d = None \<and> p d) (documents s))"

definition holds_documents :: "knowledge_store \<Rightarrow> container_row \<Rightarrow> bool" where
  "holds_documents s c = list_ex (\<lambda>d. kd_container d = kc_id c) (documents s)"

definition summary_of :: "knowledge_store \<Rightarrow> container_row \<Rightarrow> container_summary" where
  "summary_of s c = \<lparr>su_row = c, su_acknowledgedBy = kc_acknowledgedBy c,
     su_documents = count_where (\<lambda>d. \<not> kd_restricted d) (kc_id c) s,
     su_indexed = count_where (\<lambda>d. kd_status d = Idx_Indexed) (kc_id c) s,
     su_pending = count_where (\<lambda>d. kd_status d = Idx_Pending \<or> kd_status d = Idx_Indexing) (kc_id c) s,
     su_failed = count_where (\<lambda>d. kd_status d = Idx_Failed) (kc_id c) s,
     su_restricted = count_where kd_restricted (kc_id c) s\<rparr>"

definition matches_search :: "string option \<Rightarrow> string \<Rightarrow> bool" where
  "matches_search search name = (case search of None \<Rightarrow> True
     | Some q \<Rightarrow> js_trim q = [] \<or> has_substring (map to_lower (js_trim q)) (map to_lower name))"

definition containersWithCounts :: "collation \<Rightarrow> string \<Rightarrow> string option \<Rightarrow> knowledge_store \<Rightarrow> container_summary list" where
  "containersWithCounts coll connector search s = map (summary_of s)
     (js_sort (\<lambda>a b. coll (kc_name a) (kc_name b)) (filter (\<lambda>c. kc_connector c = connector \<and>
        (kc_goneAt c = None \<or> kc_selected c \<or> holds_documents s c) \<and> matches_search search (kc_name c)) (containers s)))"

definition getContainer :: "string \<Rightarrow> nat \<Rightarrow> knowledge_store \<Rightarrow> container_row option" where
  "getContainer connector i s = find_first (\<lambda>c. kc_connector c = connector \<and> kc_id c = i) (containers s)"

record select_input =
  si_selected :: bool
  si_by :: string
  si_acknowledged :: bool

definition select_row :: "select_input \<Rightarrow> int \<Rightarrow> container_row \<Rightarrow> container_row" where
  "select_row inp now c = c\<lparr>kc_selected := si_selected inp, kc_selectedBy := Some (si_by inp), kc_selectedAt := Some now,
     kc_acknowledgedBy := (if si_selected inp \<and> si_acknowledged inp \<and> kc_visibility c \<noteq> Vis_Open then Some (si_by inp)
       else if si_selected inp then kc_acknowledgedBy c else None),
     kc_purgeAt := (if si_selected inp then None else Some now), kc_updatedAt := now\<rparr>"

definition selectable :: "string \<Rightarrow> nat \<Rightarrow> select_input \<Rightarrow> container_row \<Rightarrow> bool" where
  "selectable connector i inp c = (kc_connector c = connector \<and> kc_id c = i \<and> (\<not> si_selected inp \<or> kc_goneAt c = None))"

definition selectContainer :: "string \<Rightarrow> nat \<Rightarrow> select_input \<Rightarrow> int \<Rightarrow> knowledge_store \<Rightarrow> bool \<times> knowledge_store" where
  "selectContainer connector i inp now s =
     (find_first (selectable connector i inp) (containers s) \<noteq> None,
      s\<lparr>containers := update_where (selectable connector i inp) (select_row inp now) (containers s)\<rparr>)"

section \<open>The life of a connector id\<close>

definition nothing_refers_to :: "string \<Rightarrow> knowledge_store \<Rightarrow> bool" where
  "nothing_refers_to connector s =
     (\<not> list_ex (\<lambda>c. kc_connector c = connector \<and> (kc_selected c \<or> kc_purgeAt c \<noteq> None \<or> holds_documents s c)) (containers s))"

definition lifeKey :: "string \<Rightarrow> string" where
  "lifeKey connector = ''connector-life:'' @ connector"

definition clearable :: "string \<Rightarrow> container_row \<Rightarrow> bool" where
  "clearable connector c = (kc_connector c = connector \<and> (kc_selected c \<or> kc_purgeAt c = None \<or> kc_goneAt c = None))"

definition clear_row :: "string \<Rightarrow> int \<Rightarrow> container_row \<Rightarrow> container_row" where
  "clear_row by now c = c\<lparr>kc_selected := False, kc_selectedBy := Some by, kc_selectedAt := Some now,
     kc_acknowledgedBy := None, kc_purgeAt := Some now,
     kc_goneAt := (case kc_goneAt c of Some t \<Rightarrow> Some t | None \<Rightarrow> Some now), kc_updatedAt := now\<rparr>"

definition clearConnector :: "string \<Rightarrow> string \<Rightarrow> int \<Rightarrow> knowledge_store \<Rightarrow> nat \<times> knowledge_store" where
  "clearConnector connector by now s =
     (let empty1 = (\<lambda>c. kc_connector c = connector \<and> \<not> holds_documents s c);
          s1 = delete_containers empty1 s;
          s2 = s1\<lparr>containers := update_where (clearable connector) (clear_row by now) (containers s1)\<rparr>;
          unused = (\<lambda>q. kp_connector q = connector \<and> nothing_refers_to connector s2);
          s3 = delete_principals unused s2
      in (length (filter empty1 (containers s)) + length (filter (clearable connector) (containers s1))
            + length (filter unused (principals s2)),
          s3\<lparr>kstate := (kstate s3)(lifeKey connector := None)\<rparr>))"

definition deselectConnector :: "string \<Rightarrow> string \<Rightarrow> int \<Rightarrow> knowledge_store \<Rightarrow> nat \<times> knowledge_store" where
  "deselectConnector connector by now s = clearConnector connector by now s"

text \<open>\<open>Date.parse(a) > Date.parse(b)\<close>: false when one of them is \<open>NaN\<close>.\<close>

definition born_later :: "string \<Rightarrow> string \<Rightarrow> bool" where
  "born_later a b = (case (date_parse a, date_parse b) of (Some x, Some y) \<Rightarrow> x > y | _ \<Rightarrow> False)"

definition beginConnectorLife :: "string \<Rightarrow> string \<Rightarrow> string \<Rightarrow> int \<Rightarrow> knowledge_store \<Rightarrow> nat option \<times> knowledge_store" where
  "beginConnectorLife connector bornAt by now s =
     (let recorded = kstate s (lifeKey connector) in
      if recorded = Some (JStr bornAt) then (None, s)
      else if (case recorded of Some (JStr r) \<Rightarrow> born_later r bornAt | _ \<Rightarrow> False) then (None, s)
      else (case clearConnector connector by now s of (cleared, s1) \<Rightarrow>
        (Some cleared, s1\<lparr>kstate := (kstate s1)(lifeKey connector \<mapsto> JStr bornAt)\<rparr>)))"

definition hasSelection :: "string \<Rightarrow> knowledge_store \<Rightarrow> bool" where
  "hasSelection connector s = list_ex (\<lambda>c. kc_connector c = connector \<and> kc_selected c) (containers s)"

section \<open>Purges\<close>

definition purgeable :: "container_row \<Rightarrow> bool" where
  "purgeable c = (kc_purgeAt c \<noteq> None \<and> \<not> kc_selected c)"

definition purge_order :: "container_row \<Rightarrow> container_row \<Rightarrow> rat" where
  "purge_order a b = stamp_compare (kc_purgeAt a) (kc_purgeAt b)"

definition purged_row :: "int \<Rightarrow> container_row \<Rightarrow> container_row" where
  "purged_row now c = c\<lparr>kc_purgeAt := None, kc_checkpoint := None, kc_lastPolledAt := None, kc_lastReconciledAt := None,
     kc_updatedAt := now\<rparr>"

definition purgeBatch :: "nat \<Rightarrow> int \<Rightarrow> knowledge_store \<Rightarrow> (nat \<times> nat) \<times> knowledge_store" where
  "purgeBatch limit now s =
     (let rows = take limit (js_sort purge_order (filter purgeable (containers s)));
          ids = map kc_id rows;
          doomed = (\<lambda>d. kd_container d \<in> set ids);
          s1 = delete_documents doomed s;
          s2 = s1\<lparr>containers := update_where (\<lambda>c. kc_id c \<in> set ids) (purged_row now) (containers s1)\<rparr>;
          s3 = delete_containers (\<lambda>c. kc_id c \<in> set ids \<and> kc_goneAt c \<noteq> None \<and> \<not> kc_selected c) s2
      in if rows = [] then ((0, 0), s)
         else ((length rows, length (filter doomed (documents s))),
           delete_principals (\<lambda>q. kp_connector q \<in> kc_connector ` set rows \<and> nothing_refers_to (kp_connector q) s3) s3))"

definition purgeRequested :: "nat \<Rightarrow> int \<Rightarrow> knowledge_store \<Rightarrow> nat \<times> knowledge_store" where
  "purgeRequested limit now s = (case purgeBatch limit now s of ((_, n), s') \<Rightarrow> (n, s'))"

section \<open>Principals\<close>

definition this_principal :: "string \<Rightarrow> string \<Rightarrow> principal_row \<Rightarrow> bool" where
  "this_principal connector ext p = (kp_connector p = connector \<and> kp_externalId p = ext)"

definition upsertPrincipalRow :: "string \<Rightarrow> source_principal \<Rightarrow> knowledge_store \<Rightarrow> knowledge_store" where
  "upsertPrincipalRow connector p s =
     (if find_first (this_principal connector (sp_externalId p)) (principals s) = None
      then s\<lparr>principals := principals s @ [\<lparr>kp_id = next_id s, kp_connector = connector, kp_externalId = sp_externalId p,
             kp_kind = sp_kind p, kp_displayName = sp_displayName p, kp_email = sp_email p, kp_login = sp_login p,
             kp_active = sp_active p\<rparr>], next_id := next_id s + 1\<rparr>
      else s\<lparr>principals := update_where (this_principal connector (sp_externalId p))
             (\<lambda>r. r\<lparr>kp_kind := sp_kind p, kp_displayName := sp_displayName p,
                kp_email := (case sp_email p of Some e \<Rightarrow> Some e | None \<Rightarrow> kp_email r),
                kp_login := (case sp_login p of Some l \<Rightarrow> Some l | None \<Rightarrow> kp_login r), kp_active := sp_active p\<rparr>) (principals s)\<rparr>)"

definition upsertPrincipals :: "string \<Rightarrow> source_principal list \<Rightarrow> knowledge_store \<Rightarrow> knowledge_store" where
  "upsertPrincipals connector ps s = fold (upsertPrincipalRow connector) ps s"

definition sweepUnusedPrincipals :: "knowledge_store \<Rightarrow> nat \<times> knowledge_store" where
  "sweepUnusedPrincipals s =
     (let unused = (\<lambda>q. nothing_refers_to (kp_connector q) s) in
      (length (filter unused (principals s)), delete_principals unused s))"

text \<open>The ids of people by their ids at the source.\<close>

definition principalIds :: "string \<Rightarrow> knowledge_store \<Rightarrow> string list \<Rightarrow> string \<rightharpoonup> nat" where
  "principalIds connector s exts ext =
     (if ext \<in> set exts then map_option kp_id (find_first (this_principal connector ext) (principals s)) else None)"

section \<open>Documents: the sink side\<close>

definition this_document :: "string \<Rightarrow> string \<Rightarrow> document_row \<Rightarrow> bool" where
  "this_document connector ext d = (kd_connector d = connector \<and> kd_externalId d = ext)"

text \<open>The fingerprint of a content; \<open>sha256\<close> is the hash function.\<close>

definition opt_text :: "string option \<Rightarrow> jsval" where
  "opt_text v = (case v of Some x \<Rightarrow> JStr x | None \<Rightarrow> JNull)"

definition segment_content :: "document_segment \<Rightarrow> jsval" where
  "segment_content g = JObj [(''key'', JStr (seg_key g)),
     (''headingPath'', case seg_headingPath g of Some path \<Rightarrow> JArr (map JStr path) | None \<Rightarrow> JNull),
     (''authorExternalId'', opt_text (seg_authorExternalId g)), (''at'', opt_text (seg_at g)),
     (''url'', opt_text (seg_url g)), (''text'', JStr (seg_text g))]"

definition contentHashOf :: "(string \<Rightarrow> string) \<Rightarrow> string \<Rightarrow> document_segment list \<Rightarrow> string" where
  "contentHashOf sha256 title segments =
     sha256 (the (stringify (JObj [(''title'', JStr title), (''segments'', JArr (map segment_content segments))])))"

definition input_hash :: "(string \<Rightarrow> string) \<Rightarrow> document_input \<Rightarrow> string option" where
  "input_hash sha256 d = (if di_restricted d then None else Some (contentHashOf sha256 (di_title d) (di_segments d)))"

record document_columns =
  dc_author :: "nat option"
  dc_participants :: "nat list"
  dc_redactions :: nat

definition new_document ::
    "(string \<Rightarrow> string) \<Rightarrow> nat \<Rightarrow> string \<Rightarrow> nat \<Rightarrow> document_input \<Rightarrow> document_columns \<Rightarrow> int \<Rightarrow> document_row" where
  "new_document sha256 i connector container d cols now = \<lparr>kd_id = i, kd_connector = connector, kd_container = container,
     kd_externalId = di_externalId d, kd_kind = di_kind d, kd_title = di_title d, kd_url = di_url d,
     kd_segments = (if di_restricted d then [] else di_segments d), kd_contentHash = input_hash sha256 d,
     kd_sourceVersion = di_sourceVersion d, kd_sourceCreatedAt = di_sourceCreatedAt d, kd_sourceUpdatedAt = di_sourceUpdatedAt d,
     kd_author = dc_author cols, kd_participants = dc_participants cols, kd_state = di_state d,
     kd_attributes = di_attributes d, kd_restricted = di_restricted d, kd_acl = di_acl d, kd_redactions = dc_redactions cols,
     kd_status = (if di_restricted d then Idx_Skipped else Idx_Pending), kd_claimedAt = None, kd_attempts = 0,
     kd_error = None, kd_indexedHash = None, kd_indexVersion = None, kd_deletedAt = None, kd_updatedAt = now\<rparr>"

definition moves :: "(string \<Rightarrow> string) \<Rightarrow> document_input \<Rightarrow> document_row \<Rightarrow> bool" where
  "moves sha256 d r = (kd_deletedAt r \<noteq> None \<or> input_hash sha256 d \<noteq> kd_contentHash r)"

definition updated_document ::
    "(string \<Rightarrow> string) \<Rightarrow> nat \<Rightarrow> document_input \<Rightarrow> document_columns \<Rightarrow> int \<Rightarrow> document_row \<Rightarrow> document_row" where
  "updated_document sha256 container d cols now r = r\<lparr>kd_container := container, kd_kind := di_kind d, kd_title := di_title d,
     kd_url := di_url d, kd_segments := (if di_restricted d then [] else di_segments d), kd_contentHash := input_hash sha256 d,
     kd_sourceVersion := di_sourceVersion d, kd_sourceCreatedAt := di_sourceCreatedAt d, kd_sourceUpdatedAt := di_sourceUpdatedAt d,
     kd_author := dc_author cols, kd_participants := dc_participants cols, kd_state := di_state d,
     kd_attributes := di_attributes d, kd_restricted := di_restricted d,
     kd_acl := (case di_acl d of Some a \<Rightarrow> Some a | None \<Rightarrow> kd_acl r), kd_redactions := dc_redactions cols,
     kd_indexedHash := (if di_restricted d then None else kd_indexedHash r),
     kd_indexVersion := (if di_restricted d then None else kd_indexVersion r),
     kd_status := (if di_restricted d then Idx_Skipped else if moves sha256 d r then Idx_Pending else kd_status r),
     kd_claimedAt := (if di_restricted d \<or> moves sha256 d r then None else kd_claimedAt r),
     kd_attempts := (if input_hash sha256 d \<noteq> kd_contentHash r then 0 else kd_attempts r),
     kd_deletedAt := None, kd_updatedAt := now\<rparr>"

definition upsertDocument ::
    "(string \<Rightarrow> string) \<Rightarrow> string \<Rightarrow> nat \<Rightarrow> (document_input \<Rightarrow> document_columns) \<Rightarrow> int \<Rightarrow> document_input \<Rightarrow> knowledge_store \<Rightarrow> knowledge_store" where
  "upsertDocument sha256 connector container cols now d s =
     (let this = this_document connector (di_externalId d);
          s1 = (if find_first this (documents s) = None
            then s\<lparr>documents := documents s @ [new_document sha256 (next_id s) connector container d (cols d) now], next_id := next_id s + 1\<rparr>
            else s\<lparr>documents := update_where this (updated_document sha256 container d (cols d) now) (documents s)\<rparr>)
      in if di_restricted d then delete_chunks_of (map kd_id (filter this (documents s1))) s1 else s1)"

definition tombstone_row :: "int \<Rightarrow> document_row \<Rightarrow> document_row" where
  "tombstone_row now d = d\<lparr>kd_deletedAt := Some now, kd_segments := [], kd_title := [], kd_attributes := JObj [],
     kd_participants := [], kd_author := None, kd_contentHash := None, kd_indexedHash := None, kd_indexVersion := None,
     kd_status := Idx_Skipped, kd_claimedAt := None, kd_updatedAt := now\<rparr>"

definition tombstone :: "string \<Rightarrow> string list \<Rightarrow> int \<Rightarrow> knowledge_store \<Rightarrow> nat \<times> knowledge_store" where
  "tombstone connector exts now s =
     (let p = (\<lambda>d. kd_connector d = connector \<and> kd_externalId d \<in> set exts \<and> kd_deletedAt d = None);
          ids = map kd_id (filter p (documents s)) in
      (length ids, delete_chunks_of ids (s\<lparr>documents := update_where p (tombstone_row now) (documents s)\<rparr>)))"

definition referred_principals :: "change_batch \<Rightarrow> string list" where
  "referred_principals batch = concat (map (\<lambda>d.
     (case di_author d of Some a \<Rightarrow> if a = [] then [] else [a] | None \<Rightarrow> []) @ di_participants d) (cb_documents batch))"

definition columns_of :: "(string \<rightharpoonup> nat) \<Rightarrow> (string \<rightharpoonup> nat) \<Rightarrow> document_input \<Rightarrow> document_columns" where
  "columns_of ids redactions d = \<lparr>
     dc_author = (case di_author d of Some a \<Rightarrow> if a = [] then None else ids a | None \<Rightarrow> None),
     dc_participants = List.map_filter ids (di_participants d),
     dc_redactions = (case redactions (di_externalId d) of Some n \<Rightarrow> n | None \<Rightarrow> 0)\<rparr>"

definition changed_count :: "(string \<Rightarrow> string) \<Rightarrow> string \<Rightarrow> change_batch \<Rightarrow> knowledge_store \<Rightarrow> nat" where
  "changed_count sha256 connector batch s = length (filter (\<lambda>d. \<not> di_restricted d \<and>
     (case find_first (this_document connector (di_externalId d)) (documents s) of
        None \<Rightarrow> True | Some r \<Rightarrow> kd_contentHash r \<noteq> input_hash sha256 d)) (cb_documents batch))"

text \<open>The part of a batch that comes after it was accepted.\<close>

definition accept_batch ::
    "(string \<Rightarrow> string) \<Rightarrow> string \<Rightarrow> container_row \<Rightarrow> change_batch \<Rightarrow> (string \<rightharpoonup> nat) \<Rightarrow> int \<Rightarrow> knowledge_store \<Rightarrow> (nat \<times> nat) \<times> knowledge_store" where
  "accept_batch sha256 connector found batch redactions now s =
     (let s1 = (case cb_principals batch of Some ps \<Rightarrow> fold (upsertPrincipalRow connector) ps s | None \<Rightarrow> s);
          ids = principalIds connector s1 (referred_principals batch);
          s2 = fold (upsertDocument sha256 connector (kc_id found) (columns_of ids redactions) now) (cb_documents batch) s1;
          (deleted, s3) = tombstone connector (cb_deleted batch) now s2
      in ((changed_count sha256 connector batch s1, deleted),
          s3\<lparr>containers := update_where (this_container connector (kc_externalId found))
            (\<lambda>c. c\<lparr>kc_checkpoint := (case cb_checkpoint batch of Some k \<Rightarrow> Some k | None \<Rightarrow> kc_checkpoint c),
               kc_lastPolledAt := (if cb_checkpoint batch \<noteq> None then Some now else kc_lastPolledAt c),
               kc_updatedAt := now\<rparr>) (containers s3)\<rparr>))"

definition storeBatch ::
    "(string \<Rightarrow> string) \<Rightarrow> string \<Rightarrow> selected_container \<Rightarrow> change_batch \<Rightarrow> (string \<rightharpoonup> nat) \<Rightarrow> int \<Rightarrow> knowledge_store
      \<Rightarrow> (knowledge_error + nat \<times> nat) \<times> knowledge_store" where
  "storeBatch sha256 connector container batch redactions now s =
     (case find_first (this_container connector (sc_externalId container)) (containers s) of
        None \<Rightarrow> (Inl (CONTAINER_CHANGED (''container '' @ sc_externalId container @ '' is not known to connector '' @ connector @ '' any more'')), s)
      | Some found \<Rightarrow>
          if \<not> kc_selected found
          then (Inl (CONTAINER_CHANGED (''container '' @ sc_externalId container @ '' is not selected any more'')), s)
          else if kc_checkpoint found \<noteq> sc_checkpoint container
          then (Inl (CONTAINER_CHANGED (''container '' @ sc_externalId container @ '' was reset since this run read it'')), s)
          else (case accept_batch sha256 connector found batch redactions now s of (r, s') \<Rightarrow> (Inr r, s')))"

section \<open>Pruning\<close>

definition emptyKey :: "string \<Rightarrow> string \<Rightarrow> string" where
  "emptyKey connector ext = ''empty-listing:'' @ connector @ '':'' @ ext"

definition missing_from :: "string \<Rightarrow> string \<Rightarrow> string list \<Rightarrow> prune_options \<Rightarrow> knowledge_store \<Rightarrow> document_row \<Rightarrow> bool" where
  "missing_from connector ext presentIds opts s d = (kd_connector d = connector \<and>
     list_ex (\<lambda>c. kc_id c = kd_container d \<and> kc_externalId c = ext) (containers s) \<and> kd_deletedAt d = None \<and>
     kd_externalId d \<notin> set presentIds \<and>
     (case po_listedAt opts of None \<Rightarrow> True | Some t \<Rightarrow> kd_updatedAt d < t) \<and>
     (case po_kinds opts of None \<Rightarrow> True | Some ks \<Rightarrow> kd_kind d \<in> set ks))"

definition pruneMissing ::
    "string \<Rightarrow> selected_container \<Rightarrow> string list \<Rightarrow> prune_options \<Rightarrow> int \<Rightarrow> knowledge_store \<Rightarrow> nat \<times> knowledge_store" where
  "pruneMissing connector container presentIds opts now s =
     (let ext = sc_externalId container;
          rows = filter (missing_from connector ext presentIds opts s) (documents s);
          key = emptyKey connector ext in
      if presentIds = [] \<and> rows \<noteq> [] \<and> kstate s key = None
      then (0, s\<lparr>kstate := (kstate s)(key \<mapsto> JStr (toISOString now))\<rparr>)
      else (case tombstone connector (map kd_externalId rows) now (s\<lparr>kstate := (kstate s)(key := None)\<rparr>) of
        (deleted, s1) \<Rightarrow> (deleted, s1\<lparr>containers := update_where (this_container connector ext)
          (\<lambda>c. c\<lparr>kc_lastReconciledAt := Some now, kc_updatedAt := now\<rparr>) (containers s1)\<rparr>)))"

section \<open>Documents: the worker side\<close>

definition claimable_document :: "int \<Rightarrow> int \<Rightarrow> document_row \<Rightarrow> bool" where
  "claimable_document staleAfterMs now d = (kd_deletedAt d = None \<and>
     (kd_status d = Idx_Pending
      \<or> kd_status d = Idx_Indexing \<and> (case kd_claimedAt d of Some t \<Rightarrow> t < now - staleAfterMs | None \<Rightarrow> False)
      \<or> kd_status d = Idx_Failed \<and> kd_attempts d < MAX_INDEX_ATTEMPTS \<and>
        (case kd_claimedAt d of Some t \<Rightarrow> t < now - 4 ^ kd_attempts d * 60000 | None \<Rightarrow> False)))"

definition claim_row :: "int \<Rightarrow> document_row \<Rightarrow> document_row" where
  "claim_row now d = d\<lparr>kd_status := Idx_Indexing, kd_claimedAt := Some now\<rparr>"

definition claimPending :: "nat \<Rightarrow> int \<Rightarrow> int \<Rightarrow> knowledge_store \<Rightarrow> document_row list \<times> knowledge_store" where
  "claimPending limit staleAfterMs now s =
     (let ids = map kd_id (take limit (js_sort (\<lambda>a b. of_int (kd_updatedAt a - kd_updatedAt b))
                  (filter (claimable_document staleAfterMs now) (documents s))));
          p = (\<lambda>d. kd_id d \<in> set ids) in
      (returning p (claim_row now) (documents s), s\<lparr>documents := update_where p (claim_row now) (documents s)\<rparr>))"

definition getDocument :: "nat \<Rightarrow> knowledge_store \<Rightarrow> document_row option" where
  "getDocument i s = find_first (\<lambda>d. kd_id d = i) (documents s)"

text \<open>\<open>new Map(rows)\<close>: a later row wins.\<close>

definition existingChunkEmbeddings :: "nat \<Rightarrow> string \<Rightarrow> knowledge_store \<Rightarrow> string \<rightharpoonup> string" where
  "existingChunkEmbeddings i model s = fold (\<lambda>c m. m(ch_textHash c \<mapsto> ch_embedding c))
     (filter (\<lambda>c. ch_document c = i \<and> ch_model c = model) (chunks s)) Map.empty"

definition still_the_claim :: "nat \<Rightarrow> string \<Rightarrow> document_row \<Rightarrow> bool" where
  "still_the_claim i contentHash d = (kd_id d = i \<and> kd_status d = Idx_Indexing \<and> kd_contentHash d = Some contentHash \<and>
     kd_deletedAt d = None \<and> \<not> kd_restricted d)"

definition indexed_row :: "string \<Rightarrow> nat \<Rightarrow> int \<Rightarrow> document_row \<Rightarrow> document_row" where
  "indexed_row indexedHash indexVersion now d = d\<lparr>kd_status := Idx_Indexed, kd_indexedHash := Some indexedHash,
     kd_indexVersion := Some indexVersion, kd_attempts := 0, kd_error := None, kd_claimedAt := None, kd_updatedAt := now\<rparr>"

definition chunk_of :: "nat \<Rightarrow> stored_chunk_input \<Rightarrow> chunk_row" where
  "chunk_of i c = stored_chunk_input.extend c \<lparr>ch_document = i\<rparr>"

text \<open>Two chunks of a document with one sequence number break a constraint: the transaction is undone.\<close>

definition replaceChunks ::
    "nat \<Rightarrow> stored_chunk_input list \<Rightarrow> string \<Rightarrow> nat \<Rightarrow> int \<Rightarrow> knowledge_store \<Rightarrow> (knowledge_error + bool) \<times> knowledge_store" where
  "replaceChunks i cs indexedHash indexVersion now s =
     (if find_first (still_the_claim i indexedHash) (documents s) = None then (Inr False, s)
      else if \<not> distinct (map ch_seq cs) then (Inl DUPLICATE_CHUNK, s)
      else (let s1 = delete_chunks_of [i] s in (Inr True,
        s1\<lparr>chunks := chunks s1 @ map (chunk_of i) cs,
           documents := update_where (\<lambda>d. kd_id d = i) (indexed_row indexedHash indexVersion now) (documents s1)\<rparr>)))"

definition in_progress :: "nat \<Rightarrow> document_row \<Rightarrow> bool" where
  "in_progress i d = (kd_id d = i \<and> kd_status d = Idx_Indexing)"

definition markUnchanged :: "nat \<Rightarrow> nat \<Rightarrow> int \<Rightarrow> knowledge_store \<Rightarrow> knowledge_store" where
  "markUnchanged i indexVersion now s = s\<lparr>documents := update_where (in_progress i)
     (\<lambda>d. d\<lparr>kd_status := Idx_Indexed, kd_indexVersion := Some indexVersion, kd_claimedAt := None, kd_updatedAt := now\<rparr>) (documents s)\<rparr>"

definition markSkipped :: "nat \<Rightarrow> int \<Rightarrow> knowledge_store \<Rightarrow> knowledge_store" where
  "markSkipped i now s =
     (let s1 = s\<lparr>documents := update_where (in_progress i) (\<lambda>d. d\<lparr>kd_status := Idx_Skipped, kd_claimedAt := None,
            kd_indexedHash := None, kd_indexVersion := None, kd_updatedAt := now\<rparr>) (documents s)\<rparr> in
      if find_first (in_progress i) (documents s) = None then s1 else delete_chunks_of [i] s1)"

definition keepClaim :: "nat \<Rightarrow> string \<Rightarrow> int \<Rightarrow> knowledge_store \<Rightarrow> bool \<times> knowledge_store" where
  "keepClaim i contentHash now s = (find_first (still_the_claim i contentHash) (documents s) \<noteq> None,
     s\<lparr>documents := update_where (still_the_claim i contentHash) (\<lambda>d. d\<lparr>kd_claimedAt := Some now\<rparr>) (documents s)\<rparr>)"

definition releaseClaim :: "nat \<Rightarrow> knowledge_store \<Rightarrow> knowledge_store" where
  "releaseClaim i s = s\<lparr>documents := update_where (in_progress i) (\<lambda>d. d\<lparr>kd_status := Idx_Pending\<rparr>) (documents s)\<rparr>"

definition markFailed :: "nat \<Rightarrow> string \<Rightarrow> int \<Rightarrow> knowledge_store \<Rightarrow> knowledge_store" where
  "markFailed i error now s = s\<lparr>documents := update_where (in_progress i) (\<lambda>d. d\<lparr>kd_status := Idx_Failed,
     kd_attempts := kd_attempts d + 1, kd_error := Some (take 2000 error), kd_claimedAt := Some now, kd_updatedAt := now\<rparr>) (documents s)\<rparr>"

definition countsByIndexStatus :: "knowledge_store \<Rightarrow> index_status \<rightharpoonup> nat" where
  "countsByIndexStatus s st =
     (let n = length (filter (\<lambda>d. kd_deletedAt d = None \<and> kd_status d = st) (documents s)) in if n = 0 then None else Some n)"

definition deleteTombstonesOlderThan :: "int \<Rightarrow> int \<Rightarrow> knowledge_store \<Rightarrow> nat \<times> knowledge_store" where
  "deleteTombstonesOlderThan days now s =
     (let p = (\<lambda>d. case kd_deletedAt d of Some t \<Rightarrow> t < now - days * ms_per_day | None \<Rightarrow> False) in
      (length (filter p (documents s)), delete_documents p s))"

section \<open>State\<close>

definition getState :: "string \<Rightarrow> knowledge_store \<Rightarrow> jsval" where
  "getState key s = (case kstate s key of Some v \<Rightarrow> coalesce v JNull | None \<Rightarrow> JNull)"

definition setState :: "string \<Rightarrow> jsval \<Rightarrow> knowledge_store \<Rightarrow> knowledge_store" where
  "setState key v s = s\<lparr>kstate := (kstate s)(key \<mapsto> v)\<rparr>"

end
