(* ===== verification/Chunking.thy ===== *)
theory Chunking
  imports Knowledge_Store
begin

text \<open>
  How a document is cut into the chunks that are embedded and searched
  (\<open>packages/knowledge/src/chunking.ts\<close>). The cutting of a long text looks at code units, also
  those of surrogate pairs: there a text is the list of the numbers of its code units. A cut whose
  ceiling is 0 never ends, which is the value \<open>None\<close>. The separator of headings (U+203A
  between two blanks) lies outside the characters of the model and is the parameter \<open>crumb\<close>;
  \<open>sha256\<close> is the hash function.
\<close>

section \<open>Data\<close>

record chunking_options =
  co_chunkTokens :: nat
  co_maxChunkTokens :: nat
  co_gapMinutes :: "rat option"

record chunkable_document =
  ck_kind :: document_kind
  ck_title :: string
  ck_segments :: "document_segment list"
  ck_attributes :: jsval
  ck_containerName :: string

record chunk_draft =
  cf_seq :: nat
  cf_segmentKeys :: "string list"
  cf_url :: "string option"
  cf_occurredAt :: "string option"
  cf_prefix :: string
  cf_text :: string
  cf_textHash :: string
  cf_tokens :: nat

record piece =
  pc_key :: string
  pc_url :: "string option"
  pc_at :: "string option"
  pc_text :: string

record piece_group =
  pg_prefix :: string
  pg_pieces :: "piece list"
  pg_overlap :: nat

definition estimateTokens :: "string \<Rightarrow> nat" where
  "estimateTokens text = (length text + 3) div 4"

text \<open>\<open>filter(Boolean)\<close> on strings, and a string that counts as true.\<close>

definition non_empty :: "string list \<Rightarrow> string list" where
  "non_empty xs = filter (\<lambda>x. x \<noteq> []) xs"

definition truthy_text :: "string option \<Rightarrow> bool" where
  "truthy_text v = (case v of Some t \<Rightarrow> t \<noteq> [] | None \<Rightarrow> False)"

definition text_or_empty :: "string option \<Rightarrow> string" where
  "text_or_empty v = (case v of Some t \<Rightarrow> t | None \<Rightarrow> [])"

definition middle_dot :: string where
  "middle_dot = [CHR '' '', CHR 0xB7, CHR '' '']"

section \<open>Rendering\<close>

datatype stamp_style = Style_Time | Style_Date_Time

definition formatStamp :: "string \<Rightarrow> stamp_style \<Rightarrow> string" where
  "formatStamp stamp style = (case date_parse stamp of
     None \<Rightarrow> []
   | Some t \<Rightarrow> (let r = t mod ms_per_day; hhmm = pad 2 (r div 3600000) @ '':'' @ pad 2 (r div 60000 mod 60) in
       case style of Style_Time \<Rightarrow> hhmm | Style_Date_Time \<Rightarrow> take 10 stamp @ '' '' @ hhmm))"

definition renderAuthored :: "document_segment \<Rightarrow> stamp_style \<Rightarrow> string" where
  "renderAuthored g style =
     (let stamp = (if truthy_text (seg_at g) then formatStamp (text_or_empty (seg_at g)) style else []);
          who = text_or_empty (seg_authorName g);
          head = who @ (if stamp \<noteq> [] then '' ('' @ stamp @ '')'' else []) @ '':''
      in if who = [] \<and> stamp = [] then seg_text g
         else case style of Style_Time \<Rightarrow> head @ '' '' @ seg_text g | Style_Date_Time \<Rightarrow> head @ [CHR 0x0A] @ seg_text g)"

definition piece_of :: "document_segment \<Rightarrow> string \<Rightarrow> piece" where
  "piece_of g text = \<lparr>pc_key = seg_key g, pc_url = seg_url g, pc_at = seg_at g, pc_text = text\<rparr>"

section \<open>Grouping\<close>

definition heading_path :: "document_segment \<Rightarrow> string list" where
  "heading_path g = (case seg_headingPath g of Some path \<Rightarrow> path | None \<Rightarrow> [])"

definition add_piece :: "piece \<Rightarrow> piece_group list \<Rightarrow> piece_group list" where
  "add_piece p groups = butlast groups @ [(last groups)\<lparr>pg_pieces := pg_pieces (last groups) @ [p]\<rparr>]"

definition heading_step ::
    "string \<Rightarrow> chunkable_document \<Rightarrow> document_segment \<Rightarrow> piece_group list \<times> string option \<Rightarrow> piece_group list \<times> string option" where
  "heading_step crumb doc g st = (case st of (groups, current) \<Rightarrow>
     (let path = join crumb (heading_path g);
          opened = (if current \<noteq> Some path \<or> groups = []
            then (groups @ [\<lparr>pg_prefix = join crumb (ck_title doc # heading_path g), pg_pieces = [], pg_overlap = 0\<rparr>], Some path)
            else st)
      in (add_piece (piece_of g (seg_text g)) (fst opened), snd opened)))"

definition groupByHeading :: "string \<Rightarrow> chunkable_document \<Rightarrow> piece_group list" where
  "groupByHeading crumb doc = fst (fold (heading_step crumb doc) (ck_segments doc) ([], None))"

definition attribute :: "string \<Rightarrow> jsval \<Rightarrow> jsval" where
  "attribute k v = (case v of JObj kvs \<Rightarrow> (case map_of kvs k of Some x \<Rightarrow> x | None \<Rightarrow> JUndefined) | _ \<Rightarrow> JUndefined)"

definition issuePrefix :: "chunkable_document \<Rightarrow> string" where
  "issuePrefix doc =
     (let number = attribute ''number'' (ck_attributes doc);
          numbered = (if number \<noteq> JUndefined then ''#'' @ js_String number else []);
          reference = (case attribute ''key'' (ck_attributes doc) of
            JStr k \<Rightarrow> if k \<noteq> [] then k else numbered | _ \<Rightarrow> numbered)
      in join '' '' (non_empty [reference, ck_title doc]) @ middle_dot @ ck_containerName doc)"

definition groupIssue :: "chunkable_document \<Rightarrow> piece_group list" where
  "groupIssue doc = (case ck_segments doc of
     [] \<Rightarrow> []
   | header # comments \<Rightarrow>
       \<lparr>pg_prefix = issuePrefix doc, pg_pieces = [piece_of header (seg_text header)], pg_overlap = 0\<rparr>
       # (if comments = [] then [] else [\<lparr>pg_prefix = issuePrefix doc,
            pg_pieces = map (\<lambda>c. piece_of c (renderAuthored c Style_Date_Time)) comments, pg_overlap = 0\<rparr>]))"

definition first_date :: "document_segment list \<Rightarrow> string" where
  "first_date gs = (case gs of [] \<Rightarrow> [] | g # _ \<Rightarrow> if truthy_text (seg_at g) then take 10 (text_or_empty (seg_at g)) else [])"

definition groupThread :: "chunkable_document \<Rightarrow> piece_group list" where
  "groupThread doc =
     (let firstLine = (case ck_segments doc of [] \<Rightarrow> [] | g # _ \<Rightarrow> take 80 (hd (split_on (CHR 0x0A) (seg_text g))))
      in [\<lparr>pg_prefix = join middle_dot (non_empty [''#'' @ ck_containerName doc, first_date (ck_segments doc), firstLine]),
           pg_pieces = map (\<lambda>g. piece_of g (renderAuthored g Style_Time)) (ck_segments doc), pg_overlap = 1\<rparr>])"

text \<open>The instant of a message: none, not a number, or a number.\<close>

definition message_at :: "document_segment \<Rightarrow> int option option" where
  "message_at g = (if truthy_text (seg_at g) then Some (date_parse (text_or_empty (seg_at g))) else None)"

definition pause_between :: "rat \<Rightarrow> int option option \<Rightarrow> int option option \<Rightarrow> bool" where
  "pause_between gapMinutes lastAt now = (case (lastAt, now) of
     (Some (Some a), Some (Some b)) \<Rightarrow> of_int (b - a) > gapMinutes * 60000 | _ \<Rightarrow> False)"

definition day_step ::
    "string \<Rightarrow> rat \<Rightarrow> document_segment \<Rightarrow> piece_group list \<times> int option option \<Rightarrow> piece_group list \<times> int option option" where
  "day_step prefix gapMinutes g st = (case st of (groups, lastAt) \<Rightarrow>
     (let now = message_at g;
          opened = (if groups = [] \<or> pause_between gapMinutes lastAt now
            then groups @ [\<lparr>pg_prefix = prefix, pg_pieces = [], pg_overlap = 0\<rparr>] else groups)
      in (add_piece (piece_of g (renderAuthored g Style_Time)) opened, if now \<noteq> None then now else lastAt)))"

definition groupChannelDay :: "chunkable_document \<Rightarrow> rat \<Rightarrow> piece_group list" where
  "groupChannelDay doc gapMinutes =
     (let prefix = join middle_dot (non_empty [''#'' @ ck_containerName doc, first_date (ck_segments doc)])
      in fst (fold (day_step prefix gapMinutes) (ck_segments doc) ([], None)))"

definition groupSegments :: "string \<Rightarrow> chunkable_document \<Rightarrow> chunking_options \<Rightarrow> piece_group list" where
  "groupSegments crumb doc options = (case ck_kind doc of
     Confluence_Page \<Rightarrow> groupByHeading crumb doc
   | Github_Doc \<Rightarrow> groupByHeading crumb doc
   | Jira_Issue \<Rightarrow> groupIssue doc
   | Github_Pull_Request \<Rightarrow> groupIssue doc
   | Github_Issue \<Rightarrow> groupIssue doc
   | Slack_Thread \<Rightarrow> groupThread doc
   | Slack_Channel_Day \<Rightarrow> groupChannelDay doc (case co_gapMinutes options of Some m \<Rightarrow> m | None \<Rightarrow> 10))"

section \<open>Cutting a long text\<close>

definition is_white :: "nat \<Rightarrow> bool" where
  "is_white n = (9 \<le> n \<and> n \<le> 13 \<or> n = 32 \<or> n = 160 \<or> n = 0x1680 \<or> 0x2000 \<le> n \<and> n \<le> 0x200A \<or>
     n = 0x2028 \<or> n = 0x2029 \<or> n = 0x202F \<or> n = 0x205F \<or> n = 0x3000 \<or> n = 0xFEFF)"

definition units_trim :: "nat list \<Rightarrow> nat list" where
  "units_trim s = rev (dropWhile is_white (rev (dropWhile is_white s)))"

text \<open>\<open>split(/\n{2,}/)\<close> and \<open>split(/(?<=[.!?])\s+/)\<close>: \<open>acc\<close> holds the part being read, reversed.\<close>

function paragraphs :: "nat list \<Rightarrow> nat list \<Rightarrow> nat list list" where
  "paragraphs acc [] = [rev acc]"
| "paragraphs acc (c # cs) =
     (if c = 10 \<and> cs \<noteq> [] \<and> hd cs = 10 then rev acc # paragraphs [] (dropWhile (\<lambda>n. n = 10) cs)
      else paragraphs (c # acc) cs)"
  by pat_completeness auto
termination by (relation "measure (\<lambda>(_, cs). length cs)") (auto simp: less_Suc_eq_le length_dropWhile_le)

function sentences :: "nat list \<Rightarrow> nat list \<Rightarrow> nat list list" where
  "sentences acc [] = [rev acc]"
| "sentences acc (c # cs) =
     (if is_white c \<and> acc \<noteq> [] \<and> hd acc \<in> {33, 46, 63} then rev acc # sentences [] (dropWhile is_white cs)
      else sentences (c # acc) cs)"
  by pat_completeness auto
termination by (relation "measure (\<lambda>(_, cs). length cs)") (auto simp: less_Suc_eq_le length_dropWhile_le)

definition units_of :: "nat \<Rightarrow> nat list \<Rightarrow> nat list list" where
  "units_of maxChars text =
     concat (map (\<lambda>p. if length p \<le> maxChars then [p] else sentences [] p) (paragraphs [] text))"

definition high_surrogate :: "nat \<Rightarrow> bool" where
  "high_surrogate n = (0xD800 \<le> n \<and> n \<le> 0xDBFF)"

definition cut_at :: "nat \<Rightarrow> nat list \<Rightarrow> nat" where
  "cut_at maxChars unit =
     (let e = min maxChars (length unit) in
      if e < length unit \<and> 0 < e \<and> high_surrogate (unit ! (e - 1)) then e - 1 else e)"

partial_function (option) hard_cut :: "nat \<Rightarrow> nat list \<Rightarrow> nat list list option" where
  "hard_cut maxChars unit =
     (if unit = [] then Some []
      else Option.bind (hard_cut maxChars (drop (cut_at maxChars unit) unit))
        (\<lambda>parts. Some (take (cut_at maxChars unit) unit # parts)))"

declare hard_cut.simps [code]

type_synonym cut_state = "nat list list \<times> nat list"

definition flush :: "cut_state \<Rightarrow> cut_state" where
  "flush st = (case st of (out, buffer) \<Rightarrow> (if units_trim buffer \<noteq> [] then out @ [units_trim buffer] else out, []))"

definition split_unit :: "nat \<Rightarrow> nat list \<Rightarrow> cut_state \<Rightarrow> cut_state option" where
  "split_unit maxChars unit st =
     (if length unit > maxChars
      then map_option (\<lambda>parts. (fst (flush st) @ parts, [])) (hard_cut maxChars unit)
      else (let (out, buffer) = (if length (snd st @ [10, 10] @ unit) > maxChars then flush st else st)
        in Some (out, if buffer \<noteq> [] then buffer @ [10, 10] @ unit else unit)))"

fun split_units :: "nat \<Rightarrow> nat list list \<Rightarrow> cut_state \<Rightarrow> cut_state option" where
  "split_units maxChars [] st = Some st"
| "split_units maxChars (u # us) st = Option.bind (split_unit maxChars u st) (split_units maxChars us)"

definition splitLongText :: "nat list \<Rightarrow> nat \<Rightarrow> nat list list option" where
  "splitLongText text maxTokens =
     map_option (\<lambda>st. fst (flush st)) (split_units (maxTokens * 4) (units_of (maxTokens * 4) text) ([], []))"

section \<open>Packing\<close>

definition code_units :: "string \<Rightarrow> nat list" where
  "code_units = map of_char"

definition fit_piece :: "chunking_options \<Rightarrow> piece \<Rightarrow> piece list option" where
  "fit_piece options p =
     (if estimateTokens (pc_text p) \<le> co_maxChunkTokens options then Some [p]
      else map_option (map (\<lambda>part. p\<lparr>pc_text := map char_of part\<rparr>)) (splitLongText (code_units (pc_text p)) (co_maxChunkTokens options)))"

fun fit_pieces :: "chunking_options \<Rightarrow> piece list \<Rightarrow> piece list option" where
  "fit_pieces options [] = Some []"
| "fit_pieces options (p # ps) =
     Option.bind (fit_piece options p) (\<lambda>xs. map_option (\<lambda>ys. xs @ ys) (fit_pieces options ps))"

definition piece_tokens :: "piece \<Rightarrow> nat" where
  "piece_tokens p = estimateTokens (pc_text p) + 1"

definition carried :: "nat \<Rightarrow> piece list \<Rightarrow> piece list" where
  "carried overlap current = (if overlap > 0 then drop (length current - overlap) current else [])"

fun pack_loop :: "nat \<Rightarrow> nat \<Rightarrow> piece list \<Rightarrow> piece list list \<Rightarrow> piece list \<Rightarrow> nat \<Rightarrow> piece list list" where
  "pack_loop chunkTokens overlap [] windows current tokens =
     (if current \<noteq> [] \<and> \<not> (overlap > 0 \<and> windows \<noteq> [] \<and> length current = overlap) then windows @ [current] else windows)"
| "pack_loop chunkTokens overlap (p # ps) windows current tokens =
     (if current \<noteq> [] \<and> tokens + piece_tokens p > chunkTokens
      then pack_loop chunkTokens overlap ps (windows @ [current]) (carried overlap current @ [p])
        (sum_list (map piece_tokens (carried overlap current)) + piece_tokens p)
      else pack_loop chunkTokens overlap ps windows (current @ [p]) (tokens + piece_tokens p))"

definition pack :: "piece list \<Rightarrow> chunking_options \<Rightarrow> nat \<Rightarrow> piece list list option" where
  "pack pieces options overlap =
     map_option (\<lambda>fitted. pack_loop (co_chunkTokens options) overlap fitted [] [] 0) (fit_pieces options pieces)"

section \<open>A document\<close>

definition draft_of :: "(string \<Rightarrow> string) \<Rightarrow> string \<Rightarrow> piece list \<Rightarrow> nat \<Rightarrow> chunk_draft" where
  "draft_of sha256 prefix window seq =
     (let text = join [CHR 0x0A] (map pc_text window) in
      \<lparr>cf_seq = seq, cf_segmentKeys = fold (\<lambda>x s. set_add s x) (map pc_key window) [],
       cf_url = Option.bind (find_first (\<lambda>p. truthy_text (pc_url p)) window) pc_url,
       cf_occurredAt = Option.bind (find_first (\<lambda>p. truthy_text (pc_at p)) window) pc_at,
       cf_prefix = prefix, cf_text = text, cf_textHash = sha256 (prefix @ [CHR 0x0A] @ text),
       cf_tokens = estimateTokens text\<rparr>)"

fun group_windows :: "chunking_options \<Rightarrow> piece_group list \<Rightarrow> (string \<times> piece list) list option" where
  "group_windows options [] = Some []"
| "group_windows options (g # gs) =
     Option.bind (pack (pg_pieces g) options (pg_overlap g)) (\<lambda>ws.
       map_option (\<lambda>rest. map (Pair (pg_prefix g)) ws @ rest) (group_windows options gs))"

definition chunkDocument ::
    "(string \<Rightarrow> string) \<Rightarrow> string \<Rightarrow> chunkable_document \<Rightarrow> chunking_options \<Rightarrow> chunk_draft list option" where
  "chunkDocument sha256 crumb doc options =
     map_option (\<lambda>ws. map (\<lambda>(seq, prefix, window). draft_of sha256 prefix window seq) (enumerate 0 ws))
       (group_windows options (groupSegments crumb doc options))"

end
