(* ===== verification/Knowledge_Safety.thy ===== *)
theory Knowledge_Safety
  imports Knowledge_Store
begin

text \<open>
  What the knowledge store promises over any sequence of its operations, by the connector runs,
  the index workers, the purge and the admins: each operation is one transaction, so a history
  is a path of \<open>kstep\<close>. Nothing deleted or restricted at the source keeps text or chunks; a
  deselected container is not refilled and its purge leaves nothing; every document that is not
  indexed can be claimed again until its attempts are used up.
\<close>

section \<open>Steps\<close>

inductive kstep :: "knowledge_store \<Rightarrow> knowledge_store \<Rightarrow> bool" where
  k_containers: "kstep s (upsertContainers connector cs now s)"
| k_container: "kstep s (upsertContainer connector c now s)"
| k_visited: "kstep s (markVisited connector c mode now s)"
| k_setSelected: "kstep s (setSelected connector ext selected by now s)"
| k_select: "kstep s (snd (selectContainer connector i inp now s))"
| k_deselectConnector: "kstep s (snd (deselectConnector connector by now s))"
| k_begin: "kstep s (snd (beginConnectorLife connector born by now s))"
| k_purge: "kstep s (snd (purgeBatch limit now s))"
| k_principals: "kstep s (upsertPrincipals connector ps s)"
| k_sweep: "kstep s (snd (sweepUnusedPrincipals s))"
| k_store: "kstep s (snd (storeBatch sha256 connector container batch redactions now s))"
| k_prune: "kstep s (snd (pruneMissing connector container ids opts now s))"
| k_claim: "kstep s (snd (claimPending n stale now s))"
| k_replace: "kstep s (snd (replaceChunks j cs hash version now s))"
| k_unchanged: "kstep s (markUnchanged j version now s)"
| k_skipped: "kstep s (markSkipped j now s)"
| k_keep: "kstep s (snd (keepClaim j hash now s))"
| k_release: "kstep s (releaseClaim j s)"
| k_failed: "kstep s (markFailed j error now s)"
| k_tombstones: "kstep s (snd (deleteTombstonesOlderThan days now s))"
| k_state: "kstep s (setState key v s)"

text \<open>
  What happens at one awaited call of a process that works on the store: the others commit, the
  clock moves, the process may be told to stop, and the call may fail.
\<close>

record ix_tick =
  xt_commits :: "knowledge_store \<Rightarrow> knowledge_store"
  xt_now :: int
  xt_stop :: bool
  xt_fails :: "string option"

definition khistory :: "knowledge_store \<Rightarrow> knowledge_store \<Rightarrow> bool" where
  "khistory = kstep\<^sup>*\<^sup>*"

section \<open>The invariant\<close>

definition container_key :: "container_row \<Rightarrow> string \<times> string" where
  "container_key c = (kc_connector c, kc_externalId c)"

definition document_key :: "document_row \<Rightarrow> string \<times> string" where
  "document_key d = (kd_connector d, kd_externalId d)"

text \<open>A document whose text may be found.\<close>

definition searchable :: "document_row \<Rightarrow> bool" where
  "searchable d \<longleftrightarrow> kd_deletedAt d = None \<and> \<not> kd_restricted d \<and> kd_indexedHash d \<noteq> None"

definition document_ok :: "document_row \<Rightarrow> bool" where
  "document_ok d \<longleftrightarrow>
     (kd_deletedAt d \<noteq> None \<longrightarrow> kd_title d = [] \<and> kd_segments d = [] \<and> kd_contentHash d = None \<and> kd_status d = Idx_Skipped) \<and>
     (kd_restricted d \<longrightarrow> kd_segments d = [] \<and> kd_contentHash d = None \<and> kd_status d = Idx_Skipped) \<and>
     (kd_status d = Idx_Indexing \<or> kd_status d = Idx_Failed \<longrightarrow> kd_claimedAt d \<noteq> None) \<and>
     kd_attempts d \<le> MAX_INDEX_ATTEMPTS \<and>
     (kd_status d = Idx_Pending \<or> kd_status d = Idx_Indexing \<longrightarrow> kd_attempts d < MAX_INDEX_ATTEMPTS)"

definition containers_ok :: "knowledge_store \<Rightarrow> bool" where
  "containers_ok s \<longleftrightarrow> distinct (map container_key (containers s)) \<and> distinct (map kc_id (containers s)) \<and>
     (\<forall>c \<in> set (containers s). kc_id c < next_id s)"

definition documents_ok :: "knowledge_store \<Rightarrow> bool" where
  "documents_ok s \<longleftrightarrow> distinct (map document_key (documents s)) \<and> distinct (map kd_id (documents s)) \<and>
     (\<forall>d \<in> set (documents s). kd_id d < next_id s \<and> kd_container d \<in> kc_id ` set (containers s) \<and> document_ok d)"

definition chunks_ok :: "knowledge_store \<Rightarrow> bool" where
  "chunks_ok s \<longleftrightarrow> distinct (map (\<lambda>c. (ch_document c, ch_seq c)) (chunks s)) \<and>
     (\<forall>c \<in> set (chunks s). \<exists>d \<in> set (documents s). kd_id d = ch_document c \<and> searchable d)"

definition knowledge_ok :: "knowledge_store \<Rightarrow> bool" where
  "knowledge_ok s \<longleftrightarrow> containers_ok s \<and> documents_ok s \<and> chunks_ok s"

lemmas knowledge_ok_defs = knowledge_ok_def containers_ok_def documents_ok_def chunks_ok_def

section \<open>Primitive changes\<close>

text \<open>Columns of containers other than the ids.\<close>

lemma containers_updated:
  assumes "knowledge_ok s" "\<And>c. kc_id (f c) = kc_id c" "\<And>c. container_key (f c) = container_key c"
  shows "knowledge_ok (s\<lparr>containers := update_where p f (containers s)\<rparr>)"
proof -
  have "map container_key (update_where p f (containers s)) = map container_key (containers s)"
    "map kc_id (update_where p f (containers s)) = map kc_id (containers s)"
    using assms(2,3) by simp_all
  moreover have "kc_id ` set (update_where p f (containers s)) = kc_id ` set (containers s)"
    using assms(2) by simp
  moreover have "\<forall>c \<in> set (update_where p f (containers s)). kc_id c < next_id s"
    using assms(1,2) by (auto simp: knowledge_ok_defs set_update_where)
  ultimately show ?thesis using assms(1) by (simp add: knowledge_ok_defs)
qed

lemma state_updated [simp]: "knowledge_ok (s\<lparr>kstate := m\<rparr>) = knowledge_ok s"
  by (simp add: knowledge_ok_defs)

lemma chunk_owner: "knowledge_ok s \<Longrightarrow> c \<in> set (chunks s) \<Longrightarrow> \<exists>d \<in> set (documents s). kd_id d = ch_document c \<and> searchable d"
  by (simp add: knowledge_ok_defs)

lemma documents_deleted:
  assumes ok: "knowledge_ok s" shows "knowledge_ok (delete_documents p s)"
proof -
  have "\<exists>d \<in> set (filter (\<lambda>d. \<not> p d) (documents s)). kd_id d = ch_document c \<and> searchable d"
    if c: "c \<in> set (chunks s)" "ch_document c \<notin> kd_id ` set (filter p (documents s))" for c
  proof -
    obtain d where d: "d \<in> set (documents s)" "kd_id d = ch_document c" "searchable d"
      using chunk_owner [OF ok c(1)] by blast
    have "\<not> p d"
    proof
      assume "p d"
      then have "kd_id d \<in> kd_id ` set (filter p (documents s))" using d(1) by simp
      then show False using c(2) d(2) by simp
    qed
    then have "d \<in> set (filter (\<lambda>d. \<not> p d) (documents s))" using d(1) by simp
    then show ?thesis using d(2,3) by blast
  qed
  then show ?thesis
    using ok by (simp add: delete_documents_def knowledge_ok_defs Let_def distinct_map_filter)
qed

lemma containers_deleted: "knowledge_ok s \<Longrightarrow> knowledge_ok (delete_containers p s)"
proof -
  assume ok: "knowledge_ok s"
  let ?ids = "map kc_id (filter p (containers s))"
  let ?s = "delete_documents (\<lambda>d. kd_container d \<in> set ?ids) s"
  have "knowledge_ok ?s" by (rule documents_deleted [OF ok])
  moreover have "\<forall>d \<in> set (documents ?s). kd_container d \<in> kc_id ` set (filter (\<lambda>c. \<not> p c) (containers s))"
    using ok by (auto simp: delete_documents_def Let_def knowledge_ok_defs image_iff) blast
  ultimately show ?thesis
    by (simp add: delete_containers_def Let_def knowledge_ok_defs distinct_map_filter delete_documents_def)
qed

text \<open>An update of documents that keeps them in their place. What loses its right to be found loses its chunks.\<close>

lemma documents_updated:
  assumes "knowledge_ok s"
    and "\<And>d. d \<in> set (documents s) \<Longrightarrow> p d \<Longrightarrow> kd_id (f d) = kd_id d \<and> document_key (f d) = document_key d \<and>
       kd_container (f d) \<in> kc_id ` set (containers s) \<and> document_ok (f d)"
    and "\<And>d c. d \<in> set (documents s) \<Longrightarrow> p d \<Longrightarrow> searchable d \<Longrightarrow> c \<in> set (chunks s) \<Longrightarrow> q c \<Longrightarrow> ch_document c = kd_id d \<Longrightarrow> searchable (f d)"
  shows "knowledge_ok (s\<lparr>documents := update_where p f (documents s), chunks := filter q (chunks s)\<rparr>)"
proof -
  let ?ds = "update_where p f (documents s)"
  have key: "map document_key ?ds = map document_key (documents s)" "map kd_id ?ds = map kd_id (documents s)"
    using assms(2) by (auto simp: update_where_def)
  have rows: "\<forall>d \<in> set ?ds. kd_id d < next_id s \<and> kd_container d \<in> kc_id ` set (containers s) \<and> document_ok d"
    using assms(1,2) by (auto simp: set_update_where knowledge_ok_defs)
  have "\<exists>d \<in> set ?ds. kd_id d = ch_document c \<and> searchable d" if "c \<in> set (filter q (chunks s))" for c
  proof -
    have c: "c \<in> set (chunks s)" "q c" using that by auto
    obtain d where d: "d \<in> set (documents s)" "kd_id d = ch_document c" "searchable d"
      using chunk_owner [OF assms(1) c(1)] by blast
    show ?thesis
    proof (cases "p d")
      case True
      then have "f d \<in> set ?ds" using d(1) by (auto simp: set_update_where intro!: rev_image_eqI [of d])
      moreover have "kd_id (f d) = ch_document c" using assms(2) [OF d(1) True] d(2) by simp
      moreover have "searchable (f d)" using assms(3) [OF d(1) True d(3) c] d(2) by simp
      ultimately show ?thesis by blast
    next
      case False
      then have "d \<in> set ?ds" using d(1) by (auto simp: set_update_where intro!: rev_image_eqI [of d])
      then show ?thesis using d by blast
    qed
  qed
  then show ?thesis
    using assms(1) rows unfolding knowledge_ok_defs
    by (simp add: key distinct_map_filter)
qed

lemma documents_updated_all:
  assumes "knowledge_ok s"
    and "\<And>d. d \<in> set (documents s) \<Longrightarrow> p d \<Longrightarrow> kd_id (f d) = kd_id d \<and> document_key (f d) = document_key d \<and>
       kd_container (f d) \<in> kc_id ` set (containers s) \<and> document_ok (f d) \<and> (searchable d \<longrightarrow> searchable (f d))"
  shows "knowledge_ok (s\<lparr>documents := update_where p f (documents s)\<rparr>)"
  using documents_updated [OF assms(1), of p f "\<lambda>_. True"] assms(2) by simp

lemma row_of_document: "knowledge_ok s \<Longrightarrow> d \<in> set (documents s) \<Longrightarrow> document_ok d \<and> kd_container d \<in> kc_id ` set (containers s)"
  by (simp add: knowledge_ok_defs)

lemma principals_deleted: "knowledge_ok s \<Longrightarrow> knowledge_ok (delete_principals p s)"
proof -
  assume ok: "knowledge_ok s"
  let ?ids = "map kp_id (filter p (principals s))"
  have "knowledge_ok (s\<lparr>documents := update_where (\<lambda>d. \<exists>a \<in> set ?ids. kd_author d = Some a) (\<lambda>d. d\<lparr>kd_author := None\<rparr>) (documents s)\<rparr>)"
    using row_of_document [OF ok] by (intro documents_updated_all [OF ok]) (auto simp: document_key_def document_ok_def searchable_def)
  then show ?thesis by (simp add: delete_principals_def Let_def knowledge_ok_defs)
qed

lemma chunks_deleted: "knowledge_ok s \<Longrightarrow> knowledge_ok (delete_chunks_of ids s)"
  by (auto simp: delete_chunks_of_def knowledge_ok_defs distinct_map_filter)

section \<open>Every operation keeps the invariant\<close>

lemma distinct_snoc: "distinct (map c (xs @ [x])) \<longleftrightarrow> distinct (map c xs) \<and> c x \<notin> c ` set xs"
  by auto

lemma container_inserted:
  assumes "knowledge_ok s" "find_first (this_container connector (sc_externalId c)) (containers s) = None"
  shows "knowledge_ok (s\<lparr>containers := containers s @ [new_container (next_id s) connector c now], next_id := next_id s + 1\<rparr>)"
  using assms
  by (auto simp: knowledge_ok_defs find_first_None this_container_def new_container_def container_key_def less_Suc_eq)

lemma relisted_fields [simp]: "kc_id (relisted c now r) = kc_id r" "container_key (relisted c now r) = container_key r"
  by (simp_all add: relisted_def container_key_def)

lemma ok_upsertContainerRow: "knowledge_ok s \<Longrightarrow> knowledge_ok (upsertContainerRow connector now c s)"
  unfolding upsertContainerRow_def using container_inserted [of s connector c now] by (auto intro!: containers_updated)

lemma ok_upsertContainers: "knowledge_ok s \<Longrightarrow> knowledge_ok (upsertContainers connector cs now s)"
  unfolding upsertContainers_def Let_def
  by (intro containers_updated fold_keeps [where Q = knowledge_ok]) (auto simp: container_key_def intro: ok_upsertContainerRow)

lemma other_container_columns:
  "kc_id (visit mode now c) = kc_id c" "container_key (visit mode now c) = container_key c"
  "kc_id (select_row inp now c) = kc_id c" "container_key (select_row inp now c) = container_key c"
  "kc_id (clear_row by now c) = kc_id c" "container_key (clear_row by now c) = container_key c"
  "kc_id (purged_row now c) = kc_id c" "container_key (purged_row now c) = container_key c"
  by (simp_all add: visit_def select_row_def clear_row_def purged_row_def container_key_def split: run_kind.split)

lemma ok_markVisited: "knowledge_ok s \<Longrightarrow> knowledge_ok (markVisited connector c mode now s)"
  unfolding markVisited_def by (intro containers_updated) (simp_all add: other_container_columns)

lemma ok_setSelected: "knowledge_ok s \<Longrightarrow> knowledge_ok (setSelected connector ext selected by now s)"
  unfolding setSelected_def by (intro containers_updated) (simp_all add: container_key_def)

lemma ok_selectContainer: "knowledge_ok s \<Longrightarrow> knowledge_ok (snd (selectContainer connector i inp now s))"
  unfolding selectContainer_def snd_conv by (intro containers_updated) (simp_all add: other_container_columns)

lemma ok_clearConnector: "knowledge_ok s \<Longrightarrow> knowledge_ok (snd (clearConnector connector by now s))"
  unfolding clearConnector_def Let_def snd_conv state_updated
  by (intro principals_deleted containers_updated containers_deleted) (simp_all add: other_container_columns)

lemma ok_beginConnectorLife: "knowledge_ok s \<Longrightarrow> knowledge_ok (snd (beginConnectorLife connector born by now s))"
  using ok_clearConnector by (simp add: beginConnectorLife_def Let_def case_prod_beta)

lemma ok_purgeBatch: "knowledge_ok s \<Longrightarrow> knowledge_ok (snd (purgeBatch limit now s))"
proof -
  assume ok: "knowledge_ok s"
  have "knowledge_ok (delete_principals q (delete_containers r (t\<lparr>containers := update_where p (purged_row now) (containers t)\<rparr>)))"
    if "t = delete_documents u s" for p q r t u
    unfolding that
    by (intro principals_deleted containers_deleted containers_updated documents_deleted ok) (simp_all add: other_container_columns)
  then show ?thesis using ok by (simp add: purgeBatch_def Let_def)
qed

lemma ok_upsertPrincipalRow: "knowledge_ok s \<Longrightarrow> knowledge_ok (upsertPrincipalRow connector p s)"
  by (auto simp: upsertPrincipalRow_def knowledge_ok_defs less_Suc_eq)

lemma ok_upsertPrincipals: "knowledge_ok s \<Longrightarrow> knowledge_ok (upsertPrincipals connector ps s)"
  unfolding upsertPrincipals_def by (rule fold_keeps [where Q = knowledge_ok]) (rule ok_upsertPrincipalRow)

lemma containers_upsertPrincipalRow [simp]: "containers (upsertPrincipalRow connector p s) = containers s"
  by (simp add: upsertPrincipalRow_def)

lemma new_document_ok: "document_ok (new_document sha256 i connector container d cols now)"
  by (simp add: document_ok_def new_document_def input_hash_def MAX_INDEX_ATTEMPTS_def)

lemma updated_document_ok: "document_ok r \<Longrightarrow> document_ok (updated_document sha256 container d cols now r)"
  by (auto simp: document_ok_def updated_document_def input_hash_def moves_def MAX_INDEX_ATTEMPTS_def)

lemma updated_document_fields [simp]:
  "kd_id (updated_document sha256 container d cols now r) = kd_id r"
  "document_key (updated_document sha256 container d cols now r) = document_key r"
  "kd_container (updated_document sha256 container d cols now r) = container"
  by (simp_all add: updated_document_def document_key_def)

lemma containers_upsertDocument [simp]: "containers (upsertDocument sha256 connector container cols now d s) = containers s"
  by (simp add: upsertDocument_def Let_def delete_chunks_of_def)

lemma ok_upsertDocument:
  assumes "knowledge_ok s" "container \<in> kc_id ` set (containers s)"
  shows "knowledge_ok (upsertDocument sha256 connector container cols now d s)"
proof (cases "find_first (this_document connector (di_externalId d)) (documents s) = None")
  case True
  let ?r = "new_document sha256 (next_id s) connector container d (cols d) now"
  let ?s = "s\<lparr>documents := documents s @ [?r], next_id := next_id s + 1\<rparr>"
  have r: "kd_id ?r = next_id s" "document_key ?r = (connector, di_externalId d)" "kd_container ?r = container"
    by (simp_all add: new_document_def document_key_def)
  have fresh: "(connector, di_externalId d) \<notin> document_key ` set (documents s)" "next_id s \<notin> kd_id ` set (documents s)"
    using True assms(1) by (auto simp: find_first_None this_document_def document_key_def knowledge_ok_defs)
  have "knowledge_ok ?s"
    using assms fresh new_document_ok [of sha256 "next_id s" connector container d "cols d" now] unfolding knowledge_ok_defs
    by (simp add: r less_Suc_eq)
  then show ?thesis using True chunks_deleted by (simp add: upsertDocument_def Let_def)
next
  case False
  let ?at = "this_document connector (di_externalId d)" and ?f = "updated_document sha256 container d (cols d) now"
  let ?ds = "update_where ?at ?f (documents s)"
  have same: "?at (?f r) = ?at r" for r by (simp add: this_document_def updated_document_def)
  define q where "q = (\<lambda>c :: chunk_row. di_restricted d \<longrightarrow> ch_document c \<notin> kd_id ` set (filter ?at ?ds))"
  have result: "upsertDocument sha256 connector container cols now d s = s\<lparr>documents := ?ds, chunks := filter q (chunks s)\<rparr>"
    using False by (auto simp: upsertDocument_def Let_def delete_chunks_of_def q_def)
  show ?thesis unfolding result
  proof (rule documents_updated [OF assms(1)])
    fix r assume r: "r \<in> set (documents s)" "?at r"
    show "kd_id (?f r) = kd_id r \<and> document_key (?f r) = document_key r \<and> kd_container (?f r) \<in> kc_id ` set (containers s) \<and> document_ok (?f r)"
      using assms updated_document_ok row_of_document [OF assms(1) r(1)] by simp
    fix c :: chunk_row assume c: "searchable r" "q c" "ch_document c = kd_id r"
    have "?f r \<in> set (filter ?at ?ds)" using r same by (auto simp: set_update_where intro!: rev_image_eqI [of r])
    then have "kd_id r \<in> kd_id ` set (filter ?at ?ds)" by (metis image_eqI updated_document_fields(1))
    then have "\<not> di_restricted d" using c(2,3) by (auto simp: q_def)
    then show "searchable (?f r)" using c(1) by (simp add: searchable_def updated_document_def)
  qed
qed

lemma tombstone_row_fields [simp]:
  "kd_id (tombstone_row now d) = kd_id d" "document_key (tombstone_row now d) = document_key d"
  "kd_container (tombstone_row now d) = kd_container d"
  by (simp_all add: tombstone_row_def document_key_def)

lemma tombstone_row_ok: "document_ok d \<Longrightarrow> document_ok (tombstone_row now d)"
  by (auto simp: document_ok_def tombstone_row_def)

lemma containers_tombstone [simp]: "containers (snd (tombstone connector exts now s)) = containers s"
  by (simp add: tombstone_def Let_def delete_chunks_of_def)

lemma ok_tombstone:
  assumes "knowledge_ok s" shows "knowledge_ok (snd (tombstone connector exts now s))"
proof -
  let ?p = "\<lambda>d. kd_connector d = connector \<and> kd_externalId d \<in> set exts \<and> kd_deletedAt d = None"
  have "knowledge_ok (s\<lparr>documents := update_where ?p (tombstone_row now) (documents s),
      chunks := filter (\<lambda>c. ch_document c \<notin> set (map kd_id (filter ?p (documents s)))) (chunks s)\<rparr>)"
    using row_of_document [OF assms] tombstone_row_ok by (intro documents_updated [OF assms]) auto
  then show ?thesis by (simp add: tombstone_def Let_def delete_chunks_of_def)
qed

lemma containers_fold_principals [simp]: "containers (fold (upsertPrincipalRow connector) ps s) = containers s"
  by (induction ps arbitrary: s) simp_all

lemma ok_fold_documents:
  assumes "knowledge_ok s" "container \<in> kc_id ` set (containers s)"
  shows "knowledge_ok (fold (upsertDocument sha256 connector container cols now) ds s) \<and>
    containers (fold (upsertDocument sha256 connector container cols now) ds s) = containers s"
  using assms by (induction ds arbitrary: s) (simp_all add: ok_upsertDocument)

lemma ok_accept_batch:
  assumes "knowledge_ok s" "kc_id found \<in> kc_id ` set (containers s)"
  shows "knowledge_ok (snd (accept_batch sha256 connector found batch redactions now s))"
proof -
  let ?s1 = "case cb_principals batch of Some ps \<Rightarrow> fold (upsertPrincipalRow connector) ps s | None \<Rightarrow> s"
  have "knowledge_ok ?s1" "containers ?s1 = containers s"
    using assms(1) ok_upsertPrincipals unfolding upsertPrincipals_def by (auto split: option.split)
  then have "knowledge_ok (snd (tombstone connector (cb_deleted batch) now
      (fold (upsertDocument sha256 connector (kc_id found) cols now) (cb_documents batch) ?s1)))" for cols
    using ok_fold_documents [of ?s1 "kc_id found"] assms(2) by (intro ok_tombstone) simp
  then show ?thesis
    unfolding accept_batch_def Let_def case_prod_beta snd_conv
    by (intro containers_updated) (simp_all add: container_key_def)
qed

lemma ok_storeBatch: "knowledge_ok s \<Longrightarrow> knowledge_ok (snd (storeBatch sha256 connector container batch redactions now s))"
proof (cases "find_first (this_container connector (sc_externalId container)) (containers s)")
  case (Some found)
  assume ok: "knowledge_ok s"
  have "kc_id found \<in> kc_id ` set (containers s)" using find_first_Some [OF Some] by simp
  then show ?thesis
    using ok_accept_batch [OF ok] Some ok by (simp add: storeBatch_def case_prod_beta)
qed (simp add: storeBatch_def)

lemma ok_pruneMissing: "knowledge_ok s \<Longrightarrow> knowledge_ok (snd (pruneMissing connector container ids opts now s))"
proof -
  assume ok: "knowledge_ok s"
  have "knowledge_ok (snd (tombstone connector exts now (s\<lparr>kstate := m\<rparr>)))" for exts m
    by (rule ok_tombstone) (simp add: ok)
  then have "knowledge_ok ((snd (tombstone connector exts now (s\<lparr>kstate := m\<rparr>)))\<lparr>containers :=
      update_where p (\<lambda>c. c\<lparr>kc_lastReconciledAt := Some now, kc_updatedAt := now\<rparr>)
       (containers (snd (tombstone connector exts now (s\<lparr>kstate := m\<rparr>))))\<rparr>)" for exts m p
    by (intro containers_updated) (simp_all add: container_key_def)
  then show ?thesis using ok by (simp add: pruneMissing_def Let_def case_prod_beta)
qed

text \<open>The worker's side: documents change in place.\<close>

lemma claim_ok:
  assumes "document_ok d" "claimable_document stale now' d"
  shows "document_ok (claim_row now d)"
  using assms by (auto simp: document_ok_def claim_row_def claimable_document_def MAX_INDEX_ATTEMPTS_def)

lemma ok_claimPending: "knowledge_ok s \<Longrightarrow> knowledge_ok (snd (claimPending n stale now s))"
proof -
  assume ok: "knowledge_ok s"
  let ?rows = "take n (js_sort (\<lambda>a b. of_int (kd_updatedAt a - kd_updatedAt b)) (filter (claimable_document stale now) (documents s)))"
  have "claimable_document stale now d" if d: "d \<in> set (documents s)" "kd_id d \<in> kd_id ` set ?rows" for d
  proof -
    obtain e where e: "e \<in> set ?rows" "kd_id e = kd_id d" using d(2) by force
    then have "e \<in> set (documents s)" "claimable_document stale now e" using set_take_subset by fastforce+
    moreover have "inj_on kd_id (set (documents s))" using ok by (simp add: knowledge_ok_defs distinct_map)
    ultimately show ?thesis using d(1) e(2) by (metis inj_onD)
  qed
  then have "document_ok (claim_row now d)" if "d \<in> set (documents s)" "kd_id d \<in> kd_id ` set ?rows" for d
    using claim_ok row_of_document [OF ok that(1)] that by blast
  moreover have "kd_id (claim_row now d) = kd_id d" "document_key (claim_row now d) = document_key d"
    "kd_container (claim_row now d) = kd_container d" "searchable (claim_row now d) = searchable d" for d
    by (simp_all add: document_key_def searchable_def claim_row_def)
  ultimately have "knowledge_ok (s\<lparr>documents := update_where (\<lambda>d. kd_id d \<in> set (map kd_id ?rows)) (claim_row now) (documents s)\<rparr>)"
    using row_of_document [OF ok] by (intro documents_updated_all [OF ok]) (simp only: set_map, blast)
  then show ?thesis by (simp add: claimPending_def Let_def)
qed


lemma in_progress_ok:
  assumes "knowledge_ok s" "d \<in> set (documents s)" "in_progress i d"
  shows "document_ok d \<and> kd_deletedAt d = None \<and> \<not> kd_restricted d \<and> kd_container d \<in> kc_id ` set (containers s)"
  using row_of_document [OF assms(1,2)] assms(3) by (auto simp: document_ok_def in_progress_def)

lemma ok_replaceChunks: "knowledge_ok s \<Longrightarrow> knowledge_ok (snd (replaceChunks i cs hash version now s))"
proof (cases "find_first (still_the_claim i hash) (documents s) = None \<or> \<not> distinct (map ch_seq cs)")
  case False
  assume ok: "knowledge_ok s"
  obtain r where r: "r \<in> set (documents s)" "still_the_claim i hash r"
    using False by (auto simp: find_first_None)
  let ?f = "indexed_row hash version now"
  let ?ds = "update_where (\<lambda>d. kd_id d = i) ?f (documents s)"
  have only: "d = r" if "d \<in> set (documents s)" "kd_id d = i" for d
    using ok r that by (auto simp: knowledge_ok_defs distinct_map inj_on_def still_the_claim_def)
  have rok: "document_ok r \<and> kd_container r \<in> kc_id ` set (containers s)" by (rule row_of_document [OF ok r(1)])
  have fr: "kd_id (?f r) = i" "searchable (?f r)" "document_ok (?f r)" "document_key (?f r) = document_key r" "kd_container (?f r) = kd_container r"
    using r(2) rok by (auto simp: indexed_row_def searchable_def still_the_claim_def document_ok_def document_key_def MAX_INDEX_ATTEMPTS_def)
  have kept: "knowledge_ok (s\<lparr>documents := ?ds, chunks := filter (\<lambda>c. ch_document c \<notin> {i}) (chunks s)\<rparr>)"
    by (rule documents_updated [OF ok]) (use only fr rok r in \<open>auto simp: still_the_claim_def\<close>)
  have "?f r \<in> set ?ds" using r by (auto simp: set_update_where still_the_claim_def intro!: rev_image_eqI [of r])
  then have owner: "\<exists>d \<in> set ?ds. kd_id d = i \<and> searchable d" using fr by blast
  have added: "distinct (map (\<lambda>c. (ch_document c, ch_seq c)) (map (chunk_of i) cs))"
    "\<forall>c \<in> set (map (chunk_of i) cs). ch_document c = i"
    using False by (auto simp: chunk_of_def stored_chunk_input.extend_def distinct_map inj_on_def)
  have "knowledge_ok (s\<lparr>documents := ?ds, chunks := filter (\<lambda>c. ch_document c \<notin> {i}) (chunks s) @ map (chunk_of i) cs\<rparr>)"
    using kept added owner unfolding knowledge_ok_defs by (auto simp: distinct_map)
  moreover have "snd (replaceChunks i cs hash version now s) =
      s\<lparr>documents := ?ds, chunks := filter (\<lambda>c. ch_document c \<notin> {i}) (chunks s) @ map (chunk_of i) cs\<rparr>"
    using False by (auto simp: replaceChunks_def Let_def delete_chunks_of_def)
  ultimately show ?thesis by simp
qed (auto simp: replaceChunks_def)

lemma ok_markUnchanged: "knowledge_ok s \<Longrightarrow> knowledge_ok (markUnchanged i version now s)"
  unfolding markUnchanged_def
  by (rule documents_updated_all, assumption, drule (2) in_progress_ok)
    (auto simp: document_key_def document_ok_def searchable_def in_progress_def)

lemma ok_keepClaim: "knowledge_ok s \<Longrightarrow> knowledge_ok (snd (keepClaim i hash now s))"
  unfolding keepClaim_def snd_conv
  by (rule documents_updated_all, assumption, drule (1) row_of_document)
    (auto simp: document_key_def document_ok_def searchable_def)

lemma ok_releaseClaim: "knowledge_ok s \<Longrightarrow> knowledge_ok (releaseClaim i s)"
  unfolding releaseClaim_def
  by (rule documents_updated_all, assumption, drule (2) in_progress_ok)
    (auto simp: document_key_def document_ok_def searchable_def in_progress_def)

lemma ok_markFailed: "knowledge_ok s \<Longrightarrow> knowledge_ok (markFailed i error now s)"
  unfolding markFailed_def
  by (rule documents_updated_all, assumption, drule (2) in_progress_ok)
    (auto simp: document_key_def document_ok_def searchable_def in_progress_def)

lemma ok_markSkipped: "knowledge_ok s \<Longrightarrow> knowledge_ok (markSkipped i now s)"
proof -
  assume ok: "knowledge_ok s"
  let ?f = "\<lambda>d. d\<lparr>kd_status := Idx_Skipped, kd_claimedAt := None, kd_indexedHash := None, kd_indexVersion := None, kd_updatedAt := now\<rparr>"
  have "knowledge_ok (s\<lparr>documents := update_where (in_progress i) ?f (documents s), chunks := filter (\<lambda>c. ch_document c \<noteq> i) (chunks s)\<rparr>)"
    by (rule documents_updated [OF ok])
      (use in_progress_ok [OF ok] in \<open>auto simp: document_key_def document_ok_def in_progress_def\<close>)
  moreover have "knowledge_ok (s\<lparr>documents := update_where (in_progress i) ?f (documents s)\<rparr>)"
    if "find_first (in_progress i) (documents s) = None"
    using that ok by (subst update_where_none) (auto simp: find_first_None)
  ultimately show ?thesis by (simp add: markSkipped_def Let_def delete_chunks_of_def)
qed

lemma ok_step: "kstep s s' \<Longrightarrow> knowledge_ok s \<Longrightarrow> knowledge_ok s'"
proof (induction rule: kstep.induct)
  case (k_container s connector c now)
  then show ?case unfolding upsertContainer_def by (rule ok_upsertContainerRow)
next
  case (k_deselectConnector s connector b now)
  then show ?case unfolding deselectConnector_def by (rule ok_clearConnector)
next
  case (k_sweep s)
  then show ?case unfolding sweepUnusedPrincipals_def Let_def snd_conv by (rule principals_deleted)
next
  case (k_tombstones s days now)
  then show ?case unfolding deleteTombstonesOlderThan_def Let_def snd_conv by (rule documents_deleted)
next
  case (k_state s key v)
  then show ?case by (simp add: setState_def)
qed (simp_all add: ok_upsertContainers ok_markVisited ok_setSelected ok_selectContainer ok_beginConnectorLife ok_purgeBatch
    ok_upsertPrincipals ok_storeBatch ok_pruneMissing ok_claimPending ok_replaceChunks ok_markUnchanged ok_markSkipped
    ok_keepClaim ok_releaseClaim ok_markFailed)

lemma ok_empty: "knowledge_ok empty_knowledge"
  by (simp add: knowledge_ok_defs empty_knowledge_def)

lemma khistory_refl [simp]: "khistory s s"
  by (simp add: khistory_def)

lemma khistory_step: "khistory s s1 \<Longrightarrow> kstep s1 s2 \<Longrightarrow> khistory s s2"
  unfolding khistory_def by simp

lemma ok_history: "khistory s s' \<Longrightarrow> knowledge_ok s \<Longrightarrow> knowledge_ok s'"
  unfolding khistory_def by (induction rule: rtranclp_induct) (auto intro: ok_step)

lemma ok_reachable: "khistory empty_knowledge s \<Longrightarrow> knowledge_ok s"
  using ok_history ok_empty by blast

end
