(* ===== verification/Index_Pipeline.thy ===== *)
theory Index_Pipeline
  imports Chunking Knowledge_Safety
begin

text \<open>
  The index worker (\<open>packages/knowledge/src/index-pipeline.ts\<close>, \<open>embedder.ts\<close>, \<open>vector.ts\<close> and
  the batch of \<open>index-loop.ts\<close>): one claimed document through chunking, embedding and the
  replacement of its chunks, and one batch of documents. The embedder is a parameter that may
  answer differently each time it is asked. At each awaited call the others get a turn: sinks,
  other workers and other slots of this worker commit to the store, the clock moves, the worker
  may be told to stop, and the call may fail.
\<close>

section \<open>Embeddings\<close>

text \<open>A number of a vector is its decimal text; there is none for one that is not finite.\<close>

type_synonym embedding_vector = "string option list"

text \<open>What is thrown: the properties that are looked at.\<close>

datatype call_error = Call_Error (ce_message: string) (ce_name: "string option") (ce_status: "int option")
  (ce_statusCode: "int option") (ce_code: "string option") (ce_cause: "string option") (ce_retryable: bool)
  (ce_lastError: "call_error option")

definition plain_error :: "string \<Rightarrow> call_error" where
  "plain_error message = Call_Error message (Some ''Error'') None None None None False None"

record embedder =
  em_model :: string
  em_dimensions :: nat
  em_documents :: "nat \<Rightarrow> string list \<Rightarrow> string \<Rightarrow> call_error + embedding_vector list"

definition TEXTS_PER_EMBEDDING_CALL :: nat where "TEXTS_PER_EMBEDDING_CALL = 100"

fun find_not_finite :: "nat \<Rightarrow> embedding_vector \<Rightarrow> nat option" where
  "find_not_finite i [] = None"
| "find_not_finite i (None # vs) = Some i"
| "find_not_finite i (Some t # vs) = find_not_finite (i + 1) vs"

definition toPgVector :: "embedding_vector \<Rightarrow> string + string" where
  "toPgVector v = (case find_not_finite 0 v of
     Some i \<Rightarrow> Inl (''embedding value at '' @ show_nat i @ '' is not finite'')
   | None \<Rightarrow> Inr (''['' @ join '','' (map the v) @ '']''))"

definition assertDimensions :: "embedding_vector list \<Rightarrow> nat \<Rightarrow> string option" where
  "assertDimensions vectors expected = (case find_first (\<lambda>v. length v \<noteq> expected) vectors of
     None \<Rightarrow> None
   | Some v \<Rightarrow> Some (''embedding has '' @ show_nat (length v) @ '' dimensions, expected '' @ show_nat expected))"

definition RETRYABLE_CODES :: "string list" where
  "RETRYABLE_CODES = [''ECONNRESET'', ''ETIMEDOUT'', ''ECONNREFUSED'', ''EAI_AGAIN'', ''EPIPE'']"

definition judge_error :: "call_error \<Rightarrow> bool" where
  "judge_error e =
     (case (case ce_status e of Some n \<Rightarrow> Some n | None \<Rightarrow> ce_statusCode e) of
        Some n \<Rightarrow> n = 429 \<or> n = 408 \<or> n \<ge> 500
      | None \<Rightarrow> (case (case ce_code e of Some c \<Rightarrow> Some c | None \<Rightarrow> ce_cause e) of
            Some c \<Rightarrow> c \<in> set RETRYABLE_CODES | None \<Rightarrow> False)
          \<or> ce_name e = Some ''AI_APICallError'' \<and> ce_retryable e)"

fun isRetryableEmbeddingError :: "call_error \<Rightarrow> bool" where
  "isRetryableEmbeddingError (Call_Error message name status statusCode code cause retryable lastError) =
     (case lastError of
        Some e \<Rightarrow> if name = Some ''AI_RetryError'' then isRetryableEmbeddingError e
          else judge_error (Call_Error message name status statusCode code cause retryable lastError)
      | None \<Rightarrow> judge_error (Call_Error message name status statusCode code cause retryable lastError))"

section \<open>The world of a worker\<close>

record ix_world =
  xw_store :: knowledge_store
  xw_now :: int
  xw_ticks :: "ix_tick list"
  xw_stopping :: bool
  xw_asked :: "string list list"
  xw_progressAt :: int

datatype pipe_error = Claim_Lost | Failed_With call_error

type_synonym 'a ix_act = "ix_world \<Rightarrow> (pipe_error + 'a) \<times> ix_world"

definition ix_return :: "'a \<Rightarrow> 'a ix_act" where
  "ix_return x w = (Inr x, w)"

definition ix_throw :: "pipe_error \<Rightarrow> 'a ix_act" where
  "ix_throw e w = (Inl e, w)"

definition ix_bind :: "'a ix_act \<Rightarrow> ('a \<Rightarrow> 'b ix_act) \<Rightarrow> 'b ix_act" where
  "ix_bind m f w = (case m w of (Inl e, w1) \<Rightarrow> (Inl e, w1) | (Inr x, w1) \<Rightarrow> f x w1)"

definition ix_turn :: "ix_world \<Rightarrow> string option \<times> ix_world" where
  "ix_turn w = (case xw_ticks w of
     [] \<Rightarrow> (None, w)
   | t # ts \<Rightarrow> (xt_fails t, w\<lparr>xw_store := xt_commits t (xw_store w), xw_now := xt_now t, xw_ticks := ts,
       xw_stopping := (xw_stopping w \<or> xt_stop t)\<rparr>))"

definition ix_query :: "(int \<Rightarrow> knowledge_store \<Rightarrow> 'a \<times> knowledge_store) \<Rightarrow> 'a ix_act" where
  "ix_query f w = (case ix_turn w of
     (Some message, w1) \<Rightarrow> (Inl (Failed_With (plain_error message)), w1)
   | (None, w1) \<Rightarrow> (case f (xw_now w1) (xw_store w1) of (x, s) \<Rightarrow> (Inr x, w1\<lparr>xw_store := s\<rparr>)))"

definition progress :: "ix_world \<Rightarrow> ix_world" where
  "progress w = w\<lparr>xw_progressAt := xw_now w\<rparr>"

text \<open>The wait before a retry: the stop signal ends it with the signal's reason.\<close>

definition defaultSleep :: "int \<Rightarrow> unit ix_act" where
  "defaultSleep ms w =
     (if xw_stopping w then (Inl (Failed_With (plain_error ''the worker is stopping'')), w)
      else (case ix_turn w of (_, w1) \<Rightarrow>
        if xw_stopping w1 then (Inl (Failed_With (plain_error ''the worker is stopping'')), w1) else (Inr (), w1)))"

text \<open>The attempts after the current one, and the delay before the next.\<close>

fun retry :: "nat \<Rightarrow> int \<Rightarrow> (call_error \<Rightarrow> ix_world \<Rightarrow> bool) \<Rightarrow> unit ix_act \<Rightarrow> 'a ix_act \<Rightarrow> 'a ix_act" where
  "retry 0 delay isRetryable beforeRetry fn w = fn w"
| "retry (Suc k) delay isRetryable beforeRetry fn w = (case fn w of
     (Inr x, w1) \<Rightarrow> (Inr x, w1)
   | (Inl Claim_Lost, w1) \<Rightarrow> (Inl Claim_Lost, w1)
   | (Inl (Failed_With e), w1) \<Rightarrow>
       if \<not> isRetryable e w1 then (Inl (Failed_With e), w1)
       else ix_bind (defaultSleep delay) (\<lambda>_. ix_bind beforeRetry (\<lambda>_.
         retry k (2 * delay) isRetryable beforeRetry fn)) w1)"

definition withRetry :: "(call_error \<Rightarrow> ix_world \<Rightarrow> bool) \<Rightarrow> unit ix_act \<Rightarrow> 'a ix_act \<Rightarrow> 'a ix_act" where
  "withRetry isRetryable beforeRetry fn = retry 4 500 isRetryable beforeRetry fn"

section \<open>One document\<close>

datatype index_outcome = Out_Indexed | Out_Unchanged | Out_Skipped | Out_Superseded

record index_deps =
  ix_embedder :: embedder
  ix_chunking :: chunking_options
  ix_version :: nat
  ix_containerNameOf :: "nat \<Rightarrow> knowledge_store \<Rightarrow> string"
  ix_sha256 :: "string \<Rightarrow> string"
  ix_crumb :: string

definition stillClaimed :: "nat \<Rightarrow> string \<Rightarrow> unit ix_act" where
  "stillClaimed i contentHash = ix_bind (ix_query (keepClaim i contentHash)) (\<lambda>held w.
     if held then (Inr (), progress w) else (Inl Claim_Lost, w))"

definition draft_text :: "chunk_draft \<Rightarrow> string" where
  "draft_text d = cf_prefix d @ [CHR 0x0A] @ cf_text d"

definition embed_request :: "embedder \<Rightarrow> string list \<Rightarrow> string \<Rightarrow> embedding_vector list ix_act" where
  "embed_request emb texts title w = (case ix_turn w of (_, w1) \<Rightarrow>
     (case em_documents emb (length (xw_asked w1)) texts title of
        Inl e \<Rightarrow> (Inl (Failed_With e), w1\<lparr>xw_asked := xw_asked w1 @ [texts]\<rparr>)
      | Inr vs \<Rightarrow> (Inr vs, w1\<lparr>xw_asked := xw_asked w1 @ [texts]\<rparr>)))"

function slices :: "'a list \<Rightarrow> 'a list list" where
  "slices xs = (if xs = [] then [] else take TEXTS_PER_EMBEDDING_CALL xs # slices (drop TEXTS_PER_EMBEDDING_CALL xs))"
  by pat_completeness auto
termination by (relation "measure length") (auto simp: TEXTS_PER_EMBEDDING_CALL_def)

declare slices.simps [simp del]

fun store_vectors :: "chunk_draft list \<Rightarrow> embedding_vector list \<Rightarrow> (string \<rightharpoonup> string) \<Rightarrow> string + (string \<rightharpoonup> string)" where
  "store_vectors (d # ds) (v # vs) m = (case toPgVector v of
     Inl message \<Rightarrow> Inl message | Inr e \<Rightarrow> store_vectors ds vs (m(cf_textHash d \<mapsto> e)))"
| "store_vectors _ _ m = Inr m"

definition embed_slice ::
    "index_deps \<Rightarrow> document_row \<Rightarrow> string \<Rightarrow> chunk_draft list \<Rightarrow> (string \<rightharpoonup> string) \<Rightarrow> (string \<rightharpoonup> string) ix_act" where
  "embed_slice deps doc contentHash slice byHash =
     ix_bind (withRetry (\<lambda>e w. \<not> xw_stopping w \<and> isRetryableEmbeddingError e) (stillClaimed (kd_id doc) contentHash)
         (embed_request (ix_embedder deps) (map draft_text slice) (kd_title doc)))
       (\<lambda>vectors.
         if length vectors \<noteq> length slice
         then ix_throw (Failed_With (plain_error
           (''embedder returned '' @ show_nat (length vectors) @ '' vectors for '' @ show_nat (length slice) @ '' chunks'')))
         else (case assertDimensions vectors (em_dimensions (ix_embedder deps)) of
           Some message \<Rightarrow> ix_throw (Failed_With (plain_error message))
         | None \<Rightarrow> (case store_vectors slice vectors byHash of
             Inl message \<Rightarrow> ix_throw (Failed_With (plain_error message)) | Inr m \<Rightarrow> ix_return m)))"

fun embed_slices ::
    "index_deps \<Rightarrow> document_row \<Rightarrow> string \<Rightarrow> bool \<Rightarrow> chunk_draft list list \<Rightarrow> (string \<rightharpoonup> string) \<Rightarrow> (string \<rightharpoonup> string) ix_act" where
  "embed_slices deps doc contentHash first [] byHash = ix_return byHash"
| "embed_slices deps doc contentHash first (slice # rest) byHash =
     ix_bind (if first then ix_return () else stillClaimed (kd_id doc) contentHash) (\<lambda>_.
       ix_bind (embed_slice deps doc contentHash slice byHash) (embed_slices deps doc contentHash False rest))"

text \<open>\<open>byHash.get(h)!\<close> is undefined for a hash without a vector, which the insert would refuse; see \<open>every_chunk_embedded\<close>.\<close>

definition stored_chunk :: "string \<Rightarrow> (string \<rightharpoonup> string) \<Rightarrow> chunk_draft \<Rightarrow> stored_chunk_input" where
  "stored_chunk model byHash d = \<lparr>ch_seq = cf_seq d, ch_segmentKeys = cf_segmentKeys d, ch_url = cf_url d,
     ch_occurredAt = cf_occurredAt d, ch_prefix = cf_prefix d, ch_text = cf_text d, ch_textHash = cf_textHash d,
     ch_tokens = cf_tokens d, ch_embedding = (case byHash (cf_textHash d) of Some e \<Rightarrow> e | None \<Rightarrow> []), ch_model = model\<rparr>"

definition write_chunks :: "index_deps \<Rightarrow> document_row \<Rightarrow> string \<Rightarrow> chunk_draft list \<Rightarrow> (string \<rightharpoonup> string) \<Rightarrow> index_outcome ix_act" where
  "write_chunks deps doc contentHash drafts byHash =
     ix_bind (ix_query (replaceChunks (kd_id doc) (map (stored_chunk (em_model (ix_embedder deps)) byHash) drafts) contentHash (ix_version deps)))
       (\<lambda>r. case r of
          Inr True \<Rightarrow> ix_return Out_Indexed
        | Inr False \<Rightarrow> ix_return Out_Superseded
        | Inl _ \<Rightarrow> ix_throw (Failed_With (plain_error ''duplicate key value violates unique constraint'')))"

definition index_drafts :: "index_deps \<Rightarrow> document_row \<Rightarrow> string \<Rightarrow> chunk_draft list \<Rightarrow> index_outcome ix_act" where
  "index_drafts deps doc contentHash drafts =
     ix_bind (ix_query (\<lambda>_ s. (existingChunkEmbeddings (kd_id doc) (em_model (ix_embedder deps)) s, s))) (\<lambda>reusable w.
       (case embed_slices deps doc contentHash True (slices (filter (\<lambda>d. cf_textHash d \<notin> dom reusable) drafts)) reusable w of
          (Inl Claim_Lost, w1) \<Rightarrow> (Inr Out_Superseded, w1)
        | (Inl e, w1) \<Rightarrow> (Inl e, w1)
        | (Inr byHash, w1) \<Rightarrow> write_chunks deps doc contentHash drafts byHash w1))"

definition chunkable :: "document_row \<Rightarrow> string \<Rightarrow> chunkable_document" where
  "chunkable doc name = \<lparr>ck_kind = kd_kind doc, ck_title = kd_title doc, ck_segments = kd_segments doc,
     ck_attributes = kd_attributes doc, ck_containerName = name\<rparr>"

definition nothing_to_index :: "document_row \<Rightarrow> bool" where
  "nothing_to_index doc = (kd_deletedAt doc \<noteq> None \<or> kd_restricted doc \<or> kd_segments doc = [] \<or> \<not> truthy_text (kd_contentHash doc))"

definition up_to_date :: "index_deps \<Rightarrow> document_row \<Rightarrow> bool" where
  "up_to_date deps doc = (kd_indexedHash doc = kd_contentHash doc \<and> kd_indexVersion doc = Some (ix_version deps))"

text \<open>\<open>None\<close>: the cutting into chunks does not end (a ceiling of 0, which the configuration refuses).\<close>

definition indexDocument :: "index_deps \<Rightarrow> document_row \<Rightarrow> ix_world \<Rightarrow> ((pipe_error + index_outcome) \<times> ix_world) option" where
  "indexDocument deps doc w =
     (if nothing_to_index doc
      then Some (ix_bind (ix_query (\<lambda>now s. ((), markSkipped (kd_id doc) now s))) (\<lambda>_. ix_return Out_Skipped) w)
      else if up_to_date deps doc
      then Some (ix_bind (ix_query (\<lambda>now s. ((), markUnchanged (kd_id doc) (ix_version deps) now s))) (\<lambda>_. ix_return Out_Unchanged) w)
      else (case ix_query (\<lambda>_ s. (ix_containerNameOf deps (kd_container doc) s, s)) w of
          (Inl e, w1) \<Rightarrow> Some (Inl e, w1)
        | (Inr name, w1) \<Rightarrow> (case chunkDocument (ix_sha256 deps) (ix_crumb deps) (chunkable doc name) (ix_chunking deps) of
              None \<Rightarrow> None
            | Some drafts \<Rightarrow> Some (index_drafts deps doc (text_or_empty (kd_contentHash doc)) drafts w1))))"

section \<open>A batch\<close>

record loop_stats =
  ls_claimed :: nat
  ls_indexed :: nat
  ls_unchanged :: nat
  ls_skipped :: nat
  ls_superseded :: nat
  ls_failed :: nat

definition count_outcome :: "index_outcome \<Rightarrow> loop_stats \<Rightarrow> loop_stats" where
  "count_outcome out st = (case out of
     Out_Indexed \<Rightarrow> st\<lparr>ls_indexed := ls_indexed st + 1\<rparr>
   | Out_Unchanged \<Rightarrow> st\<lparr>ls_unchanged := ls_unchanged st + 1\<rparr>
   | Out_Skipped \<Rightarrow> st\<lparr>ls_skipped := ls_skipped st + 1\<rparr>
   | Out_Superseded \<Rightarrow> st\<lparr>ls_superseded := ls_superseded st + 1\<rparr>)"

text \<open>A failure to hand back or to record a failure is only logged.\<close>

definition handBack :: "document_row \<Rightarrow> ix_world \<Rightarrow> ix_world" where
  "handBack doc w = snd (ix_query (\<lambda>_ s. ((), releaseClaim (kd_id doc) s)) w)"

definition error_message :: "pipe_error \<Rightarrow> string" where
  "error_message e = (case e of Failed_With c \<Rightarrow> ce_message c | Claim_Lost \<Rightarrow> [])"

definition run_document :: "index_deps \<Rightarrow> document_row \<Rightarrow> loop_stats \<times> ix_world \<Rightarrow> (loop_stats \<times> ix_world) option" where
  "run_document deps doc st = (case st of (stats, w) \<Rightarrow>
     (if xw_stopping w then Some (stats, handBack doc w)
      else (case indexDocument deps doc w of
          None \<Rightarrow> None
        | Some (Inr out, w1) \<Rightarrow> Some (count_outcome out stats, progress w1)
        | Some (Inl e, w1) \<Rightarrow>
            if xw_stopping w1 then Some (stats, handBack doc w1)
            else Some (stats\<lparr>ls_failed := ls_failed stats + 1\<rparr>,
              snd (ix_query (\<lambda>now s. ((), markFailed (kd_id doc) (error_message e) now s)) (progress w1))))))"

fun run_documents :: "index_deps \<Rightarrow> document_row list \<Rightarrow> loop_stats \<times> ix_world \<Rightarrow> (loop_stats \<times> ix_world) option" where
  "run_documents deps [] st = Some st"
| "run_documents deps (d # ds) st = Option.bind (run_document deps d st) (run_documents deps ds)"

definition runOnce :: "index_deps \<Rightarrow> nat \<Rightarrow> ix_world \<Rightarrow> ((pipe_error + loop_stats) \<times> ix_world) option" where
  "runOnce deps batchSize w = (case ix_query (claimPending batchSize CLAIM_STALE_MS) w of
     (Inl e, w1) \<Rightarrow> Some (Inl e, w1)
   | (Inr docs, w1) \<Rightarrow> map_option (\<lambda>(stats, w2). (Inr stats, w2))
       (run_documents deps docs (\<lparr>ls_claimed = length docs, ls_indexed = 0, ls_unchanged = 0, ls_skipped = 0, ls_superseded = 0,
          ls_failed = 0\<rparr>, progress w1)))"

end
