(* ===== verification/Chunking_Properties.thy ===== *)
theory Chunking_Properties
  imports Chunking "HOL-Library.Sublist"
begin

text \<open>
  Cutting a document into chunks ends, loses no visible character, and keeps every chunk within
  the limits.
\<close>

section \<open>What can be seen of a text\<close>

definition visible :: "nat list \<Rightarrow> nat list" where
  "visible s = filter (\<lambda>n. \<not> is_white n) s"

definition visible_text :: "string \<Rightarrow> nat list" where
  "visible_text s = visible (code_units s)"

lemma visible_append [simp]: "visible (a @ b) = visible a @ visible b" "visible [] = []"
  "visible (x # s) = (if is_white x then visible s else x # visible s)"
  by (simp_all add: visible_def)

lemma visible_concat: "visible (concat xs) = concat (map visible xs)"
  by (induction xs) auto

lemma visible_dropWhile: "(\<And>x. p x \<Longrightarrow> is_white x) \<Longrightarrow> visible (dropWhile p s) = visible s"
  by (induction s) auto

lemma visible_rev: "visible (rev s) = rev (visible s)"
  by (simp add: visible_def rev_filter)

lemma visible_trim [simp]: "visible (units_trim s) = visible s"
  by (simp add: units_trim_def visible_rev visible_dropWhile)

lemma length_trim: "length (units_trim s) \<le> length s"
  unfolding units_trim_def by (metis length_rev length_dropWhile_le order_trans)

lemma set_trim: "set (units_trim s) \<subseteq> set s"
  using set_dropWhileD [of _ is_white s] set_dropWhileD [of _ is_white "rev (dropWhile is_white s)"] unfolding units_trim_def by fastforce

lemma white_newline [simp]: "is_white 10"
  by (simp add: is_white_def)

section \<open>Cutting\<close>

lemma visible_paragraphs: "visible (concat (paragraphs acc s)) = visible (rev acc @ s)"
  by (induction acc s rule: paragraphs.induct) (simp_all add: visible_dropWhile [of "\<lambda>n. n = 10"])

lemma visible_sentences: "visible (concat (sentences acc s)) = visible (rev acc @ s)"
  by (induction acc s rule: sentences.induct) (auto simp: visible_dropWhile)

lemma visible_units: "visible (concat (units_of n s)) = visible s"
proof -
  have "visible (concat (if length p \<le> n then [p] else sentences [] p)) = visible p" for p
    using visible_sentences [of "[]" p] by simp
  then have "visible (concat (concat (map (\<lambda>p. if length p \<le> n then [p] else sentences [] p) ps))) = visible (concat ps)" for ps
    by (induction ps) simp_all
  then have "visible (concat (units_of n s)) = visible (concat (paragraphs [] s))" by (simp add: units_of_def)
  then show ?thesis by (simp add: visible_paragraphs)
qed

lemma set_paragraphs: "\<Union> (set ` set (paragraphs acc s)) \<subseteq> set acc \<union> set s"
proof (induction acc s rule: paragraphs.induct)
  case (2 acc c cs)
  then show ?case using set_dropWhileD [of _ "\<lambda>n. n = 10" cs] by (auto split: if_splits)
qed simp

lemma set_sentences: "\<Union> (set ` set (sentences acc s)) \<subseteq> set acc \<union> set s"
proof (induction acc s rule: sentences.induct)
  case (2 acc c cs)
  then show ?case using set_dropWhileD [of _ is_white cs] by (auto split: if_splits)
qed simp

lemma set_units: "u \<in> set (units_of n s) \<Longrightarrow> set u \<subseteq> set s"
  using set_paragraphs [of "[]" s] set_sentences [of "[]"] by (fastforce simp: units_of_def split: if_splits)

lemma cut_at_bounds: "2 \<le> n \<Longrightarrow> u \<noteq> [] \<Longrightarrow> 0 < cut_at n u \<and> cut_at n u \<le> n \<and> cut_at n u \<le> length u"
  by (cases u) (auto simp: cut_at_def Let_def)

text \<open>A cut does not separate the two halves of a surrogate pair.\<close>

definition low_surrogate :: "nat \<Rightarrow> bool" where
  "low_surrogate n = (0xDC00 \<le> n \<and> n \<le> 0xDFFF)"

lemma cut_keeps_pairs:
  assumes "0 < cut_at n u" "cut_at n u < length u"
  shows "\<not> (high_surrogate (u ! (cut_at n u - 1)) \<and> low_surrogate (u ! cut_at n u))"
proof (cases "min n (length u) < length u \<and> 0 < min n (length u) \<and> high_surrogate (u ! (min n (length u) - 1))")
  case True
  then have "u ! cut_at n u = u ! (min n (length u) - 1)" by (simp add: cut_at_def Let_def)
  then show ?thesis using True by (auto simp: high_surrogate_def low_surrogate_def)
next
  case False
  then have "cut_at n u = min n (length u)" unfolding cut_at_def Let_def by (rule if_not_P)
  then show ?thesis using False assms by auto
qed

lemma hard_cut_total:
  assumes "2 \<le> n"
  shows "\<exists>parts. hard_cut n u = Some parts \<and> concat parts = u \<and> (\<forall>p \<in> set parts. length p \<le> n)"
proof (induction u rule: length_induct)
  case (1 u)
  show ?case
  proof (cases "u = []")
    case True
    then show ?thesis by (simp add: hard_cut.simps)
  next
    case False
    then have c: "0 < cut_at n u" "cut_at n u \<le> n" "cut_at n u \<le> length u" using cut_at_bounds [OF assms] by auto
    then have "length (drop (cut_at n u) u) < length u" using False by (cases u) auto
    then obtain parts where "hard_cut n (drop (cut_at n u) u) = Some parts" "concat parts = drop (cut_at n u) u"
      "\<forall>p \<in> set parts. length p \<le> n" using 1 by blast
    then show ?thesis using False c by (subst hard_cut.simps) simp
  qed
qed

text \<open>What holds of the parts and the buffer while the units are added.\<close>

definition cut_ok :: "nat \<Rightarrow> nat set \<Rightarrow> nat list \<Rightarrow> cut_state \<Rightarrow> bool" where
  "cut_ok n A t st \<longleftrightarrow> (\<forall>p \<in> set (fst st). length p \<le> n \<and> set p \<subseteq> insert 10 A) \<and> length (snd st) \<le> n \<and>
     set (snd st) \<subseteq> insert 10 A \<and> visible (concat (fst st) @ snd st) = visible t"

lemma flush_ok: "cut_ok n A t st \<Longrightarrow> cut_ok n A t (flush st) \<and> snd (flush st) = []"
proof (cases st)
  case (Pair out buffer)
  assume ok: "cut_ok n A t st"
  show ?thesis
  proof (cases "units_trim buffer = []")
    case True
    then have "visible buffer = []" by (metis visible_append(2) visible_trim)
    then show ?thesis using ok True Pair by (simp add: flush_def cut_ok_def)
  next
    case False
    have "length (units_trim buffer) \<le> n" "set (units_trim buffer) \<subseteq> insert 10 A"
      using ok Pair length_trim [of buffer] set_trim [of buffer] by (auto simp: cut_ok_def)
    then show ?thesis using ok False Pair by (simp add: flush_def cut_ok_def)
  qed
qed

lemma split_unit_ok:
  assumes "2 \<le> n" "cut_ok n A t st" "set u \<subseteq> A"
  shows "\<exists>st'. split_unit n u st = Some st' \<and> cut_ok n A (t @ u) st'"
proof (cases "length u > n")
  case True
  obtain parts where parts: "hard_cut n u = Some parts" "concat parts = u" "\<forall>p \<in> set parts. length p \<le> n"
    using hard_cut_total [OF assms(1)] by blast
  have "set p \<subseteq> insert 10 A" if "p \<in> set parts" for p
    using that parts(2) assms(3) by fastforce
  then have "cut_ok n A (t @ u) (fst (flush st) @ parts, [])"
    using flush_ok [OF assms(2)] parts by (auto simp: cut_ok_def)
  then show ?thesis using True parts by (simp add: split_unit_def)
next
  case False
  have grown: "cut_ok n A (t @ u) (out, if buffer \<noteq> [] then buffer @ [10, 10] @ u else u)"
    if "cut_ok n A t (out, buffer)" "buffer \<noteq> [] \<Longrightarrow> length (buffer @ [10, 10] @ u) \<le> n" for out buffer
    using that False assms(3) by (auto simp: cut_ok_def)
  show ?thesis
  proof (cases "length (snd st @ [10, 10] @ u) > n")
    case long: True
    obtain out where out: "flush st = (out, [])" "cut_ok n A t (out, [])"
      using flush_ok [OF assms(2)] by (metis prod.collapse)
    have "split_unit n u st = Some (out, u)" using False long out(1) by (simp add: split_unit_def Let_def)
    then show ?thesis using grown [OF out(2)] by simp
  next
    case short: False
    obtain out buffer where st: "st = (out, buffer)" by (metis prod.collapse)
    have "split_unit n u st = Some (out, if buffer \<noteq> [] then buffer @ [10, 10] @ u else u)"
      using False short st by (simp add: split_unit_def Let_def)
    then show ?thesis using grown [of out buffer] assms(2) short st by auto
  qed
qed

lemma split_units_ok:
  assumes "2 \<le> n" "cut_ok n A t st" "\<And>u. u \<in> set us \<Longrightarrow> set u \<subseteq> A"
  shows "\<exists>st'. split_units n us st = Some st' \<and> cut_ok n A (t @ concat us) st'"
  using assms(2,3)
proof (induction us arbitrary: t st)
  case (Cons u us)
  have "set u \<subseteq> A" by (rule Cons.prems(2)) simp
  then obtain st1 where st1: "split_unit n u st = Some st1" "cut_ok n A (t @ u) st1"
    using split_unit_ok [OF assms(1) Cons.prems(1)] by blast
  have "\<exists>st'. split_units n us st1 = Some st' \<and> cut_ok n A ((t @ u) @ concat us) st'"
    by (rule Cons.IH [OF st1(2)]) (rule Cons.prems(2), simp)
  then show ?case using st1(1) by simp
qed simp

lemma splitLongText_ok:
  assumes "0 < m"
  shows "\<exists>parts. splitLongText s m = Some parts \<and> visible (concat parts) = visible s \<and>
    (\<forall>p \<in> set parts. length p \<le> 4 * m \<and> set p \<subseteq> insert 10 (set s))"
proof -
  have "cut_ok (m * 4) (set s) [] ([], [])" by (simp add: cut_ok_def)
  then obtain st where st: "split_units (m * 4) (units_of (m * 4) s) ([], []) = Some st"
    "cut_ok (m * 4) (set s) (concat (units_of (m * 4) s)) st"
    using split_units_ok [of "m * 4" "set s" "[]" "([], [])" "units_of (m * 4) s"] set_units assms by auto
  have "cut_ok (m * 4) (set s) (concat (units_of (m * 4) s)) (flush st) \<and> snd (flush st) = []" by (rule flush_ok [OF st(2)])
  then show ?thesis using st(1) by (auto simp: splitLongText_def cut_ok_def visible_units mult.commute)
qed

section \<open>Packing\<close>

lemma code_units_append [simp]: "code_units (a @ b) = code_units a @ code_units b" "code_units [] = []"
  by (simp_all add: code_units_def)

lemma units_char: "set p \<subseteq> insert 10 (set (code_units t)) \<Longrightarrow> code_units (map char_of p) = p"
proof -
  assume p: "set p \<subseteq> insert 10 (set (code_units t))"
  have "of_char (char_of n :: char) = (n :: nat)" if "n \<in> set p" for n
  proof -
    have "n < 256" using p that by (auto simp: code_units_def)
    then show ?thesis by (simp add: of_char_of)
  qed
  then show ?thesis unfolding code_units_def map_map by (intro map_idI) simp
qed

lemma fit_piece_ok:
  assumes "0 < co_maxChunkTokens options"
  shows "\<exists>ps. fit_piece options p = Some ps \<and> visible_text (concat (map pc_text ps)) = visible_text (pc_text p) \<and>
    (\<forall>q \<in> set ps. estimateTokens (pc_text q) \<le> co_maxChunkTokens options \<and> pc_key q = pc_key p)"
proof (cases "estimateTokens (pc_text p) \<le> co_maxChunkTokens options")
  case True
  then show ?thesis by (simp add: fit_piece_def)
next
  case False
  obtain parts where parts: "splitLongText (code_units (pc_text p)) (co_maxChunkTokens options) = Some parts"
    "visible (concat parts) = visible (code_units (pc_text p))"
    "\<forall>q \<in> set parts. length q \<le> 4 * co_maxChunkTokens options \<and> set q \<subseteq> insert 10 (set (code_units (pc_text p)))"
    using splitLongText_ok [OF assms] by blast
  have same: "map (\<lambda>q. code_units (map char_of q)) parts = parts"
    using parts(3) units_char by (intro map_idI) blast
  have "code_units (concat xs) = concat (map code_units xs)" for xs by (induction xs) simp_all
  then have "code_units (concat (map (map char_of) parts)) = concat parts" using same by (simp add: comp_def)
  moreover have "estimateTokens (map char_of q) \<le> co_maxChunkTokens options" if "q \<in> set parts" for q
    using parts(3) that by (fastforce simp: estimateTokens_def)
  ultimately show ?thesis using False parts(1,2) by (simp add: fit_piece_def visible_text_def comp_def)
qed

lemma fit_pieces_ok:
  assumes "0 < co_maxChunkTokens options"
  shows "\<exists>qs. fit_pieces options ps = Some qs \<and> visible_text (concat (map pc_text qs)) = visible_text (concat (map pc_text ps)) \<and>
    (\<forall>q \<in> set qs. estimateTokens (pc_text q) \<le> co_maxChunkTokens options)"
proof (induction ps)
  case (Cons p ps)
  obtain xs where "fit_piece options p = Some xs" "visible_text (concat (map pc_text xs)) = visible_text (pc_text p)"
    "\<forall>q \<in> set xs. estimateTokens (pc_text q) \<le> co_maxChunkTokens options"
    using fit_piece_ok [OF assms] by blast
  then show ?case using Cons.IH by (auto simp: visible_text_def)
qed simp

text \<open>Windows without what each repeats of the one before it.\<close>

fun spine :: "nat \<Rightarrow> piece list list \<Rightarrow> piece list" where
  "spine overlap [] = []"
| "spine overlap (w # ws) = w @ concat (map (drop overlap) ws)"

lemma spine_snoc: "ws \<noteq> [] \<Longrightarrow> spine overlap (ws @ [w]) = spine overlap ws @ drop overlap w"
  by (cases ws) simp_all

lemma spine_grow:
  "windows = [] \<or> overlap \<le> length current \<Longrightarrow> spine overlap (windows @ [current @ ps]) = spine overlap (windows @ [current]) @ ps"
  by (cases windows) simp_all

lemma carried_length: "current \<noteq> [] \<Longrightarrow> overlap \<le> 1 \<Longrightarrow> length (carried overlap current) = overlap"
  by (cases "length current") (auto simp: carried_def)

lemma pack_covers:
  assumes "overlap \<le> 1" "windows = [] \<or> overlap < length current"
  shows "spine overlap (pack_loop n overlap fitted windows current tokens) = spine overlap (windows @ [current]) @ fitted"
  using assms
proof (induction n overlap fitted windows current tokens rule: pack_loop.induct)
  case (2 n overlap p ps windows current tokens)
  show ?case
  proof (cases "current \<noteq> [] \<and> tokens + piece_tokens p > n")
    case True
    have c: "length (carried overlap current) = overlap" using True "2.prems"(1) by (intro carried_length) auto
    have "spine overlap ((windows @ [current]) @ [carried overlap current @ [p]]) = spine overlap (windows @ [current]) @ [p]"
      using c by (subst spine_snoc) simp_all
    then show ?thesis using "2.IH"(1) [OF True] "2.prems"(1) True c by simp
  next
    case False
    have "spine overlap (windows @ [current @ [p]]) = spine overlap (windows @ [current]) @ [p]"
      using "2.prems"(2) by (intro spine_grow) auto
    moreover have "windows = [] \<or> overlap < length (current @ [p])" using "2.prems"(2) by auto
    ultimately show ?thesis using "2.IH"(2) [OF False] "2.prems"(1) False by auto
  qed
qed auto

lemma weight_bound: "(\<And>p. p \<in> set ps \<Longrightarrow> piece_tokens p \<le> b) \<Longrightarrow> sum_list (map piece_tokens ps) \<le> length ps * b"
  by (induction ps) (auto intro: add_mono)

lemma pack_bounds:
  assumes "\<And>p. p \<in> set fitted \<union> set current \<Longrightarrow> piece_tokens p \<le> b"
    "\<And>w. w \<in> set windows \<Longrightarrow> w \<noteq> [] \<and> sum_list (map piece_tokens w) \<le> max n ((overlap + 1) * b)"
    "tokens = sum_list (map piece_tokens current)" "tokens \<le> max n ((overlap + 1) * b)"
    "w \<in> set (pack_loop n overlap fitted windows current tokens)"
  shows "w \<noteq> [] \<and> sum_list (map piece_tokens w) \<le> max n ((overlap + 1) * b)"
  using assms
proof (induction n overlap fitted windows current tokens rule: pack_loop.induct)
  case (1 n overlap windows current tokens)
  then show ?case by (auto split: if_splits)
next
  case (2 n overlap p ps windows current tokens)
  let ?B = "max n ((overlap + 1) * b)"
  have p: "piece_tokens p \<le> b" using "2.prems"(1) by simp
  show ?case
  proof (cases "current \<noteq> [] \<and> tokens + piece_tokens p > n")
    case True
    have sub: "set (carried overlap current) \<subseteq> set current" "length (carried overlap current) \<le> overlap"
      by (auto simp: carried_def dest: in_set_dropD)
    then have "sum_list (map piece_tokens (carried overlap current)) \<le> length (carried overlap current) * b"
      using "2.prems"(1) by (intro weight_bound) auto
    also have "\<dots> \<le> overlap * b" using sub(2) by simp
    finally have "sum_list (map piece_tokens (carried overlap current)) + piece_tokens p \<le> ?B" using p by simp
    then show ?thesis using "2.IH"(1) [OF True] "2.prems" True sub(1) by (auto simp: subset_iff)
  next
    case False
    then have "tokens + piece_tokens p \<le> ?B" using p "2.prems"(3) by (auto simp: max_def)
    then show ?thesis using "2.IH"(2) [OF False] "2.prems" False by auto
  qed
qed

text \<open>The joined text of a window.\<close>

lemma visible_join: "visible_text (join [CHR 0x0A] ts) = visible_text (concat ts)"
  by (induction "[CHR 0x0A]" ts rule: join.induct) (simp_all add: visible_text_def code_units_def)

lemma join_tokens: "ts \<noteq> [] \<Longrightarrow> estimateTokens (join [CHR 0x0A] ts) + 1 \<le> sum_list (map (\<lambda>t. estimateTokens t + 1) ts)"
proof (induction "[CHR 0x0A]" ts rule: join.induct)
  case (3 x y ys)
  have "estimateTokens (x @ [CHR 0x0A] @ t) \<le> estimateTokens x + estimateTokens t + 1" for t
    by (simp add: estimateTokens_def)
  then show ?case using 3 by (fastforce intro: order_trans)
qed simp_all

section \<open>Groups\<close>

definition pieces_of :: "piece_group list \<Rightarrow> piece list" where
  "pieces_of gs = concat (map pg_pieces gs)"

lemma pieces_of_append [simp]: "pieces_of (gs @ [g]) = pieces_of gs @ pg_pieces g" "pieces_of [] = []"
  "pieces_of (g # gs) = pg_pieces g @ pieces_of gs"
  by (simp_all add: pieces_of_def)

lemma add_piece_facts:
  assumes "gs \<noteq> []"
  shows "pieces_of (add_piece p gs) = pieces_of gs @ [p]" "map pg_overlap (add_piece p gs) = map pg_overlap gs"
proof -
  obtain xs x where gs: "gs = xs @ [x]" using assms by (metis append_butlast_last_id)
  show "pieces_of (add_piece p gs) = pieces_of gs @ [p]" "map pg_overlap (add_piece p gs) = map pg_overlap gs"
    by (simp_all add: gs add_piece_def)
qed

text \<open>The pieces of a group list are the rendered segments, in order; only threads overlap.\<close>

definition renders :: "document_segment list \<Rightarrow> piece list \<Rightarrow> bool" where
  "renders segments ps \<longleftrightarrow> list_all2 (\<lambda>g p. pc_key p = seg_key g \<and> suffix (seg_text g) (pc_text p)) segments ps"

lemma heading_pieces:
  "pieces_of (fst (fold (heading_step crumb doc) gs st)) = pieces_of (fst st) @ map (\<lambda>g. piece_of g (seg_text g)) gs \<and>
   ((\<forall>g \<in> set (fst st). pg_overlap g = 0) \<longrightarrow> (\<forall>g \<in> set (fst (fold (heading_step crumb doc) gs st)). pg_overlap g = 0))"
proof (induction gs arbitrary: st)
  case (Cons g gs)
  obtain groups current where st: "st = (groups, current)" by (metis prod.collapse)
  define opened where "opened = (if current \<noteq> Some (join crumb (heading_path g)) \<or> groups = []
    then groups @ [\<lparr>pg_prefix = join crumb (ck_title doc # heading_path g), pg_pieces = [], pg_overlap = 0\<rparr>] else groups)"
  have step: "fst (heading_step crumb doc g st) = add_piece (piece_of g (seg_text g)) opened"
    by (simp add: st heading_step_def opened_def Let_def)
  have o: "opened \<noteq> []" "pieces_of opened = pieces_of groups" "set (map pg_overlap opened) \<subseteq> insert 0 (set (map pg_overlap groups))"
    by (auto simp: opened_def)
  have "set (map pg_overlap (fst (heading_step crumb doc g st))) \<subseteq> insert 0 (set (map pg_overlap groups))"
    unfolding step add_piece_facts(2) [OF o(1)] by (rule o(3))
  then have "(\<forall>g \<in> set groups. pg_overlap g = 0) \<longrightarrow> (\<forall>h \<in> set (fst (heading_step crumb doc g st)). pg_overlap h = 0)" by auto
  moreover have "pieces_of (fst (heading_step crumb doc g st)) = pieces_of groups @ [piece_of g (seg_text g)]"
    unfolding step add_piece_facts(1) [OF o(1)] o(2) by (rule refl)
  ultimately show ?case using Cons.IH [of "heading_step crumb doc g st"] by (simp add: st)
qed simp

lemma day_pieces:
  "pieces_of (fst (fold (day_step pre gap) gs st)) = pieces_of (fst st) @ map (\<lambda>g. piece_of g (renderAuthored g Style_Time)) gs \<and>
   ((\<forall>g \<in> set (fst st). pg_overlap g = 0) \<longrightarrow> (\<forall>g \<in> set (fst (fold (day_step pre gap) gs st)). pg_overlap g = 0))"
proof (induction gs arbitrary: st)
  case (Cons g gs)
  obtain groups lastAt where st: "st = (groups, lastAt)" by (metis prod.collapse)
  define opened where "opened = (if groups = [] \<or> pause_between gap lastAt (message_at g)
    then groups @ [\<lparr>pg_prefix = pre, pg_pieces = [], pg_overlap = 0\<rparr>] else groups)"
  have step: "fst (day_step pre gap g st) = add_piece (piece_of g (renderAuthored g Style_Time)) opened"
    by (simp add: st day_step_def opened_def Let_def)
  have o: "opened \<noteq> []" "pieces_of opened = pieces_of groups" "set (map pg_overlap opened) \<subseteq> insert 0 (set (map pg_overlap groups))"
    by (auto simp: opened_def)
  have "set (map pg_overlap (fst (day_step pre gap g st))) \<subseteq> insert 0 (set (map pg_overlap groups))"
    unfolding step add_piece_facts(2) [OF o(1)] by (rule o(3))
  then have "(\<forall>g \<in> set groups. pg_overlap g = 0) \<longrightarrow> (\<forall>h \<in> set (fst (day_step pre gap g st)). pg_overlap h = 0)" by auto
  moreover have "pieces_of (fst (day_step pre gap g st)) = pieces_of groups @ [piece_of g (renderAuthored g Style_Time)]"
    unfolding step add_piece_facts(1) [OF o(1)] o(2) by (rule refl)
  ultimately show ?case using Cons.IH [of "day_step pre gap g st"] by (simp add: st)
qed simp

lemma rendered_suffix: "suffix (seg_text g) (renderAuthored g style)"
  by (auto simp: renderAuthored_def Let_def intro!: suffix_ConsI suffix_appendI split: stamp_style.split)

lemma renders_map: "(\<And>g. suffix (seg_text g) (f g)) \<Longrightarrow> renders gs (map (\<lambda>g. piece_of g (f g)) gs)"
  by (simp add: renders_def list_all2_conv_all_nth piece_of_def)

definition paged :: "document_kind \<Rightarrow> bool" where
  "paged k \<longleftrightarrow> k = Confluence_Page \<or> k = Github_Doc"

lemma group_facts:
  "renders (ck_segments doc) (pieces_of (groupSegments crumb doc options))"
  "\<forall>g \<in> set (groupSegments crumb doc options). pg_overlap g = (if ck_kind doc = Slack_Thread then 1 else 0)"
  "paged (ck_kind doc) \<Longrightarrow> map pc_text (pieces_of (groupSegments crumb doc options)) = map seg_text (ck_segments doc)"
proof -
  note h = heading_pieces [of crumb doc "ck_segments doc" "([], None)"]
  have page: "pieces_of (groupByHeading crumb doc) = map (\<lambda>g. piece_of g (seg_text g)) (ck_segments doc)"
    "\<forall>g \<in> set (groupByHeading crumb doc). pg_overlap g = 0"
    using h by (simp_all add: groupByHeading_def)
  have issue: "renders (ck_segments doc) (pieces_of (groupIssue doc)) \<and> (\<forall>g \<in> set (groupIssue doc). pg_overlap g = 0)"
  proof (cases "ck_segments doc")
    case (Cons header comments)
    have "renders comments (map (\<lambda>c. piece_of c (renderAuthored c Style_Date_Time)) comments)"
      by (rule renders_map) (rule rendered_suffix)
    then show ?thesis by (simp add: groupIssue_def Cons renders_def piece_of_def)
  qed (simp add: groupIssue_def renders_def)
  have thread: "renders (ck_segments doc) (pieces_of (groupThread doc))" "\<forall>g \<in> set (groupThread doc). pg_overlap g = 1"
    by (auto simp: groupThread_def Let_def intro!: renders_map rendered_suffix)
  have day: "renders (ck_segments doc) (pieces_of (groupChannelDay doc gap))" "\<forall>g \<in> set (groupChannelDay doc gap). pg_overlap g = 0" for gap
    using day_pieces [of _ gap "ck_segments doc" "([], None)"] renders_map [of "\<lambda>g. renderAuthored g Style_Time", OF rendered_suffix]
    by (simp_all add: groupChannelDay_def Let_def)
  have rpage: "renders (ck_segments doc) (pieces_of (groupByHeading crumb doc))" unfolding page by (rule renders_map) simp
  show "renders (ck_segments doc) (pieces_of (groupSegments crumb doc options))"
    using rpage issue thread day by (simp add: groupSegments_def split: document_kind.split)
  show "\<forall>g \<in> set (groupSegments crumb doc options). pg_overlap g = (if ck_kind doc = Slack_Thread then 1 else 0)"
    using page issue thread day by (simp add: groupSegments_def split: document_kind.split)
  assume "paged (ck_kind doc)"
  then show "map pc_text (pieces_of (groupSegments crumb doc options)) = map seg_text (ck_segments doc)"
    using page(1) by (auto simp: groupSegments_def paged_def piece_of_def)
qed

lemma renders_subseq: "renders gs ps \<Longrightarrow> subseq (visible_text (concat (map seg_text gs))) (visible_text (concat (map pc_text ps)))"
  unfolding renders_def
proof (induction rule: list_all2_induct)
  case (Cons g gs p ps)
  have "subseq (visible_text (seg_text g)) (visible_text (pc_text p))"
    using Cons(1) by (auto simp: suffix_def visible_text_def)
  then show ?case using Cons.IH by (simp add: visible_text_def list_emb_append_mono)
qed simp

section \<open>Whole documents\<close>

lemma subseq_spine: "subseq (spine overlap ws) (concat ws)"
proof (cases ws)
  case (Cons w rest)
  have "subseq (drop overlap v) v" for v :: "piece list" by (rule suffix_imp_subseq [OF suffix_drop])
  then have "subseq (concat (map (drop overlap) rest)) (concat rest)"
    by (induction rest) (simp_all add: list_emb_append_mono)
  then show ?thesis by (simp add: Cons list_emb_append_mono)
qed simp

lemma spine_0: "spine 0 ws = concat ws"
  by (cases ws) simp_all

lemma visible_subseq: "subseq ps qs \<Longrightarrow> subseq (visible_text (concat (map pc_text ps))) (visible_text (concat (map pc_text qs)))"
proof (induction rule: list_emb.induct)
  case (list_emb_Cons xs ys y)
  then show ?case by (auto simp: visible_text_def intro: list_emb_append2)
qed (simp_all add: visible_text_def list_emb_append_mono)

definition window_ok :: "chunking_options \<Rightarrow> nat \<Rightarrow> piece list \<Rightarrow> bool" where
  "window_ok options overlap w \<longleftrightarrow> w \<noteq> [] \<and>
     sum_list (map piece_tokens w) \<le> max (co_chunkTokens options) ((overlap + 1) * (co_maxChunkTokens options + 1))"

lemma pack_ok:
  assumes "0 < co_maxChunkTokens options" "overlap \<le> 1"
  shows "\<exists>ws. pack ps options overlap = Some ws \<and> (\<forall>w \<in> set ws. window_ok options overlap w) \<and>
    subseq (visible_text (concat (map pc_text ps))) (visible_text (concat (map pc_text (concat ws)))) \<and>
    (overlap = 0 \<longrightarrow> visible_text (concat (map pc_text (concat ws))) = visible_text (concat (map pc_text ps)))"
proof -
  obtain qs where qs: "fit_pieces options ps = Some qs" "visible_text (concat (map pc_text qs)) = visible_text (concat (map pc_text ps))"
    "\<forall>q \<in> set qs. estimateTokens (pc_text q) \<le> co_maxChunkTokens options"
    using fit_pieces_ok [OF assms(1)] by blast
  let ?ws = "pack_loop (co_chunkTokens options) overlap qs [] [] 0"
  have covers: "spine overlap ?ws = qs" using pack_covers [OF assms(2), of "[]" "[]"] by simp
  have bounds: "window_ok options overlap w" if "w \<in> set ?ws" for w
    using pack_bounds [OF _ _ _ _ that, of "co_maxChunkTokens options + 1"] qs(3)
    by (simp add: window_ok_def piece_tokens_def)
  have "subseq (visible_text (concat (map pc_text qs))) (visible_text (concat (map pc_text (concat ?ws))))"
    using visible_subseq [OF subseq_spine [of overlap ?ws]] unfolding covers .
  moreover have "overlap = 0 \<longrightarrow> concat ?ws = qs" using covers spine_0 by metis
  ultimately show ?thesis using qs(1,2) bounds by (simp add: pack_def)
qed

lemma visible_text_append [simp]: "visible_text (a @ b) = visible_text a @ visible_text b" "visible_text [] = []"
  by (simp_all add: visible_text_def)

lemma group_windows_ok:
  assumes "0 < co_maxChunkTokens options" "\<And>g. g \<in> set gs \<Longrightarrow> pg_overlap g = overlap" "overlap \<le> 1"
  shows "\<exists>ws. group_windows options gs = Some ws \<and> (\<forall>w \<in> set ws. window_ok options overlap (snd w)) \<and>
    subseq (visible_text (concat (map pc_text (pieces_of gs)))) (visible_text (concat (map pc_text (concat (map snd ws))))) \<and>
    (overlap = 0 \<longrightarrow> visible_text (concat (map pc_text (concat (map snd ws)))) = visible_text (concat (map pc_text (pieces_of gs))))"
  using assms(2)
proof (induction gs)
  case (Cons g gs)
  obtain ws where ws: "pack (pg_pieces g) options overlap = Some ws" "\<forall>w \<in> set ws. window_ok options overlap w"
    "subseq (visible_text (concat (map pc_text (pg_pieces g)))) (visible_text (concat (map pc_text (concat ws))))"
    "overlap = 0 \<longrightarrow> visible_text (concat (map pc_text (concat ws))) = visible_text (concat (map pc_text (pg_pieces g)))"
    using pack_ok [OF assms(1,3)] by blast
  obtain rest where rest: "group_windows options gs = Some rest" "\<forall>w \<in> set rest. window_ok options overlap (snd w)"
    "subseq (visible_text (concat (map pc_text (pieces_of gs)))) (visible_text (concat (map pc_text (concat (map snd rest)))))"
    "overlap = 0 \<longrightarrow> visible_text (concat (map pc_text (concat (map snd rest)))) = visible_text (concat (map pc_text (pieces_of gs)))"
    using Cons by auto
  have "pg_overlap g = overlap" using Cons.prems by simp
  then have "group_windows options (g # gs) = Some (map (Pair (pg_prefix g)) ws @ rest)" using ws(1) rest(1) by simp
  moreover have "\<forall>w \<in> set (map (Pair (pg_prefix g)) ws @ rest). window_ok options overlap (snd w)" using ws(2) rest(2) by auto
  moreover have "map snd (map (Pair (pg_prefix g)) ws @ rest) = ws @ map snd rest" by (simp add: comp_def)
  ultimately show ?case using ws(3,4) rest(3,4) by (simp add: list_emb_append_mono)
qed simp

lemma drafts_text:
  assumes "\<forall>w \<in> set ws. snd w \<noteq> []"
  shows "visible_text (concat (map cf_text (map (\<lambda>(seq, pre, w). draft_of sha256 pre w seq) (enumerate n ws)))) =
    visible_text (concat (map pc_text (concat (map snd ws))))"
  using assms by (induction ws arbitrary: n) (auto simp: draft_of_def Let_def visible_join)

lemma chunks_of_document:
  assumes "0 < co_maxChunkTokens options"
  obtains ws where "chunkDocument sha256 crumb doc options = Some (map (\<lambda>(seq, pre, w). draft_of sha256 pre w seq) (enumerate 0 ws))"
    "\<forall>w \<in> set ws. window_ok options (if ck_kind doc = Slack_Thread then 1 else 0) (snd w)"
    "subseq (visible_text (concat (map seg_text (ck_segments doc)))) (visible_text (concat (map pc_text (concat (map snd ws)))))"
    "paged (ck_kind doc) \<longrightarrow> visible_text (concat (map pc_text (concat (map snd ws)))) = visible_text (concat (map seg_text (ck_segments doc)))"
proof -
  let ?gs = "groupSegments crumb doc options" and ?o = "if ck_kind doc = Slack_Thread then 1 else 0 :: nat"
  have o: "pg_overlap g = ?o" if "g \<in> set ?gs" for g using group_facts(2) that by blast
  have "?o \<le> 1" by simp
  from group_windows_ok [OF assms o this] obtain ws where ws: "group_windows options ?gs = Some ws" "\<forall>w \<in> set ws. window_ok options ?o (snd w)"
    "subseq (visible_text (concat (map pc_text (pieces_of ?gs)))) (visible_text (concat (map pc_text (concat (map snd ws)))))"
    "?o = 0 \<longrightarrow> visible_text (concat (map pc_text (concat (map snd ws)))) = visible_text (concat (map pc_text (pieces_of ?gs)))"
    by blast
  have "subseq (visible_text (concat (map seg_text (ck_segments doc)))) (visible_text (concat (map pc_text (concat (map snd ws)))))"
    by (rule subseq_order.order_trans [OF renders_subseq [OF group_facts(1)] ws(3)])
  moreover have "visible_text (concat (map pc_text (concat (map snd ws)))) = visible_text (concat (map seg_text (ck_segments doc)))"
    if p: "paged (ck_kind doc)"
    using ws(4) p group_facts(3) [OF p, of crumb options] by (auto simp: paged_def)
  ultimately show thesis using that [OF _ ws(2)] ws(1) by (simp add: chunkDocument_def)
qed

text \<open>
  C22: Cutting a document into chunks ends and loses nothing: every character of its segments that
  is not white space is in the chunks, in order; for pages and files the chunks hold nothing else;
  and the chunks are numbered from 0 without gaps.
\<close>

theorem chunks_complete:
  assumes "0 < co_maxChunkTokens options"
  shows "\<exists>parts. chunkDocument sha256 crumb doc options = Some parts \<and>
    subseq (visible_text (concat (map seg_text (ck_segments doc)))) (visible_text (concat (map cf_text parts))) \<and>
    (paged (ck_kind doc) \<longrightarrow> visible_text (concat (map cf_text parts)) = visible_text (concat (map seg_text (ck_segments doc)))) \<and>
    map cf_seq parts = [0..<length parts]"
proof -
  obtain ws where ws: "chunkDocument sha256 crumb doc options = Some (map (\<lambda>(seq, pre, w). draft_of sha256 pre w seq) (enumerate 0 ws))"
    "\<forall>w \<in> set ws. window_ok options (if ck_kind doc = Slack_Thread then 1 else 0) (snd w)"
    "subseq (visible_text (concat (map seg_text (ck_segments doc)))) (visible_text (concat (map pc_text (concat (map snd ws)))))"
    "paged (ck_kind doc) \<longrightarrow> visible_text (concat (map pc_text (concat (map snd ws)))) = visible_text (concat (map seg_text (ck_segments doc)))"
    by (rule chunks_of_document [OF assms])
  have ne: "\<forall>w \<in> set ws. snd w \<noteq> []" using ws(2) by (simp add: window_ok_def)
  have "map cf_seq (map (\<lambda>(seq, pre, w). draft_of sha256 pre w seq) (enumerate n ws)) = [n..<n + length ws]" for n
    by (rule nth_equalityI) (simp_all add: nth_enumerate_eq draft_of_def Let_def case_prod_beta)
  from this [of 0] show ?thesis using ws(1,3,4) drafts_text [OF ne] by simp
qed

text \<open>
  C28: Chunks stay within their limits: a chunk has fewer tokens than the target or at most as many
  as the ceiling; one of a thread, which repeats the last message of the chunk before, may reach
  twice the ceiling.
\<close>

theorem chunk_bounds:
  assumes "0 < co_maxChunkTokens options" "chunkDocument sha256 crumb doc options = Some parts" "c \<in> set parts"
  shows "cf_tokens c < co_chunkTokens options \<or>
    cf_tokens c \<le> (if ck_kind doc = Slack_Thread then 2 * co_maxChunkTokens options + 1 else co_maxChunkTokens options)"
proof -
  let ?o = "if ck_kind doc = Slack_Thread then 1 else 0 :: nat"
  obtain ws where ws: "chunkDocument sha256 crumb doc options = Some (map (\<lambda>(seq, pre, w). draft_of sha256 pre w seq) (enumerate 0 ws))"
    "\<forall>w \<in> set ws. window_ok options ?o (snd w)"
    by (rule chunks_of_document [OF assms(1)])
  obtain seq pre w where w: "c = draft_of sha256 pre w seq" "(seq, (pre, w)) \<in> set (enumerate 0 ws)"
    using assms(2,3) ws(1) by auto
  then have "(pre, w) \<in> set ws" by (auto simp: in_set_enumerate_eq) (metis nth_mem)
  have ok: "w \<noteq> []" "sum_list (map piece_tokens w) \<le> max (co_chunkTokens options) ((?o + 1) * (co_maxChunkTokens options + 1))"
    using ws(2) \<open>(pre, w) \<in> set ws\<close> by (force simp: window_ok_def)+
  have "cf_tokens c + 1 \<le> sum_list (map piece_tokens w)"
    using join_tokens [of "map pc_text w"] ok(1) by (simp add: w(1) draft_of_def Let_def piece_tokens_def [abs_def] comp_def)
  then show ?thesis using ok(2) by (auto simp: max_def split: if_splits)
qed

section \<open>A thread and a page\<close>

definition message_of :: "string \<Rightarrow> string \<Rightarrow> document_segment" where
  "message_of key text = \<lparr>seg_key = key, seg_headingPath = None, seg_authorExternalId = None, seg_authorName = None,
     seg_at = None, seg_url = None, seg_text = text\<rparr>"

definition small_options :: chunking_options where
  "small_options = \<lparr>co_chunkTokens = 6, co_maxChunkTokens = 8, co_gapMinutes = None\<rparr>"

definition a_document :: "document_kind \<Rightarrow> chunkable_document" where
  "a_document kind = \<lparr>ck_kind = kind, ck_title = ''T'', ck_segments =
     [message_of ''1'' (replicate 32 CHR ''a''), message_of ''2'' (replicate 20 CHR ''b'' @ '' '' @ replicate 11 CHR ''b'')],
     ck_attributes = JObj [], ck_containerName = ''C''\<rparr>"

lemma thread_chunks: "map_option (map cf_tokens) (chunkDocument id '' > '' (a_document Slack_Thread) small_options) = Some [8, 17]"
  by code_simp

theorem chunk_bounds_witness:
  "\<exists>parts. chunkDocument id '' > '' (a_document Slack_Thread) small_options = Some parts \<and>
    (\<exists>c \<in> set parts. cf_tokens c = 17 \<and> co_maxChunkTokens small_options = 8 \<and>
      (cf_tokens c < 6 \<or> cf_tokens c \<le> 2 * 8 + 1))"
proof -
  obtain parts where parts: "chunkDocument id '' > '' (a_document Slack_Thread) small_options = Some parts" "map cf_tokens parts = [8, 17]"
    using thread_chunks by (auto simp: map_option_eq_Some)
  have "17 \<in> set (map cf_tokens parts)" unfolding parts(2) by simp
  then obtain c where c: "c \<in> set parts" "cf_tokens c = 17" by auto
  have o: "0 < co_maxChunkTokens small_options" "co_chunkTokens small_options = 6" "co_maxChunkTokens small_options = 8"
    "ck_kind (a_document Slack_Thread) = Slack_Thread"
    by (simp_all add: small_options_def a_document_def)
  have "cf_tokens c < 6 \<or> cf_tokens c \<le> 2 * 8 + 1"
    using chunk_bounds [OF o(1) parts(1) c(1)] unfolding o(2,3,4) by simp
  then show ?thesis using parts(1) c o(3) by blast
qed

theorem chunks_complete_witness:
  "\<exists>parts. chunkDocument id '' > '' (a_document Github_Doc) small_options = Some parts \<and>
    visible_text (concat (map cf_text parts)) = visible_text (replicate 32 CHR ''a'' @ replicate 20 CHR ''b'' @ '' '' @ replicate 11 CHR ''b'')"
proof -
  have o: "0 < co_maxChunkTokens small_options" "paged (ck_kind (a_document Github_Doc))"
    "concat (map seg_text (ck_segments (a_document Github_Doc))) = replicate 32 CHR ''a'' @ replicate 20 CHR ''b'' @ '' '' @ replicate 11 CHR ''b''"
    by (simp_all add: small_options_def a_document_def paged_def message_of_def)
  show ?thesis using chunks_complete [OF o(1), of id "'' > ''" "a_document Github_Doc"] o(2) unfolding o(3) by blast
qed

end
