(* ===== verification/Knowledge_Properties.thy ===== *)
theory Knowledge_Properties
  imports Knowledge_Safety
begin

text \<open>The properties of the knowledge store, with a worked store they apply to.\<close>

section \<open>A worked store\<close>

definition wiki :: source_container where
  "wiki = \<lparr>sc_externalId = ''w'', sc_kind = Kind_Space, sc_name = ''Wiki'', sc_url = None, sc_visibility = Vis_Open,
     sc_archived = False, sc_acl = None\<rparr>"

definition wiki_run :: "string option \<Rightarrow> selected_container" where
  "wiki_run checkpoint = source_container.extend wiki \<lparr>sc_checkpoint = checkpoint\<rparr>"

definition wiki_page :: "document_segment list \<Rightarrow> document_input" where
  "wiki_page segments = \<lparr>di_externalId = ''p'', di_kind = Confluence_Page, di_title = ''T'', di_url = ''u'', di_segments = segments,
     di_sourceVersion = ''1'', di_sourceCreatedAt = [], di_sourceUpdatedAt = [], di_author = None, di_participants = [],
     di_state = None, di_attributes = JObj [], di_restricted = False, di_acl = None\<rparr>"

definition wiki_text :: document_segment where
  "wiki_text = \<lparr>seg_key = ''k'', seg_headingPath = None, seg_authorExternalId = None, seg_authorName = None, seg_at = None,
     seg_url = None, seg_text = ''hello''\<rparr>"

definition wiki_batch :: "document_segment list \<Rightarrow> string option \<Rightarrow> change_batch" where
  "wiki_batch segments checkpoint = \<lparr>cb_documents = [wiki_page segments], cb_deleted = [], cb_checkpoint = checkpoint,
     cb_principals = None, cb_notes = None\<rparr>"

definition select_wiki :: "bool \<Rightarrow> select_input" where
  "select_wiki on = \<lparr>si_selected = on, si_by = ''ann'', si_acknowledged = False\<rparr>"

text \<open>The container is listed (row 0), selected, and its page is stored (row 1).\<close>

definition wiki_selected :: knowledge_store where
  "wiki_selected = snd (selectContainer ''c'' 0 (select_wiki True) 1 (upsertContainers ''c'' [wiki] 0 empty_knowledge))"

definition wiki_stored :: "document_segment list \<Rightarrow> knowledge_store" where
  "wiki_stored segments = snd (storeBatch id ''c'' (wiki_run None) (wiki_batch segments (Some ''k1'')) Map.empty 2 wiki_selected)"

lemma wiki_selected_history: "khistory empty_knowledge wiki_selected"
  unfolding wiki_selected_def by (rule khistory_step [OF khistory_step [OF khistory_refl k_containers] k_select])

lemma wiki_stored_history: "khistory empty_knowledge (wiki_stored segments)"
  unfolding wiki_stored_def by (rule khistory_step [OF wiki_selected_history k_store])

lemma wiki_stored_facts:
  "let s = wiki_stored [wiki_text]; d = hd (documents s) in length (documents s) = 1 \<and> kd_id d = 1 \<and> kd_container d = 0 \<and>
     kd_status d = Idx_Pending \<and> kd_deletedAt d = None \<and> kd_attempts d = 0 \<and> map kc_id (containers s) = [0] \<and>
     map kc_connector (containers s) = [''c''] \<and> map kc_externalId (containers s) = [''w''] \<and> kd_externalId d = ''p'' \<and> kd_connector d = ''c''
     \<and> kd_title d = ''T'' \<and> kd_updatedAt d = 2"
  by code_simp

section \<open>Properties\<close>

text \<open>
  C3: What the source deleted or restricted keeps no text: in every reachable store such a
  document has no segments, no content hash and no chunk, so nothing of it can be found; and
  every chunk belongs to a document that is there, public and indexed.
\<close>

theorem removed_text_is_gone:
  assumes "khistory empty_knowledge s"
  shows "(\<forall>d \<in> set (documents s). kd_deletedAt d \<noteq> None \<or> kd_restricted d \<longrightarrow>
       kd_segments d = [] \<and> kd_contentHash d = None \<and> (\<forall>c \<in> set (chunks s). ch_document c \<noteq> kd_id d)) \<and>
     (\<forall>c \<in> set (chunks s). \<exists>d \<in> set (documents s). kd_id d = ch_document c \<and> searchable d)"
proof -
  have ok: "knowledge_ok s" by (rule ok_reachable [OF assms])
  have "ch_document c \<noteq> kd_id d"
    if d: "d \<in> set (documents s)" "\<not> searchable d" and c: "c \<in> set (chunks s)" for c d
  proof
    assume eq: "ch_document c = kd_id d"
    obtain e where e: "e \<in> set (documents s)" "kd_id e = ch_document c" "searchable e"
      using chunk_owner [OF ok c] by blast
    have "inj_on kd_id (set (documents s))" using ok by (simp add: knowledge_ok_defs distinct_map)
    then have "e = d" using e(1,2) d(1) eq by (simp add: inj_on_def)
    then show False using e(3) d(2) by simp
  qed
  moreover have "kd_segments d = [] \<and> kd_contentHash d = None \<and> \<not> searchable d"
    if "d \<in> set (documents s)" "kd_deletedAt d \<noteq> None \<or> kd_restricted d" for d
    using row_of_document [OF ok that(1)] that(2) by (auto simp: document_ok_def searchable_def)
  ultimately show ?thesis using chunk_owner [OF ok] by blast
qed

definition wiki_removed :: knowledge_store where
  "wiki_removed = snd (pruneMissing ''c'' (wiki_run (Some ''k1'')) [''other''] \<lparr>po_listedAt = None, po_kinds = None\<rparr> 9
     (snd (replaceChunks 1 [] (contentHashOf id ''T'' [wiki_text]) 1 8 (snd (claimPending 5 CLAIM_STALE_MS 7 (wiki_stored [wiki_text]))))))"

lemma wiki_removed_history: "khistory empty_knowledge wiki_removed"
  unfolding wiki_removed_def
  by (rule khistory_step [OF _ k_prune], rule khistory_step [OF _ k_replace], rule khistory_step [OF _ k_claim], rule wiki_stored_history)

theorem removed_text_is_gone_witness:
  "\<exists>d \<in> set (documents wiki_removed). kd_deletedAt d = Some 9 \<and> kd_segments d = []"
proof -
  have d: "hd (documents wiki_removed) \<in> set (documents wiki_removed) \<and> kd_deletedAt (hd (documents wiki_removed)) = Some 9"
    by code_simp
  then have "kd_segments (hd (documents wiki_removed)) = []"
    using removed_text_is_gone [OF wiki_removed_history] by auto
  then show ?thesis using d by blast
qed

text \<open>
  C25: No document is lost while it waits: in every reachable store a document that waits, is being
  indexed or failed is claimable from some moment on, except after its fifth failed attempt.
\<close>

theorem no_stuck_document:
  assumes "khistory empty_knowledge s" "d \<in> set (documents s)"
    "kd_status d = Idx_Pending \<or> kd_status d = Idx_Indexing \<or> kd_status d = Idx_Failed \<and> kd_attempts d \<noteq> MAX_INDEX_ATTEMPTS"
  shows "\<exists>t. \<forall>now \<ge> t. claimable_document staleAfterMs now d"
proof -
  have ok: "document_ok d" using row_of_document [OF ok_reachable [OF assms(1)] assms(2)] by simp
  then have live: "kd_deletedAt d = None" using assms(3) by (auto simp: document_ok_def)
  show ?thesis
  proof (cases "kd_status d = Idx_Pending")
    case True
    then show ?thesis using live by (simp add: claimable_document_def)
  next
    case False
    then obtain c where c: "kd_claimedAt d = Some c" using ok assms(3) by (auto simp: document_ok_def)
    have "claimable_document staleAfterMs now d" if "now \<ge> c + \<bar>staleAfterMs\<bar> + 4 ^ kd_attempts d * 60000 + 1" for now
    proof (cases "kd_status d = Idx_Indexing")
      case True
      have "(0::int) \<le> 4 ^ kd_attempts d * 60000" by simp
      then have "c < now - staleAfterMs" using that by linarith
      then show ?thesis using live True c by (simp add: claimable_document_def)
    next
      case indexing: False
      then have failed: "kd_status d = Idx_Failed" "kd_attempts d < MAX_INDEX_ATTEMPTS"
        using False assms(3) ok by (auto simp: document_ok_def)
      have "c < now - 4 ^ kd_attempts d * 60000" using that by linarith
      then show ?thesis using live failed c by (simp add: claimable_document_def)
    qed
    then show ?thesis by blast
  qed
qed

theorem no_stuck_document_witness:
  "\<exists>t. \<forall>now \<ge> t. claimable_document CLAIM_STALE_MS now (hd (documents (wiki_stored [wiki_text])))"
proof -
  have "length (documents (wiki_stored [wiki_text])) = 1" "kd_status (hd (documents (wiki_stored [wiki_text]))) = Idx_Pending"
    using wiki_stored_facts by (simp_all add: Let_def)
  then show ?thesis
    by (intro no_stuck_document [OF wiki_stored_history [of "[wiki_text]"]]) (auto simp: length_Suc_conv)
qed


section \<open>Deselecting and purging\<close>

lemma storeBatch_refused:
  assumes "\<And>r. r \<in> set (containers s) \<Longrightarrow> this_container connector (sc_externalId container) r \<Longrightarrow>
    \<not> kc_selected r \<or> kc_checkpoint r \<noteq> sc_checkpoint container"
  shows "\<exists>m. storeBatch sha256 connector container batch redactions now s = (Inl (CONTAINER_CHANGED m), s)"
proof (cases "find_first (this_container connector (sc_externalId container)) (containers s)")
  case (Some r)
  then show ?thesis using assms [of r] find_first_Some [OF Some] by (auto simp: storeBatch_def)
qed (simp add: storeBatch_def)

lemma container_by_key:
  assumes "knowledge_ok s" "c \<in> set (containers s)" "r \<in> set (containers s)"
    "this_container connector ext c" "this_container connector ext r"
  shows "r = c"
proof -
  have "inj_on container_key (set (containers s))" using assms(1) by (simp add: knowledge_ok_defs distinct_map)
  then show ?thesis using assms(2-) by (auto simp: this_container_def container_key_def inj_on_def)
qed

lemma documents_of_deleted [simp]:
  "documents (delete_documents p s) = filter (\<lambda>d. \<not> p d) (documents s)" "containers (delete_documents p s) = containers s"
  by (simp_all add: delete_documents_def Let_def)

lemma documents_delete_containers:
  "set (documents (delete_containers p s)) \<subseteq> set (documents s)" "set (containers (delete_containers p s)) \<subseteq> set (containers s)"
  by (auto simp: delete_containers_def Let_def)

lemma delete_principals_columns [simp]:
  "kd_container ` set (documents (delete_principals p s)) = kd_container ` set (documents s)"
  "containers (delete_principals p s) = containers s"
  by (simp_all add: delete_principals_def Let_def)

lemma all_purged:
  assumes "length (filter purgeable (containers s)) \<le> limit" "c \<in> set (containers s)" "purgeable c" "kc_id c = i"
  shows "i \<notin> kd_container ` set (documents (snd (purgeBatch limit now s))) \<and>
    (\<forall>r \<in> set (containers (snd (purgeBatch limit now s))). kc_id r = i \<longrightarrow> kc_checkpoint r = None)"
proof -
  define rows where "rows = take limit (js_sort purge_order (filter purgeable (containers s)))"
  define ids where "ids = map kc_id rows"
  define s1 where "s1 = delete_documents (\<lambda>d. kd_container d \<in> set ids) s"
  define s2 where "s2 = s1\<lparr>containers := update_where (\<lambda>c. kc_id c \<in> set ids) (purged_row now) (containers s1)\<rparr>"
  define s3 where "s3 = delete_containers (\<lambda>c. kc_id c \<in> set ids \<and> kc_goneAt c \<noteq> None \<and> \<not> kc_selected c) s2"
  have rows: "set rows = set (filter purgeable (containers s))" using assms(1) by (simp add: rows_def)
  then have i: "i \<in> set ids" "rows \<noteq> []" using assms(2-) by (auto simp: ids_def)
  have result: "snd (purgeBatch limit now s) =
      delete_principals (\<lambda>q. kp_connector q \<in> kc_connector ` set rows \<and> nothing_refers_to (kp_connector q) s3) s3"
    using i(2) by (simp add: purgeBatch_def Let_def rows_def s1_def s2_def s3_def ids_def)
  have "i \<notin> kd_container ` set (documents s2)" using i(1) by (auto simp: s2_def s1_def)
  then have "i \<notin> kd_container ` set (documents s3)"
    using documents_delete_containers(1) [of _ s2] unfolding s3_def by blast
  moreover have "kc_checkpoint r = None" if "r \<in> set (containers s3)" "kc_id r = i" for r
  proof -
    have "r \<in> set (containers s2)" using that(1) documents_delete_containers(2) [of _ s2] unfolding s3_def by blast
    then show ?thesis using that(2) i(1) by (auto simp: s2_def s1_def set_update_where purged_row_def split: if_splits)
  qed
  ultimately show ?thesis unfolding result by simp
qed

text \<open>Containers keep their ids and keys.\<close>

definition container_names :: "knowledge_store \<Rightarrow> (nat \<times> string \<times> string) set" where
  "container_names s = (\<lambda>c. (kc_id c, container_key c)) ` set (containers s)"

lemma names_of_select [simp]: "container_names (snd (selectContainer connector i inp now s)) = container_names s"
  unfolding container_names_def selectContainer_def by (simp add: select_row_def container_key_def)

lemma names_of_purge: "container_names (snd (purgeBatch limit now s)) \<subseteq> container_names s"
proof -
  have "container_names (x\<lparr>containers := update_where p (purged_row t) (containers s)\<rparr>) = container_names s" for p t x and s :: knowledge_store
    unfolding container_names_def by (simp add: purged_row_def container_key_def)
  moreover have "container_names (delete_containers p s) \<subseteq> container_names s" for p and s :: knowledge_store
    unfolding container_names_def by (rule image_mono [OF documents_delete_containers(2)])
  moreover have "container_names (delete_documents p s) = container_names s" "container_names (delete_principals q s) = container_names s"
    for p q and s :: knowledge_store by (simp_all add: container_names_def)
  ultimately show ?thesis
    unfolding purgeBatch_def Let_def snd_conv if_distrib [of snd] by (simp, blast)
qed


definition wiki_deselected :: knowledge_store where
  "wiki_deselected = snd (selectContainer ''c'' 0 (select_wiki False) 8 (wiki_stored [wiki_text]))"

lemma wiki_deselected_facts:
  "length (filter purgeable (containers wiki_deselected)) = 1"
  "\<exists>c. getContainer ''c'' 0 (wiki_stored [wiki_text]) = Some c \<and> kc_externalId c = ''w''"
proof -
  show "length (filter purgeable (containers wiki_deselected)) = 1" by code_simp
  have "map_option kc_externalId (getContainer ''c'' 0 (wiki_stored [wiki_text])) = Some ''w''" by code_simp
  then show "\<exists>c. getContainer ''c'' 0 (wiki_stored [wiki_text]) = Some c \<and> kc_externalId c = ''w''" by (simp add: map_option_eq_Some)
qed


section \<open>Pruning\<close>

lemma tombstone_missing:
  assumes "knowledge_ok s" "rows = filter (missing_from connector ext ids opts s) (documents s)"
  shows "tombstone connector (map kd_externalId rows) now (s\<lparr>kstate := m\<rparr>) =
    (length rows, delete_chunks_of (map kd_id rows) (s\<lparr>kstate := m,
       documents := update_where (missing_from connector ext ids opts s) (tombstone_row now) (documents s)\<rparr>))"
proof -
  let ?p = "\<lambda>d. kd_connector d = connector \<and> kd_externalId d \<in> set (map kd_externalId rows) \<and> kd_deletedAt d = None"
  have same: "?p d = missing_from connector ext ids opts s d" if d: "d \<in> set (documents s)" for d
  proof
    assume "?p d"
    then obtain e where e: "e \<in> set rows" "kd_externalId e = kd_externalId d" "kd_connector d = connector" by auto
    have e': "e \<in> set (documents s)" "missing_from connector ext ids opts s e" using e(1) unfolding assms(2) by auto
    have "inj_on document_key (set (documents s))" using assms(1) by (simp add: knowledge_ok_defs distinct_map)
    moreover have "document_key e = document_key d" using e(2,3) e'(2) by (simp add: document_key_def missing_from_def)
    ultimately show "missing_from connector ext ids opts s d" using e' d by (auto simp: inj_on_def)
  qed (use d in \<open>auto simp: assms(2) missing_from_def\<close>)
  have "filter ?p (documents s) = rows" unfolding assms(2) by (rule filter_cong) (use same assms(2) in auto)
  moreover have "update_where ?p (tombstone_row now) (documents s) =
      update_where (missing_from connector ext ids opts s) (tombstone_row now) (documents s)"
    unfolding update_where_def by (rule map_cong) (use same in auto)
  ultimately show ?thesis by (simp add: tombstone_def Let_def)
qed

text \<open>
  C24: What a complete listing of a container removes: exactly the live documents of the container
  that it does not show (of the kinds it covers, and not changed since it was made), with their
  chunks. The one exception is a first empty listing over documents: it removes nothing and is
  remembered, the next empty listing is believed, and any other listing forgets it.
\<close>

theorem prune_exact:
  assumes "khistory empty_knowledge s"
  shows "let gone = filter (missing_from connector (sc_externalId container) ids opts s) (documents s);
      key = emptyKey connector (sc_externalId container);
      (n, s') = pruneMissing connector container ids opts now s in
    if ids = [] \<and> gone \<noteq> [] \<and> kstate s key = None
    then n = 0 \<and> documents s' = documents s \<and> chunks s' = chunks s \<and> kstate s' key \<noteq> None
    else n = length gone \<and> kstate s' key = None \<and>
      documents s' = map (\<lambda>d. if missing_from connector (sc_externalId container) ids opts s d then tombstone_row now d else d) (documents s) \<and>
      chunks s' = filter (\<lambda>c. ch_document c \<notin> kd_id ` set gone) (chunks s)"
proof -
  note gone = tombstone_missing [OF ok_reachable [OF assms] refl,
    of connector "sc_externalId container" ids opts now "(kstate s)(emptyKey connector (sc_externalId container) := None)"]
  show ?thesis unfolding pruneMissing_def Let_def gone
    by (simp add: delete_chunks_of_def update_where_def)
qed

theorem prune_exact_witness:
  "let (n, s') = pruneMissing ''c'' (wiki_run (Some ''k1'')) [] \<lparr>po_listedAt = None, po_kinds = None\<rparr> 9 (wiki_stored [wiki_text]) in
     n = 0 \<and> documents s' = documents (wiki_stored [wiki_text])"
proof -
  let ?s = "wiki_stored [wiki_text]" and ?o = "\<lparr>po_listedAt = None, po_kinds = None\<rparr>"
  have "length (filter (missing_from ''c'' ''w'' [] ?o ?s) (documents ?s)) = 1 \<and> kstate ?s (emptyKey ''c'' ''w'') = None"
    by code_simp
  then have "filter (missing_from ''c'' ''w'' [] ?o ?s) (documents ?s) \<noteq> [] \<and> kstate ?s (emptyKey ''c'' ''w'') = None" by auto
  moreover have "sc_externalId (wiki_run (Some ''k1'')) = ''w''" by code_simp
  ultimately show ?thesis
    using prune_exact [OF wiki_stored_history [of "[wiki_text]"], of "''c''" "wiki_run (Some ''k1'')" "[]" "?o" "9"]
    by (simp add: Let_def case_prod_beta)
qed

section \<open>The life of a connector id\<close>

lemma cleared_rows:
  assumes "r \<in> set (containers (snd (clearConnector connector b now s)))" "kc_connector r = connector"
  shows "\<not> kc_selected r \<and> kc_purgeAt r \<noteq> None \<and> kc_goneAt r \<noteq> None"
proof -
  define cs where "cs = containers (delete_containers (\<lambda>c. kc_connector c = connector \<and> \<not> holds_documents s c) s)"
  have "r \<in> (\<lambda>c. if clearable connector c then clear_row b now c else c) ` set cs"
    using assms(1) unfolding clearConnector_def Let_def snd_conv cs_def set_update_where [symmetric] by simp
  then consider c where "clearable connector c" "r = clear_row b now c" | "\<not> clearable connector r"
    by (auto split: if_splits)
  then show ?thesis
  proof cases
    case 1
    then show ?thesis by (simp add: clear_row_def split: option.split)
  next
    case 2
    then show ?thesis using assms(2) by (simp add: clearable_def)
  qed
qed

lemma cleared_others:
  assumes "knowledge_ok s" "connector' \<noteq> connector"
  shows "filter (\<lambda>c. kc_connector c = connector') (containers (snd (clearConnector connector b now s))) =
    filter (\<lambda>c. kc_connector c = connector') (containers s)"
proof -
  have "filter (\<lambda>c. kc_connector c = connector') (update_where (clearable connector) (clear_row b now) cs) =
      filter (\<lambda>c. kc_connector c = connector') cs" for cs
    using assms(2) by (induction cs) (auto simp: update_where_def clearable_def clear_row_def)
  moreover have "filter (\<lambda>c. kc_connector c = connector') (containers (delete_containers (\<lambda>c. kc_connector c = connector \<and> q c) s)) =
      filter (\<lambda>c. kc_connector c = connector') (containers s)" for q
    using assms(2) by (auto simp: delete_containers_def Let_def intro!: filter_cong)
  ultimately show ?thesis by (simp add: clearConnector_def Let_def)
qed



section \<open>A late verdict about an older content\<close>

text \<open>
  A worker claims a document without text; before it gets to it the sink stores a text for the
  document and a second worker claims that. The first worker's \<open>markSkipped\<close> asks only whether
  the row is being indexed, which it is: the new text counts as skipped, the second worker's
  chunks are refused, and no worker ever takes the document again.
\<close>

definition late_claimed :: knowledge_store where
  "late_claimed = snd (claimPending 5 CLAIM_STALE_MS 3 (wiki_stored []))"

definition late_edited :: knowledge_store where
  "late_edited = snd (storeBatch id ''c'' (wiki_run (Some ''k1'')) (wiki_batch [wiki_text] (Some ''k2'')) Map.empty 4 late_claimed)"

definition late_skipped :: knowledge_store where
  "late_skipped = markSkipped 1 6 (snd (claimPending 5 CLAIM_STALE_MS 5 late_edited))"

lemma late_verdict_history: "khistory empty_knowledge late_skipped"
  unfolding late_skipped_def late_edited_def late_claimed_def
  by (rule khistory_step [OF _ k_skipped], rule khistory_step [OF _ k_claim], rule khistory_step [OF _ k_store],
    rule khistory_step [OF _ k_claim], rule wiki_stored_history)

text \<open>
  C38: A verdict about a content that was replaced can bury its successor: there is a history after
  which a live public document with a text that was never indexed refuses the chunks of the worker
  that holds it and is claimable at no later time.
\<close>

theorem late_verdict_loses_document:
  "\<exists>s d. khistory empty_knowledge s \<and> d \<in> set (documents s) \<and> kd_deletedAt d = None \<and> \<not> kd_restricted d \<and>
     kd_segments d = [wiki_text] \<and> kd_indexedHash d = None \<and>
     fst (replaceChunks (kd_id d) cs hash version now s) = Inr False \<and>
     (\<forall>stale later. \<not> claimable_document stale later d)"
proof -
  have "map kd_id (documents late_skipped) = [1] \<and> map kd_deletedAt (documents late_skipped) = [None] \<and>
      map kd_restricted (documents late_skipped) = [False] \<and> map kd_segments (documents late_skipped) = [[wiki_text]] \<and>
      map kd_indexedHash (documents late_skipped) = [None] \<and> map kd_status (documents late_skipped) = [Idx_Skipped]"
    by code_simp
  then obtain d where d: "documents late_skipped = [d]" "kd_id d = 1" "kd_deletedAt d = None" "\<not> kd_restricted d"
    "kd_segments d = [wiki_text]" "kd_indexedHash d = None" "kd_status d = Idx_Skipped"
    by (auto simp: map_eq_Cons_conv)
  have "fst (replaceChunks (kd_id d) cs hash version now late_skipped) = Inr False"
    using d by (simp add: replaceChunks_def still_the_claim_def)
  moreover have "\<not> claimable_document stale later d" for stale later
    using d by (simp add: claimable_document_def)
  ultimately show ?thesis using d late_verdict_history by (intro exI [of _ late_skipped] exI [of _ d]) simp
qed

end
