(* ===== verification/Index_Properties.thy ===== *)
theory Index_Properties
  imports Index_Pipeline Chunking_Properties Knowledge_Properties
begin

text \<open>
  What the index worker writes and how often it asks the embedder, whatever the others do between
  its calls and whichever of its calls fail.
\<close>

section \<open>Requests\<close>

text \<open>From one world to a later one the embedder was asked at most \<open>n\<close> times, with at most
  \<open>TEXTS_PER_EMBEDDING_CALL\<close> texts each time.\<close>

definition asked_between :: "nat \<Rightarrow> ix_world \<Rightarrow> ix_world \<Rightarrow> bool" where
  "asked_between n w w' \<longleftrightarrow> (\<exists>zs. xw_asked w' = xw_asked w @ zs \<and> length zs \<le> n \<and>
     (\<forall>ts \<in> set zs. length ts \<le> TEXTS_PER_EMBEDDING_CALL))"

definition asks_at_most :: "nat \<Rightarrow> 'a ix_act \<Rightarrow> bool" where
  "asks_at_most n m \<longleftrightarrow> (\<forall>w. asked_between n w (snd (m w)))"

lemma asked_refl: "asked_between n w w"
  by (simp add: asked_between_def)

lemma asked_same: "xw_asked w' = xw_asked w \<Longrightarrow> asked_between n w w'"
  by (simp add: asked_between_def)

lemma asked_trans: "asked_between n u v \<Longrightarrow> asked_between m v w \<Longrightarrow> asked_between (n + m) u w"
proof -
  assume "asked_between n u v" "asked_between m v w"
  then obtain xs ys where xs: "xw_asked v = xw_asked u @ xs" "length xs \<le> n" "\<forall>ts \<in> set xs. length ts \<le> TEXTS_PER_EMBEDDING_CALL"
    and ys: "xw_asked w = xw_asked v @ ys" "length ys \<le> m" "\<forall>ts \<in> set ys. length ts \<le> TEXTS_PER_EMBEDDING_CALL"
    unfolding asked_between_def by blast
  then show ?thesis unfolding asked_between_def by (intro exI [of _ "xs @ ys"]) auto
qed

lemma asked_mono: "asked_between n v w \<Longrightarrow> n \<le> m \<Longrightarrow> asked_between m v w"
  unfolding asked_between_def by (metis order_trans)

lemma turn_asked [simp]: "xw_asked (snd (ix_turn w)) = xw_asked w"
  by (simp add: ix_turn_def split: list.split)

lemma query_asked [simp]: "xw_asked (snd (ix_query f w)) = xw_asked w"
  using turn_asked [of w] by (auto simp: ix_query_def simp del: turn_asked split: prod.split option.split)

lemma sleep_asked [simp]: "xw_asked (snd (defaultSleep ms w)) = xw_asked w"
  using turn_asked [of w] by (auto simp: defaultSleep_def simp del: turn_asked split: prod.split)

lemma asks_bind: "asks_at_most n m \<Longrightarrow> (\<And>x. asks_at_most k (f x)) \<Longrightarrow> asks_at_most (n + k) (ix_bind m f)"
  unfolding asks_at_most_def
proof
  fix w assume m: "\<forall>w. asked_between n w (snd (m w))" and f: "\<And>x. \<forall>w. asked_between k w (snd (f x w))"
  obtain r w1 where mw: "m w = (r, w1)" by (metis prod.collapse)
  then have "asked_between n w w1" using m by (metis snd_conv)
  then show "asked_between (n + k) w (snd (ix_bind m f w))"
    using asked_trans [OF _ f [rule_format]] by (cases r) (auto simp: ix_bind_def mw intro: asked_mono)
qed

lemma asks_still: "asks_at_most 0 (stillClaimed i h)"
  unfolding asks_at_most_def stillClaimed_def
proof
  fix w
  obtain r w1 where q: "ix_query (keepClaim i h) w = (r, w1)" by (metis prod.collapse)
  then have "xw_asked w1 = xw_asked w" using query_asked [of "keepClaim i h" w] by simp
  then show "asked_between 0 w (snd (ix_bind (ix_query (keepClaim i h)) (\<lambda>held w. if held then (Inr (), progress w) else (Inl Claim_Lost, w)) w))"
    by (intro asked_same) (auto simp: ix_bind_def q progress_def split: sum.split)
qed

lemma asks_request: "length texts \<le> TEXTS_PER_EMBEDDING_CALL \<Longrightarrow> asks_at_most 1 (embed_request emb texts title)"
  unfolding asks_at_most_def
proof
  fix w assume t: "length texts \<le> TEXTS_PER_EMBEDDING_CALL"
  obtain r w1 where q: "ix_turn w = (r, w1)" by (metis prod.collapse)
  then have "xw_asked w1 = xw_asked w" using turn_asked [of w] by simp
  then have "xw_asked (snd (embed_request emb texts title w)) = xw_asked w @ [texts]"
    by (simp add: embed_request_def q split: sum.split)
  then show "asked_between 1 w (snd (embed_request emb texts title w))" using t by (simp add: asked_between_def)
qed

lemma asks_retry:
  assumes "asks_at_most 1 fn" "asks_at_most 0 before"
  shows "asks_at_most (k + 1) (retry k delay ok before fn)"
proof (induction k arbitrary: delay)
  case 0
  then show ?case using assms(1) by (simp add: asks_at_most_def)
next
  case (Suc k)
  have again: "asks_at_most (0 + (0 + (k + 1))) (ix_bind (defaultSleep delay) (\<lambda>_. ix_bind before (\<lambda>_. retry k (2 * delay) ok before fn)))"
    by (intro asks_bind assms(2) Suc.IH) (simp add: asks_at_most_def asked_same)
  show ?case unfolding asks_at_most_def
  proof
    fix w
    obtain r w1 where f: "fn w = (r, w1)" by (metis prod.collapse)
    then have one: "asked_between 1 w w1" using assms(1) by (metis asks_at_most_def snd_conv)
    have "asked_between (1 + (k + 1)) w (snd (ix_bind (defaultSleep delay) (\<lambda>_. ix_bind before (\<lambda>_. retry k (2 * delay) ok before fn)) w1))"
      using asked_trans [OF one] again by (simp add: asks_at_most_def)
    moreover have "asked_between (1 + (k + 1)) w w1" by (rule asked_mono [OF one]) simp
    ultimately show "asked_between (Suc k + 1) w (snd (retry (Suc k) delay ok before fn w))"
      by (auto simp: f split: sum.split pipe_error.split)
  qed
qed

lemma asks_nothing: "asks_at_most n (ix_return x)" "asks_at_most n (ix_throw e)"
  by (simp_all add: asks_at_most_def ix_return_def ix_throw_def asked_refl)

lemma asks_slice: "length slice \<le> TEXTS_PER_EMBEDDING_CALL \<Longrightarrow> asks_at_most 5 (embed_slice deps doc h slice m)"
proof -
  assume l: "length slice \<le> TEXTS_PER_EMBEDDING_CALL"
  have "asks_at_most (4 + 1) (withRetry ok (stillClaimed i h) (embed_request emb (map draft_text slice) title))" for ok i emb title
    unfolding withRetry_def by (intro asks_retry asks_request asks_still) (simp add: l)
  then have "asks_at_most (4 + 1 + 0) (embed_slice deps doc h slice m)"
    unfolding embed_slice_def by (intro asks_bind) (auto simp: asks_nothing split: option.split sum.split)
  then show ?thesis by simp
qed

lemma asks_slices:
  "(\<And>s. s \<in> set ss \<Longrightarrow> length s \<le> TEXTS_PER_EMBEDDING_CALL) \<Longrightarrow> asks_at_most (5 * length ss) (embed_slices deps doc h first ss m)"
proof (induction ss arbitrary: first m)
  case (Cons s ss)
  have "asks_at_most (0 + (5 + 5 * length ss)) (embed_slices deps doc h first (s # ss) m)"
    unfolding embed_slices.simps by (intro asks_bind Cons.IH asks_slice) (simp_all add: Cons.prems asks_nothing asks_still)
  then show ?case by simp
qed (simp add: asks_nothing)

lemma slices_Nil [simp]: "slices [] = []"
  by (simp add: slices.simps)

lemma concat_slices: "concat (slices xs) = xs"
proof (induction xs rule: slices.induct)
  case (1 xs)
  then show ?case by (cases "xs = []") (simp_all add: slices.simps [of xs])
qed

lemma slice_length: "s \<in> set (slices xs) \<Longrightarrow> length s \<le> TEXTS_PER_EMBEDDING_CALL"
proof (induction xs rule: slices.induct)
  case (1 xs)
  then show ?case by (cases "xs = []") (auto simp: slices.simps [of xs])
qed

lemma length_slices: "length (slices xs) = (length xs + 99) div 100"
proof (induction xs rule: slices.induct)
  case (1 xs)
  show ?case
  proof (cases "xs = []")
    case False
    then have "length (slices xs) = Suc ((length xs - 100 + 99) div 100)"
      using "1.IH" by (simp add: slices.simps [of xs] TEXTS_PER_EMBEDDING_CALL_def)
    also have "\<dots> = (length xs + 99) div 100"
    proof (cases "length xs \<le> 100")
      case True
      moreover have "Suc 0 \<le> length xs" using False by (cases xs) simp_all
      ultimately have "(length xs + 99) div 100 = 1" by (intro div_nat_eqI) simp_all
      then show ?thesis using True by simp
    qed simp
    finally show ?thesis .
  qed (simp add: slices.simps)
qed

section \<open>What a written chunk comes from\<close>

text \<open>The store from which the stored vectors are read: the others had two turns.\<close>

definition read_store :: "ix_world \<Rightarrow> knowledge_store" where
  "read_store w = xw_store (snd (ix_turn (snd (ix_turn w))))"

text \<open>A vector the embedder gave for a text with this hash, in one of the requests up to now.\<close>

definition answered :: "index_deps \<Rightarrow> document_row \<Rightarrow> string list list \<Rightarrow> string \<Rightarrow> string \<Rightarrow> bool" where
  "answered deps doc asked h e \<longleftrightarrow> (\<exists>k < length asked. \<exists>vs j. em_documents (ix_embedder deps) k (asked ! k) (kd_title doc) = Inr vs \<and>
     j < length vs \<and> length vs = length (asked ! k) \<and> ix_sha256 deps (asked ! k ! j) = h \<and> toPgVector (vs ! j) = Inr e)"

lemma answered_mono: "answered deps doc asked h e \<Longrightarrow> answered deps doc (asked @ later) h e"
  unfolding answered_def by (auto simp: nth_append)

lemma bind_Inr: "ix_bind m f w = (Inr x, w') \<longleftrightarrow> (\<exists>y w1. m w = (Inr y, w1) \<and> f y w1 = (Inr x, w'))"
  by (auto simp: ix_bind_def split: prod.split sum.split)

lemma retry_Inr: "retry k delay ok before fn w = (Inr x, w') \<Longrightarrow> \<exists>w1. fn w1 = (Inr x, w')"
proof (induction k arbitrary: delay w)
  case (Suc k)
  obtain r w1 where f: "fn w = (r, w1)" by (metis prod.collapse)
  show ?case
  proof (cases r)
    case (Inl e)
    show ?thesis
    proof (cases e)
      case (Failed_With c)
      then have "ix_bind (defaultSleep delay) (\<lambda>_. ix_bind before (\<lambda>_. retry k (2 * delay) ok before fn)) w1 = (Inr x, w')"
        using Suc.prems f Inl by (auto split: if_splits)
      then show ?thesis using Suc.IH unfolding bind_Inr by blast
    qed (use Suc.prems f Inl in auto)
  qed (use Suc.prems f in auto)
qed auto

lemma request_Inr:
  assumes "embed_request emb texts title w = (Inr vs, w')"
  shows "\<exists>k < length (xw_asked w'). xw_asked w' ! k = texts \<and> em_documents emb k texts title = Inr vs"
proof -
  obtain r w1 where t: "ix_turn w = (r, w1)" by (metis prod.collapse)
  then have "em_documents emb (length (xw_asked w1)) texts title = Inr vs" "xw_asked w' = xw_asked w1 @ [texts]"
    using assms by (auto simp: embed_request_def split: sum.splits)
  then show ?thesis by (intro exI [of _ "length (xw_asked w1)"]) simp
qed

lemma store_vectors_facts:
  assumes "store_vectors ds vs m = Inr m'" "length vs = length ds"
  shows "dom m' = dom m \<union> cf_textHash ` set ds \<and>
    (\<forall>h e. m' h = Some e \<longrightarrow> m h = Some e \<or> (\<exists>j < length ds. cf_textHash (ds ! j) = h \<and> toPgVector (vs ! j) = Inr e))"
  using assms
proof (induction ds vs m rule: store_vectors.induct)
  case (1 d ds v vs m)
  obtain x where x: "toPgVector v = Inr x" "store_vectors ds vs (m(cf_textHash d \<mapsto> x)) = Inr m'"
    using "1.prems"(1) by (auto split: sum.splits)
  have IH: "dom m' = dom (m(cf_textHash d \<mapsto> x)) \<union> cf_textHash ` set ds"
    "\<And>h e. m' h = Some e \<Longrightarrow> (m(cf_textHash d \<mapsto> x)) h = Some e \<or> (\<exists>j < length ds. cf_textHash (ds ! j) = h \<and> toPgVector (vs ! j) = Inr e)"
    using "1.IH" [OF x] "1.prems"(2) by auto
  have "m h = Some e \<or> (\<exists>j < length (d # ds). cf_textHash ((d # ds) ! j) = h \<and> toPgVector ((v # vs) ! j) = Inr e)"
    if "m' h = Some e" for h e
    using IH(2) [OF that]
  proof
    assume new: "(m(cf_textHash d \<mapsto> x)) h = Some e"
    show ?thesis
    proof (cases "h = cf_textHash d")
      case True
      then have "cf_textHash ((d # ds) ! 0) = h \<and> toPgVector ((v # vs) ! 0) = Inr e" using new x(1) by simp
      then show ?thesis by blast
    qed (use new in simp)
  next
    assume "\<exists>j < length ds. cf_textHash (ds ! j) = h \<and> toPgVector (vs ! j) = Inr e"
    then obtain j where "j < length ds" "cf_textHash (ds ! j) = h" "toPgVector (vs ! j) = Inr e" by blast
    then show ?thesis by (intro disjI2 exI [of _ "Suc j"]) simp
  qed
  then show ?case using IH(1) by auto
qed auto

lemma embed_slice_facts:
  assumes "embed_slice deps doc h0 slice m w = (Inr m', w')" "\<And>d. d \<in> set slice \<Longrightarrow> cf_textHash d = ix_sha256 deps (draft_text d)"
  shows "dom m' = dom m \<union> cf_textHash ` set slice \<and> (\<forall>h e. m' h = Some e \<longrightarrow> m h = Some e \<or> answered deps doc (xw_asked w') h e)"
proof -
  obtain vs w1 where vs: "withRetry (\<lambda>e w. \<not> xw_stopping w \<and> isRetryableEmbeddingError e) (stillClaimed (kd_id doc) h0)
      (embed_request (ix_embedder deps) (map draft_text slice) (kd_title doc)) w = (Inr vs, w1)"
    and rest: "length vs = length slice" "store_vectors slice vs m = Inr m'" "w' = w1"
    using assms(1) unfolding embed_slice_def bind_Inr
    by (auto simp: ix_throw_def ix_return_def split: if_splits option.splits sum.splits)
  obtain w0 where "embed_request (ix_embedder deps) (map draft_text slice) (kd_title doc) w0 = (Inr vs, w1)"
    using retry_Inr [OF vs [unfolded withRetry_def]] by blast
  then obtain k where k: "k < length (xw_asked w1)" "xw_asked w1 ! k = map draft_text slice"
    "em_documents (ix_embedder deps) k (map draft_text slice) (kd_title doc) = Inr vs"
    using request_Inr by blast
  have "answered deps doc (xw_asked w') h e" if "j < length slice" "cf_textHash (slice ! j) = h" "toPgVector (vs ! j) = Inr e" for h e j
    unfolding answered_def rest(3) using k that rest(1) assms(2) [of "slice ! j"]
    by (intro exI [of _ k] conjI exI [of _ vs] exI [of _ j]) simp_all
  then show ?thesis using store_vectors_facts [OF rest(2,1)] by blast
qed

lemma embed_slices_facts:
  assumes "embed_slices deps doc h0 first ss m w = (Inr m', w')"
    "\<And>s. s \<in> set ss \<Longrightarrow> length s \<le> TEXTS_PER_EMBEDDING_CALL"
    "\<And>d. d \<in> set (concat ss) \<Longrightarrow> cf_textHash d = ix_sha256 deps (draft_text d)"
  shows "dom m' = dom m \<union> cf_textHash ` set (concat ss) \<and> (\<forall>h e. m' h = Some e \<longrightarrow> m h = Some e \<or> answered deps doc (xw_asked w') h e)"
  using assms
proof (induction ss arbitrary: first m w)
  case Nil
  then show ?case by (simp add: ix_return_def)
next
  case (Cons slice ss)
  obtain w1 m1 w2 where step: "embed_slice deps doc h0 slice m w1 = (Inr m1, w2)" "embed_slices deps doc h0 False ss m1 w2 = (Inr m', w')"
    using Cons.prems(1) unfolding embed_slices.simps bind_Inr by blast
  have one: "dom m1 = dom m \<union> cf_textHash ` set slice" "\<And>h e. m1 h = Some e \<Longrightarrow> m h = Some e \<or> answered deps doc (xw_asked w2) h e"
    using embed_slice_facts [OF step(1)] Cons.prems(3) by auto
  have rest: "dom m' = dom m1 \<union> cf_textHash ` set (concat ss)" "\<And>h e. m' h = Some e \<Longrightarrow> m1 h = Some e \<or> answered deps doc (xw_asked w') h e"
    using Cons.IH [OF step(2)] Cons.prems(2,3) by auto
  have "asked_between (5 * length ss) w2 w'"
    using asks_slices [of ss deps doc h0 False m1] Cons.prems(2) step(2) by (metis asks_at_most_def list.set_intros(2) snd_conv)
  then obtain zs where "xw_asked w' = xw_asked w2 @ zs" by (auto simp: asked_between_def)
  then have kept: "answered deps doc (xw_asked w') h e" if "answered deps doc (xw_asked w2) h e" for h e
    using answered_mono [OF that] by simp
  have "m h = Some e \<or> answered deps doc (xw_asked w') h e" if e: "m' h = Some e" for h e
    using rest(2) [OF e]
  proof
    assume "m1 h = Some e"
    from one(2) [OF this] kept show ?thesis by blast
  qed simp
  moreover have "dom m' = dom m \<union> cf_textHash ` set (concat (slice # ss))"
    by (simp add: one(1) rest(1) Un_assoc image_Un)
  ultimately show ?case by blast
qed

lemma chunk_hash: "chunkDocument sha256 crumb d options = Some ds \<Longrightarrow> x \<in> set ds \<Longrightarrow> cf_textHash x = sha256 (draft_text x)"
  by (auto simp: chunkDocument_def draft_of_def Let_def draft_text_def)

lemma replaceChunks_written:
  assumes "replaceChunks i cs h v now s = (Inr True, s')"
  shows "(\<exists>d \<in> set (documents s'). kd_id d = i \<and> kd_status d = Idx_Indexed \<and> kd_contentHash d = Some h \<and> kd_indexedHash d = Some h \<and>
      kd_deletedAt d = None \<and> \<not> kd_restricted d) \<and> filter (\<lambda>c. ch_document c = i) (chunks s') = map (chunk_of i) cs"
proof -
  have found: "find_first (still_the_claim i h) (documents s) \<noteq> None" and s': "s' = (delete_chunks_of [i] s)\<lparr>
      chunks := chunks (delete_chunks_of [i] s) @ map (chunk_of i) cs, documents := update_where (\<lambda>d. kd_id d = i) (indexed_row h v now) (documents s)\<rparr>"
    using assms by (auto simp: replaceChunks_def Let_def delete_chunks_of_def split: if_splits)
  obtain r where r: "r \<in> set (documents s)" "still_the_claim i h r" using found by (auto simp: find_first_None)
  have "indexed_row h v now r \<in> set (documents s')"
    using r by (auto simp: s' set_update_where still_the_claim_def intro!: rev_image_eqI [of r])
  moreover have "filter (\<lambda>c. ch_document c = i) (map (chunk_of i) cs) = map (chunk_of i) cs"
    by (intro filter_True) (auto simp: chunk_of_def stored_chunk_input.extend_def)
  ultimately show ?thesis using r(2)
    by (auto simp: s' delete_chunks_of_def indexed_row_def still_the_claim_def filter_empty_conv intro!: bexI [of _ "indexed_row h v now r"])
qed

lemma read_Inr: "ix_query (\<lambda>_ s. (g s, s)) w = (Inr x, w1) \<longleftrightarrow> ix_turn w = (None, w1) \<and> x = g (xw_store w1)"
  by (auto simp: ix_query_def split: prod.split option.split)

lemma query_Inr: "ix_query f w = (Inr x, w') \<Longrightarrow> \<exists>now s. fst (f now s) = x \<and> xw_store w' = snd (f now s)"
  by (auto simp: ix_query_def split: prod.splits option.splits) (metis fst_conv snd_conv)

lemma write_chunks_indexed:
  assumes "write_chunks deps doc h ds m w = (Inr Out_Indexed, w')"
  shows "\<exists>now s. replaceChunks (kd_id doc) (map (stored_chunk (em_model (ix_embedder deps)) m) ds) h (ix_version deps) now s = (Inr True, xw_store w') \<and>
    xw_asked w' = xw_asked w"
proof -
  obtain r w1 where q: "ix_query (replaceChunks (kd_id doc) (map (stored_chunk (em_model (ix_embedder deps)) m) ds) h (ix_version deps)) w = (Inr r, w1)"
    and case_r: "(case r of Inr True \<Rightarrow> ix_return Out_Indexed | Inr False \<Rightarrow> ix_return Out_Superseded
        | Inl _ \<Rightarrow> ix_throw (Failed_With (plain_error ''duplicate key value violates unique constraint''))) w1 = (Inr Out_Indexed, w')"
    using assms unfolding write_chunks_def bind_Inr by blast
  have r: "r = Inr True" "w' = w1"
    using case_r by (auto simp: ix_return_def ix_throw_def split: sum.splits bool.splits)
  have "xw_asked w1 = xw_asked w" using q query_asked [of "replaceChunks (kd_id doc) (map (stored_chunk (em_model (ix_embedder deps)) m) ds) h (ix_version deps)" w]
    by simp
  then show ?thesis using query_Inr [OF q] r by (metis prod.collapse)
qed

section \<open>Properties\<close>

text \<open>
  C15: What the worker indexes is what it claimed: when it reports a document as indexed, the row
  still has the content hash it claimed, is live, public and marked indexed under that hash; its
  chunks are exactly the pieces of the claimed content, in order; and the vector of each chunk was
  stored before under the hash of its text or is the embedder's answer to a text with that hash,
  whatever others committed and however often a request was repeated.
\<close>

theorem indexed_content:
  assumes "indexDocument deps doc w = Some (Inr Out_Indexed, w')"
  shows "\<exists>h name ds stored. kd_contentHash doc = Some h \<and>
    chunkDocument (ix_sha256 deps) (ix_crumb deps) (chunkable doc name) (ix_chunking deps) = Some ds \<and>
    (\<exists>d \<in> set (documents (xw_store w')). kd_id d = kd_id doc \<and> kd_status d = Idx_Indexed \<and> kd_contentHash d = Some h \<and>
       kd_indexedHash d = Some h \<and> kd_deletedAt d = None \<and> \<not> kd_restricted d) \<and>
    filter (\<lambda>c. ch_document c = kd_id doc) (chunks (xw_store w')) = map (chunk_of (kd_id doc)) stored \<and>
    list_all2 (\<lambda>d c. ch_seq c = cf_seq d \<and> ch_prefix c = cf_prefix d \<and> ch_text c = cf_text d \<and>
      (existingChunkEmbeddings (kd_id doc) (em_model (ix_embedder deps)) (read_store w) (ix_sha256 deps (draft_text d)) = Some (ch_embedding c) \<or>
       answered deps doc (xw_asked w') (ix_sha256 deps (draft_text d)) (ch_embedding c))) ds stored"
proof -
  have run: "\<not> nothing_to_index doc" "\<not> up_to_date deps doc"
    using assms by (auto simp: indexDocument_def bind_Inr ix_return_def split: if_splits)
  obtain h where h: "kd_contentHash doc = Some h" using run(1) by (cases "kd_contentHash doc") (auto simp: nothing_to_index_def truthy_text_def)
  obtain name w1 ds where start: "ix_query (\<lambda>_ s. (ix_containerNameOf deps (kd_container doc) s, s)) w = (Inr name, w1)"
    "chunkDocument (ix_sha256 deps) (ix_crumb deps) (chunkable doc name) (ix_chunking deps) = Some ds"
    "index_drafts deps doc h ds w1 = (Inr Out_Indexed, w')"
    using assms run h by (auto simp: indexDocument_def text_or_empty_def split: prod.splits sum.splits option.splits)
  obtain reusable w2 where existing: "ix_query (\<lambda>_ s. (existingChunkEmbeddings (kd_id doc) (em_model (ix_embedder deps)) s, s)) w1 = (Inr reusable, w2)"
    and later: "(case embed_slices deps doc h True (slices (filter (\<lambda>d. cf_textHash d \<notin> dom reusable) ds)) reusable w2 of
          (Inl Claim_Lost, w1) \<Rightarrow> (Inr Out_Superseded, w1)
        | (Inl e, w1) \<Rightarrow> (Inl e, w1)
        | (Inr byHash, w1) \<Rightarrow> write_chunks deps doc h ds byHash w1) = (Inr Out_Indexed, w')"
    using start(3) unfolding index_drafts_def bind_Inr by blast
  obtain m w3 where m: "embed_slices deps doc h True (slices (filter (\<lambda>d. cf_textHash d \<notin> dom reusable) ds)) reusable w2 = (Inr m, w3)"
    "write_chunks deps doc h ds m w3 = (Inr Out_Indexed, w')"
    using later by (auto split: prod.splits sum.splits pipe_error.splits)
  have reusable: "reusable = existingChunkEmbeddings (kd_id doc) (em_model (ix_embedder deps)) (read_store w)"
    using existing start(1) unfolding read_Inr by (simp add: read_store_def)
  have hash: "cf_textHash d = ix_sha256 deps (draft_text d)" if "d \<in> set ds" for d using chunk_hash [OF start(2) that] .
  have short: "length sl \<le> TEXTS_PER_EMBEDDING_CALL" if "sl \<in> set (slices (filter (\<lambda>d. cf_textHash d \<notin> dom reusable) ds))" for sl
    by (rule slice_length [OF that])
  have hashed: "cf_textHash d = ix_sha256 deps (draft_text d)"
    if "d \<in> set (concat (slices (filter (\<lambda>d. cf_textHash d \<notin> dom reusable) ds)))" for d
    using that hash unfolding concat_slices by simp
  have slice_facts: "dom m = dom reusable \<union> cf_textHash ` set (filter (\<lambda>d. cf_textHash d \<notin> dom reusable) ds)"
    "\<forall>k e. m k = Some e \<longrightarrow> reusable k = Some e \<or> answered deps doc (xw_asked w3) k e"
    using embed_slices_facts [OF m(1) short hashed] unfolding concat_slices by blast+
  obtain now s where written: "replaceChunks (kd_id doc) (map (stored_chunk (em_model (ix_embedder deps)) m) ds) h (ix_version deps) now s = (Inr True, xw_store w')"
    "xw_asked w' = xw_asked w3" using write_chunks_indexed [OF m(2)] by blast
  have "reusable (ix_sha256 deps (draft_text d)) = Some (ch_embedding (stored_chunk (em_model (ix_embedder deps)) m d)) \<or>
      answered deps doc (xw_asked w') (ix_sha256 deps (draft_text d)) (ch_embedding (stored_chunk (em_model (ix_embedder deps)) m d))"
    if d: "d \<in> set ds" for d
  proof -
    have "cf_textHash d \<in> dom m" using slice_facts(1) d by auto
    then obtain e where "m (cf_textHash d) = Some e" by blast
    then show ?thesis using slice_facts(2) hash [OF d] written(2) by (auto simp: stored_chunk_def)
  qed
  then have "list_all2 (\<lambda>d c. ch_seq c = cf_seq d \<and> ch_prefix c = cf_prefix d \<and> ch_text c = cf_text d \<and>
      (reusable (ix_sha256 deps (draft_text d)) = Some (ch_embedding c) \<or>
       answered deps doc (xw_asked w') (ix_sha256 deps (draft_text d)) (ch_embedding c))) ds (map (stored_chunk (em_model (ix_embedder deps)) m) ds)"
    unfolding list_all2_conv_all_nth by (auto simp: stored_chunk_def)
  with replaceChunks_written [OF written(1)] h start(2) show ?thesis unfolding reusable by blast
qed

lemma asks_drafts: "asks_at_most (0 + 5 * ((length ds + 99) div 100)) (index_drafts deps doc h ds)"
  unfolding index_drafts_def
proof (rule asks_bind)
  show "asks_at_most 0 (ix_query (\<lambda>_ s. (existingChunkEmbeddings (kd_id doc) (em_model (ix_embedder deps)) s, s)))"
    by (simp add: asks_at_most_def asked_same)
  fix reusable :: "string \<rightharpoonup> string"
  let ?ss = "slices (filter (\<lambda>d. cf_textHash d \<notin> dom reusable) ds)"
  have "length ?ss \<le> (length ds + 99) div 100" unfolding length_slices by (intro div_le_mono) simp
  moreover have "asks_at_most (5 * length ?ss) (embed_slices deps doc h True ?ss reusable)"
    by (intro asks_slices slice_length)
  ultimately have embed: "asked_between (5 * ((length ds + 99) div 100)) w (snd (embed_slices deps doc h True ?ss reusable w))" for w
    unfolding asks_at_most_def by (meson asked_mono mult_le_mono2)
  have writing: "xw_asked (snd (write_chunks deps doc h ds m w)) = xw_asked w" for m w
    using query_asked [of "replaceChunks (kd_id doc) (map (stored_chunk (em_model (ix_embedder deps)) m) ds) h (ix_version deps)" w]
    by (auto simp: write_chunks_def ix_bind_def ix_return_def ix_throw_def simp del: query_asked split: prod.split sum.split bool.split)
  show "asks_at_most (5 * ((length ds + 99) div 100)) (\<lambda>w. case embed_slices deps doc h True ?ss reusable w of
      (Inl Claim_Lost, w1) \<Rightarrow> (Inr Out_Superseded, w1) | (Inl e, w1) \<Rightarrow> (Inl e, w1)
    | (Inr byHash, w1) \<Rightarrow> write_chunks deps doc h ds byHash w1)"
    unfolding asks_at_most_def
  proof
    fix w
    obtain r w1 where e: "embed_slices deps doc h True ?ss reusable w = (r, w1)" by (metis prod.collapse)
    have one: "asked_between (5 * ((length ds + 99) div 100)) w w1" using embed [of w] by (simp add: e)
    have "asked_between (5 * ((length ds + 99) div 100)) w (snd (write_chunks deps doc h ds m w1))" for m
      using one writing [of m w1] by (simp add: asked_between_def)
    then show "asked_between (5 * ((length ds + 99) div 100)) w (snd (case embed_slices deps doc h True ?ss reusable w of
      (Inl Claim_Lost, w1) \<Rightarrow> (Inr Out_Superseded, w1) | (Inl e, w1) \<Rightarrow> (Inl e, w1)
    | (Inr byHash, w1) \<Rightarrow> write_chunks deps doc h ds byHash w1))"
      using one by (simp add: e split: sum.split pipe_error.split)
  qed
qed

text \<open>
  The embedder is asked a bounded number of times: indexing a document of \<open>n\<close> chunks makes at
  most five requests for each started hundred chunks, none with more than a hundred texts, whatever
  the embedder answers and whatever fails.
\<close>

theorem embedding_requests_bounded:
  assumes "indexDocument deps doc w = Some (r, w')"
  shows "xw_asked w' = xw_asked w \<or> (\<exists>name ds zs.
    chunkDocument (ix_sha256 deps) (ix_crumb deps) (chunkable doc name) (ix_chunking deps) = Some ds \<and>
    xw_asked w' = xw_asked w @ zs \<and> length zs \<le> 5 * ((length ds + 99) div 100) \<and> (\<forall>ts \<in> set zs. length ts \<le> 100))"
proof (cases "nothing_to_index doc \<or> up_to_date deps doc")
  case True
  have one: "xw_asked (snd (ix_bind (ix_query f) (\<lambda>_. ix_return x) w)) = xw_asked w" for f :: "int \<Rightarrow> knowledge_store \<Rightarrow> unit \<times> knowledge_store" and x :: index_outcome
    using query_asked [of f w] by (auto simp: ix_bind_def ix_return_def simp del: query_asked split: prod.split sum.split)
  have "(r, w') = ix_bind (ix_query (\<lambda>now s. ((), markSkipped (kd_id doc) now s))) (\<lambda>_. ix_return Out_Skipped) w \<or>
      (r, w') = ix_bind (ix_query (\<lambda>now s. ((), markUnchanged (kd_id doc) (ix_version deps) now s))) (\<lambda>_. ix_return Out_Unchanged) w"
    using assms True by (simp add: indexDocument_def split: if_splits)
  then show ?thesis using one by (metis snd_conv)
next
  case False
  obtain q w1 where q: "ix_query (\<lambda>_ s. (ix_containerNameOf deps (kd_container doc) s, s)) w = (q, w1)" by (metis prod.collapse)
  then have same: "xw_asked w1 = xw_asked w" by (metis query_asked snd_conv)
  show ?thesis
  proof (cases q)
    case (Inl e)
    then show ?thesis using assms False q same by (auto simp: indexDocument_def)
  next
    case (Inr name)
    obtain ds where ds: "chunkDocument (ix_sha256 deps) (ix_crumb deps) (chunkable doc name) (ix_chunking deps) = Some ds"
      "index_drafts deps doc (text_or_empty (kd_contentHash doc)) ds w1 = (r, w')"
      using assms False q Inr by (auto simp: indexDocument_def split: option.splits)
    have "asks_at_most (0 + 5 * ((length ds + 99) div 100)) (index_drafts deps doc h ds)" for h
      by (rule asks_drafts)
    from this [of "text_or_empty (kd_contentHash doc)", unfolded asks_at_most_def, rule_format, of w1]
    have "asked_between (5 * ((length ds + 99) div 100)) w1 w'" by (simp add: ds(2))
    then show ?thesis using ds(1) same unfolding asked_between_def TEXTS_PER_EMBEDDING_CALL_def by auto
  qed
qed

definition settled :: "loop_stats \<Rightarrow> nat" where
  "settled st = ls_indexed st + ls_unchanged st + ls_skipped st + ls_superseded st + ls_failed st"

lemma turn_stopping: "xw_stopping w \<Longrightarrow> xw_stopping (snd (ix_turn w))"
  by (auto simp: ix_turn_def split: list.split)

lemma handBack_stopping: "xw_stopping w \<Longrightarrow> xw_stopping (handBack doc w)"
proof -
  assume "xw_stopping w"
  moreover obtain r w1 where t: "ix_turn w = (r, w1)" by (metis prod.collapse)
  ultimately have "xw_stopping w1" using turn_stopping [of w] by simp
  then show ?thesis by (simp add: handBack_def ix_query_def t split: option.split)
qed

lemma count_settled [simp]: "settled (count_outcome out st) = settled st + 1" "ls_claimed (count_outcome out st) = ls_claimed st"
  by (cases out; simp add: count_outcome_def settled_def)+

lemma run_document_counts:
  assumes "run_document deps d (stats, w) = Some (stats', w')"
  shows "ls_claimed stats' = ls_claimed stats \<and> (settled stats' = settled stats + 1 \<or> settled stats' = settled stats \<and> xw_stopping w') \<and>
    (xw_stopping w \<longrightarrow> xw_stopping w' \<and> settled stats' = settled stats)"
proof (cases "xw_stopping w")
  case True
  then show ?thesis using assms handBack_stopping by (auto simp: run_document_def)
next
  case False
  obtain r w1 where i: "indexDocument deps d w = Some (r, w1)"
    using assms False by (auto simp: run_document_def split: option.splits prod.splits)
  show ?thesis
  proof (cases r)
    case (Inr out)
    then show ?thesis using assms False i by (auto simp: run_document_def)
  next
    case (Inl e)
    show ?thesis
    proof (cases "xw_stopping w1")
      case True
      then show ?thesis using assms False i Inl handBack_stopping by (auto simp: run_document_def)
    next
      case go: False
      then have "stats' = stats\<lparr>ls_failed := ls_failed stats + 1\<rparr>" using assms False i Inl by (simp add: run_document_def)
      then show ?thesis using False by (simp add: settled_def)
    qed
  qed
qed

lemma run_documents_counts:
  assumes "run_documents deps ds (stats, w) = Some (stats', w')"
  shows "ls_claimed stats' = ls_claimed stats \<and> settled stats \<le> settled stats' \<and> settled stats' \<le> settled stats + length ds \<and>
    (settled stats' = settled stats + length ds \<or> xw_stopping w') \<and> (xw_stopping w \<longrightarrow> xw_stopping w')"
  using assms
proof (induction ds arbitrary: stats w)
  case (Cons d ds)
  obtain stats1 w1 where one: "run_document deps d (stats, w) = Some (stats1, w1)" "run_documents deps ds (stats1, w1) = Some (stats', w')"
    using Cons.prems by (cases "run_document deps d (stats, w)") auto
  show ?case using run_document_counts [OF one(1)] Cons.IH [OF one(2)] by auto
qed simp

text \<open>
  The accounts of a batch: every claimed document is counted at most once, as indexed,
  unchanged, skipped, superseded or failed; and if the worker was not told to stop, each is
  counted.
\<close>

theorem batch_accounts:
  assumes "runOnce deps batchSize w = Some (Inr stats, w')"
  shows "settled stats \<le> ls_claimed stats \<and> (\<not> xw_stopping w' \<longrightarrow> settled stats = ls_claimed stats)"
proof -
  obtain q w1 where q: "ix_query (claimPending batchSize CLAIM_STALE_MS) w = (q, w1)" by (metis prod.collapse)
  then obtain ds where ds: "q = Inr ds" using assms by (cases q) (auto simp: runOnce_def)
  let ?st = "\<lparr>ls_claimed = length ds, ls_indexed = 0, ls_unchanged = 0, ls_skipped = 0, ls_superseded = 0, ls_failed = 0\<rparr>"
  have "run_documents deps ds (?st, progress w1) = Some (stats, w')"
    using assms q ds by (auto simp: runOnce_def)
  from run_documents_counts [OF this] show ?thesis by (auto simp: settled_def)
qed

section \<open>A worked batch\<close>

definition wiki_embedder :: embedder where
  "wiki_embedder = \<lparr>em_model = ''m'', em_dimensions = 1, em_documents = \<lambda>k texts title. Inr (map (\<lambda>_. [Some ''0.5'']) texts)\<rparr>"

definition wiki_deps :: index_deps where
  "wiki_deps = \<lparr>ix_embedder = wiki_embedder, ix_chunking = small_options, ix_version = 1, ix_containerNameOf = \<lambda>i s. ''Wiki'',
     ix_sha256 = id, ix_crumb = '' > ''\<rparr>"

definition wiki_world :: ix_world where
  "wiki_world = \<lparr>xw_store = snd (claimPending 5 CLAIM_STALE_MS 7 (wiki_stored [wiki_text])), xw_now = 8, xw_ticks = [],
     xw_stopping = False, xw_asked = [], xw_progressAt = 0\<rparr>"

definition wiki_claimed :: document_row where
  "wiki_claimed = hd (fst (claimPending 5 CLAIM_STALE_MS 7 (wiki_stored [wiki_text])))"

lemma wiki_indexed: "map_option fst (indexDocument wiki_deps wiki_claimed wiki_world) = Some (Inr Out_Indexed)"
  by code_simp

theorem indexed_content_witness:
  "\<exists>w' d. indexDocument wiki_deps wiki_claimed wiki_world = Some (Inr Out_Indexed, w') \<and> d \<in> set (documents (xw_store w')) \<and>
    kd_status d = Idx_Indexed \<and> kd_indexedHash d = kd_contentHash wiki_claimed"
proof -
  obtain w' where w': "indexDocument wiki_deps wiki_claimed wiki_world = Some (Inr Out_Indexed, w')"
    using wiki_indexed by (auto simp: map_option_eq_Some)
  obtain h d where "kd_contentHash wiki_claimed = Some h" "d \<in> set (documents (xw_store w'))" "kd_status d = Idx_Indexed" "kd_indexedHash d = Some h"
    using indexed_content [OF w'] by blast
  then show ?thesis using w' by auto
qed

theorem embedding_requests_bounded_witness:
  "\<exists>w'. indexDocument wiki_deps wiki_claimed wiki_world = Some (Inr Out_Indexed, w') \<and>
    (xw_asked w' = [] \<or> (\<exists>name ds. chunkDocument id '' > '' (chunkable wiki_claimed name) small_options = Some ds \<and>
      length (xw_asked w') \<le> 5 * ((length ds + 99) div 100)))"
proof -
  obtain w' where w': "indexDocument wiki_deps wiki_claimed wiki_world = Some (Inr Out_Indexed, w')"
    using wiki_indexed by (auto simp: map_option_eq_Some)
  have deps: "xw_asked wiki_world = []" "ix_sha256 wiki_deps = id" "ix_crumb wiki_deps = '' > ''" "ix_chunking wiki_deps = small_options"
    by (simp_all add: wiki_world_def wiki_deps_def)
  show ?thesis using embedding_requests_bounded [OF w'] w' unfolding deps by auto
qed

lemma wiki_batch_runs: "map_option (map_sum (\<lambda>_. ()) ls_claimed \<circ> fst) (runOnce wiki_deps 5 (wiki_world\<lparr>xw_store := wiki_stored [wiki_text]\<rparr>)) = Some (Inr 1)"
  by code_simp

theorem batch_accounts_witness:
  "\<exists>stats w'. runOnce wiki_deps 5 (wiki_world\<lparr>xw_store := wiki_stored [wiki_text]\<rparr>) = Some (Inr stats, w') \<and>
    ls_claimed stats = 1 \<and> settled stats \<le> 1"
proof -
  obtain r w' where r: "runOnce wiki_deps 5 (wiki_world\<lparr>xw_store := wiki_stored [wiki_text]\<rparr>) = Some (r, w')" "map_sum (\<lambda>_. ()) ls_claimed r = Inr 1"
    using wiki_batch_runs by (auto simp: map_option_eq_Some)
  then obtain stats where "r = Inr stats" "ls_claimed stats = 1" by (cases r) auto
  then show ?thesis using batch_accounts [of wiki_deps 5] r(1) by fastforce
qed

end
