(* ===== verification/Knowledge_Sink.thy ===== *)
theory Knowledge_Sink
  imports Knowledge_Safety
begin

text \<open>
  Redaction (\<open>packages/knowledge/src/redaction.ts\<close>) and the sink through which connectors write to
  the knowledge store (\<open>packages/knowledge/src/sink.ts\<close>). The linter that finds secrets is a
  third-party library and a parameter: what it reports of a text, as ranges with a rule.
\<close>

section \<open>Redaction\<close>

record lint_message =
  lm_isMessage :: bool
  lm_start :: nat
  lm_end :: nat
  lm_ruleId :: string

record secret_range =
  rg_start :: nat
  rg_end :: nat
  rg_rule :: string

text \<open>The directives that would switch the linter off, blanked out at their length.\<close>

function blankDirectives :: "string \<Rightarrow> string" where
  "blankDirectives [] = []"
| "blankDirectives (c # cs) =
     (if starts_with (c # cs) ''secretlint-disable'' then replicate 18 CHR ''x'' @ blankDirectives (drop 17 cs)
      else if starts_with (c # cs) ''secretlint-enable'' then replicate 17 CHR ''x'' @ blankDirectives (drop 16 cs)
      else c # blankDirectives cs)"
  by pat_completeness auto
termination by (relation "measure length") auto

definition RULE_PREFIX :: string where
  "RULE_PREFIX = ''@secretlint/secretlint-rule-''"

definition shortRule :: "string \<Rightarrow> string" where
  "shortRule ruleId = (if starts_with ruleId RULE_PREFIX then drop (length RULE_PREFIX) ruleId else ruleId)"

definition stripNul :: "string \<Rightarrow> string" where
  "stripNul text = filter (\<lambda>c. c \<noteq> CHR 0x00) text"

definition range_of :: "lint_message \<Rightarrow> secret_range" where
  "range_of m = \<lparr>rg_start = lm_start m, rg_end = lm_end m, rg_rule = shortRule (lm_ruleId m)\<rparr>"

definition reported :: "(string \<Rightarrow> lint_message list) \<Rightarrow> string \<Rightarrow> secret_range list" where
  "reported lint text = js_sort (\<lambda>a b. of_int (int (rg_start a) - int (rg_start b)))
     (map range_of (filter lm_isMessage (lint (blankDirectives text))))"

text \<open>The merged ranges, the last one first.\<close>

fun merge_range :: "secret_range \<Rightarrow> secret_range list \<Rightarrow> secret_range list" where
  "merge_range r [] = [r]"
| "merge_range r (l # rest) =
     (if rg_start r \<le> rg_end l then l\<lparr>rg_end := max (rg_end l) (rg_end r)\<rparr> # rest else r # l # rest)"

definition marker :: "secret_range \<Rightarrow> string" where
  "marker r = ''[redacted:'' @ rg_rule r @ '']''"

definition splice :: "secret_range \<Rightarrow> string \<Rightarrow> string" where
  "splice r out = take (rg_start r) out @ marker r @ drop (rg_end r) out"

definition redactText :: "(string \<Rightarrow> lint_message list) \<Rightarrow> string \<Rightarrow> string \<times> nat" where
  "redactText lint input =
     (let text = stripNul input in
      if text = [] then (text, 0)
      else let merged = fold merge_range (reported lint text) [] in (fold splice merged text, length merged))"

fun redactSegments :: "(string \<Rightarrow> lint_message list) \<Rightarrow> document_segment list \<Rightarrow> document_segment list \<times> nat" where
  "redactSegments lint [] = ([], 0)"
| "redactSegments lint (g # gs) =
     (let (text, n) = redactText lint (seg_text g); (out, count) = redactSegments lint gs in
      ((if text \<noteq> seg_text g then g\<lparr>seg_text := text\<rparr> else g) # out, n + count))"

text \<open>Every string in a JSON value, property names included.\<close>

definition object_put :: "(string \<times> jsval) list \<Rightarrow> string \<Rightarrow> jsval \<Rightarrow> (string \<times> jsval) list" where
  "object_put kvs k v =
     (if k \<in> fst ` set kvs then map (\<lambda>(k', v'). if k' = k then (k', v) else (k', v')) kvs else kvs @ [(k, v)])"

fun redactStrings :: "(string \<Rightarrow> lint_message list) \<Rightarrow> jsval \<Rightarrow> jsval \<times> nat"
  and redact_items :: "(string \<Rightarrow> lint_message list) \<Rightarrow> jsval list \<Rightarrow> jsval list \<times> nat"
  and redact_entries :: "(string \<Rightarrow> lint_message list) \<Rightarrow> (string \<times> jsval) list \<Rightarrow> (string \<times> jsval) list \<Rightarrow> (string \<times> jsval) list \<times> nat" where
  "redactStrings lint (JStr s) = (case redactText lint s of (t, n) \<Rightarrow> (JStr t, n))"
| "redactStrings lint (JArr xs) = (case redact_items lint xs of (ys, n) \<Rightarrow> (JArr ys, n))"
| "redactStrings lint (JObj kvs) = (case redact_entries lint kvs [] of (out, n) \<Rightarrow> (JObj out, n))"
| "redactStrings lint v = (v, 0)"
| "redact_items lint [] = ([], 0)"
| "redact_items lint (x # xs) =
     (case redactStrings lint x of (y, n) \<Rightarrow> case redact_items lint xs of (ys, m) \<Rightarrow> (y # ys, n + m))"
| "redact_entries lint [] out = (out, 0)"
| "redact_entries lint ((k, v) # rest) out =
     (case redactText lint k of (name, n) \<Rightarrow> case redactStrings lint v of (x, m) \<Rightarrow>
       case redact_entries lint rest (object_put out name x) of (out', l) \<Rightarrow> (out', n + m + l))"

section \<open>The sink\<close>

definition nonempty_text :: "string option \<Rightarrow> bool" where
  "nonempty_text v = (case v of Some t \<Rightarrow> t \<noteq> [] | None \<Rightarrow> False)"

text \<open>A text that counts as true loses its NULs, any other stays.\<close>

definition strip_optional :: "string option \<Rightarrow> string option" where
  "strip_optional v = (if nonempty_text v then map_option stripNul v else v)"

definition storable :: "source_container \<Rightarrow> source_container" where
  "storable c = c\<lparr>sc_name := stripNul (sc_name c), sc_url := strip_optional (sc_url c)\<rparr>"

definition storablePrincipal :: "source_principal \<Rightarrow> source_principal" where
  "storablePrincipal p = p\<lparr>sp_displayName := stripNul (sp_displayName p), sp_email := strip_optional (sp_email p),
     sp_login := strip_optional (sp_login p)\<rparr>"

definition restricted_stub :: "document_input \<Rightarrow> document_input" where
  "restricted_stub d = d\<lparr>di_url := stripNul (di_url d), di_segments := [], di_title := [], di_attributes := JObj [],
     di_author := None, di_participants := []\<rparr>"

fun redact_headings :: "(string \<Rightarrow> lint_message list) \<Rightarrow> string list \<Rightarrow> string list \<times> nat" where
  "redact_headings lint [] = ([], 0)"
| "redact_headings lint (h # hs) =
     (case redactText lint h of (t, n) \<Rightarrow> case redact_headings lint hs of (ts, m) \<Rightarrow> (t # ts, n + m))"

definition redact_rest :: "(string \<Rightarrow> lint_message list) \<Rightarrow> document_segment \<Rightarrow> document_segment \<times> nat" where
  "redact_rest lint g =
     (case redactText lint (seg_key g) of (key, n) \<Rightarrow>
        let g1 = g\<lparr>seg_key := key, seg_authorName := strip_optional (seg_authorName g), seg_url := strip_optional (seg_url g)\<rparr> in
        (case seg_headingPath g of
           None \<Rightarrow> (g1, n)
         | Some path \<Rightarrow> (case redact_headings lint path of (hs, m) \<Rightarrow> (g1\<lparr>seg_headingPath := Some hs\<rparr>, n + m))))"

fun redact_all :: "(string \<Rightarrow> lint_message list) \<Rightarrow> document_segment list \<Rightarrow> document_segment list \<times> nat" where
  "redact_all lint [] = ([], 0)"
| "redact_all lint (g # gs) =
     (case redact_rest lint g of (g', n) \<Rightarrow> case redact_all lint gs of (gs', m) \<Rightarrow> (g' # gs', n + m))"

definition redact_document :: "(string \<Rightarrow> lint_message list) \<Rightarrow> document_input \<Rightarrow> document_input \<times> nat" where
  "redact_document lint d =
     (case redactSegments lint (di_segments d) of (segments, n1) \<Rightarrow>
      case redact_all lint segments of (withHeadings, n2) \<Rightarrow>
      case redactText lint (di_title d) of (title, n3) \<Rightarrow>
      case redactStrings lint (di_attributes d) of (attributes, n4) \<Rightarrow>
        (d\<lparr>di_url := stripNul (di_url d), di_segments := withHeadings, di_title := title, di_attributes := attributes\<rparr>,
         n1 + n2 + n3 + n4))"

fun redact_batch ::
    "(string \<Rightarrow> lint_message list) \<Rightarrow> document_input list \<Rightarrow> (string \<rightharpoonup> nat) \<Rightarrow> document_input list \<times> (string \<rightharpoonup> nat)" where
  "redact_batch lint [] redactions = ([], redactions)"
| "redact_batch lint (d # ds) redactions =
     (if di_restricted d
      then (case redact_batch lint ds redactions of (out, m) \<Rightarrow> (restricted_stub d # out, m))
      else (case redact_document lint d of (d', count) \<Rightarrow>
        case redact_batch lint ds (if count > 0 then redactions(di_externalId d \<mapsto> count) else redactions) of
          (out, m) \<Rightarrow> (d' # out, m)))"

definition sink_upsertContainers :: "string \<Rightarrow> source_container list \<Rightarrow> int \<Rightarrow> knowledge_store \<Rightarrow> knowledge_store" where
  "sink_upsertContainers connector cs now s = upsertContainers connector (map storable cs) now s"

definition sink_upsertContainer :: "string \<Rightarrow> source_container \<Rightarrow> int \<Rightarrow> knowledge_store \<Rightarrow> knowledge_store" where
  "sink_upsertContainer connector c now s = upsertContainer connector (storable c) now s"

definition sink_upsertPrincipals :: "string \<Rightarrow> source_principal list \<Rightarrow> knowledge_store \<Rightarrow> knowledge_store" where
  "sink_upsertPrincipals connector ps s = upsertPrincipals connector (map storablePrincipal ps) s"

definition sink_selectedContainers :: "collation \<Rightarrow> string \<Rightarrow> run_kind \<Rightarrow> knowledge_store \<Rightarrow> selected_container list" where
  "sink_selectedContainers coll connector mode s = selectedContainers coll connector mode s"

definition sink_markVisited :: "string \<Rightarrow> selected_container \<Rightarrow> run_kind \<Rightarrow> int \<Rightarrow> knowledge_store \<Rightarrow> knowledge_store" where
  "sink_markVisited connector c mode now s = markVisited connector c mode now s"

text \<open>The answer, and whether the worker is woken up.\<close>

definition sink_storeBatch ::
    "(string \<Rightarrow> string) \<Rightarrow> (string \<Rightarrow> lint_message list) \<Rightarrow> string \<Rightarrow> selected_container \<Rightarrow> change_batch \<Rightarrow> int \<Rightarrow> knowledge_store
      \<Rightarrow> ((knowledge_error + nat \<times> nat) \<times> bool) \<times> knowledge_store" where
  "sink_storeBatch sha256 lint connector container batch now s =
     (case redact_batch lint (cb_documents batch) Map.empty of (docs, redactions) \<Rightarrow>
      case storeBatch sha256 connector container
          (batch\<lparr>cb_documents := docs, cb_principals := map_option (map storablePrincipal) (cb_principals batch)\<rparr>) redactions now s of
        (r, s') \<Rightarrow> ((r, case r of Inr (changed, _) \<Rightarrow> changed > 0 | Inl _ \<Rightarrow> False), s'))"

definition sink_pruneMissing ::
    "string \<Rightarrow> selected_container \<Rightarrow> string list \<Rightarrow> prune_options \<Rightarrow> int \<Rightarrow> knowledge_store \<Rightarrow> nat \<times> knowledge_store" where
  "sink_pruneMissing connector container presentIds options now s = pruneMissing connector container presentIds options now s"

end
