(* ===== verification/Knowledge_Harness.thy ===== *)
theory Knowledge_Harness
  imports Knowledge_Sink
begin

text \<open>
  One run of a knowledge connector (\<open>packages/connector-sdk/src/knowledge/harness.ts\<close> with
  \<open>errors.ts\<close>): the nightly reconcile and the poll, over the sink of \<open>Knowledge_Sink\<close>. The
  connector is a parameter: what each of its calls yields, and where it throws, may be anything
  and may depend on the time of the call. At every awaited call the others get a turn. What was
  asked of the sink is kept in a list.
\<close>

section \<open>Errors and the connector\<close>

record run_error =
  re_message :: string
  re_status :: "int option"
  re_statusCode :: "int option"
  re_code :: "string option"
  re_note :: string

definition CONTAINER_CHANGED_CODE :: string where "CONTAINER_CHANGED_CODE = ''KNOWLEDGE_CONTAINER_CHANGED''"
definition RUN_CUT_SHORT :: string where "RUN_CUT_SHORT = ''KNOWLEDGE_RUN_CUT_SHORT''"

definition isContainerChanged :: "run_error \<Rightarrow> bool" where
  "isContainerChanged e = (re_code e = Some CONTAINER_CHANGED_CODE)"

definition isRunCutShort :: "run_error \<Rightarrow> bool" where
  "isRunCutShort e = (re_code e = Some RUN_CUT_SHORT)"

definition statusOf :: "run_error \<Rightarrow> int option" where
  "statusOf e = (case re_status e of Some n \<Rightarrow> Some n | None \<Rightarrow> re_statusCode e)"

definition error_of :: "string \<Rightarrow> string option \<Rightarrow> run_error" where
  "error_of message code = \<lparr>re_message = message, re_status = None, re_statusCode = None, re_code = code, re_note = []\<rparr>"

text \<open>An asynchronous iteration: what it yields in turn, until it ends or throws.\<close>

datatype 'a iteration = Yields 'a | Throws run_error

record knowledge_connector =
  kn_authenticate :: "int \<Rightarrow> run_error + (bool \<times> string option)"
  kn_listContainers :: "int \<Rightarrow> source_container iteration list"
  kn_listPrincipals :: "int \<Rightarrow> source_principal iteration list"
  kn_fetchChanges :: "selected_container \<Rightarrow> string option \<Rightarrow> int \<Rightarrow> change_batch iteration list"
  kn_prunableKinds :: "document_kind list option"
  kn_listDocumentIds :: "selected_container \<Rightarrow> int \<Rightarrow> string list iteration list"
  kn_reconcile :: "(selected_container \<Rightarrow> int \<Rightarrow> change_batch iteration list) option"

section \<open>A run\<close>

datatype run_result_status = Run_Success | Run_Partial | Run_Failed

record run_result =
  rr_status :: run_result_status
  rr_synced :: nat
  rr_deleted :: nat
  rr_processed :: nat
  rr_errors :: "string list"
  rr_authFailed :: bool
  rr_budgetExhausted :: bool
  rr_notes :: "string list"
  rr_durationMs :: int

datatype sink_call = Call_Store selected_container change_batch | Call_Prune selected_container "string list"
  | Call_Visited selected_container

record run_state =
  hs_store :: knowledge_store
  hs_now :: int
  hs_ticks :: "ix_tick list"
  hs_stopping :: bool
  hs_result :: run_result
  hs_calls :: "sink_call list"

record harness_env =
  he_sha256 :: "string \<Rightarrow> string"
  he_lint :: "string \<Rightarrow> lint_message list"
  he_coll :: collation
  he_connectorId :: string
  he_connector :: knowledge_connector
  he_budgetMs :: int

type_synonym 'a run_act = "run_state \<Rightarrow> (run_error + 'a) \<times> run_state"

definition run_bind :: "'a run_act \<Rightarrow> ('a \<Rightarrow> 'b run_act) \<Rightarrow> 'b run_act" where
  "run_bind m f w = (case m w of (Inl e, w1) \<Rightarrow> (Inl e, w1) | (Inr x, w1) \<Rightarrow> f x w1)"

definition run_turn :: "run_state \<Rightarrow> string option \<times> run_state" where
  "run_turn w = (case hs_ticks w of
     [] \<Rightarrow> (None, w)
   | t # ts \<Rightarrow> (xt_fails t, w\<lparr>hs_store := xt_commits t (hs_store w), hs_now := xt_now t, hs_ticks := ts,
       hs_stopping := (hs_stopping w \<or> xt_stop t)\<rparr>))"

definition await :: "run_state \<Rightarrow> run_state" where
  "await w = snd (run_turn w)"

definition sink_op :: "(int \<Rightarrow> knowledge_store \<Rightarrow> 'a \<times> knowledge_store) \<Rightarrow> 'a run_act" where
  "sink_op f w = (case run_turn w of
     (Some message, w1) \<Rightarrow> (Inl (error_of message None), w1)
   | (None, w1) \<Rightarrow> (case f (hs_now w1) (hs_store w1) of (x, s) \<Rightarrow> (Inr x, w1\<lparr>hs_store := s\<rparr>)))"

definition with_result :: "(run_result \<Rightarrow> run_result) \<Rightarrow> run_state \<Rightarrow> run_state" where
  "with_result f w = w\<lparr>hs_result := f (hs_result w)\<rparr>"

definition called :: "sink_call \<Rightarrow> run_state \<Rightarrow> run_state" where
  "called c w = w\<lparr>hs_calls := hs_calls w @ [c]\<rparr>"

definition addNotes :: "string list \<Rightarrow> run_result \<Rightarrow> run_result" where
  "addNotes notes r = r\<lparr>rr_notes := fold (\<lambda>n ns. set_add ns n) notes (rr_notes r)\<rparr>"

definition batch_notes :: "change_batch \<Rightarrow> string list" where
  "batch_notes b = (case cb_notes b of Some ns \<Rightarrow> ns | None \<Rightarrow> [])"

definition exhausted :: "run_result \<Rightarrow> run_result" where
  "exhausted r = r\<lparr>rr_budgetExhausted := True\<rparr>"

definition budgetLeft :: "int \<Rightarrow> run_state \<Rightarrow> bool \<times> run_state" where
  "budgetLeft deadline w =
     (if \<not> hs_stopping w \<and> hs_now w < deadline then (True, w) else (False, with_result exhausted w))"

definition recordError :: "string \<Rightarrow> run_error \<Rightarrow> run_result \<Rightarrow> run_result" where
  "recordError scope e r = r\<lparr>rr_errors := rr_errors r @ [scope @ '': '' @ re_message e],
     rr_authFailed := (rr_authFailed r \<or> statusOf e = Some 401 \<or> statusOf e = Some 403)\<rparr>"

definition cutShort :: "run_error \<Rightarrow> run_state \<Rightarrow> bool \<times> run_state" where
  "cutShort e w =
     (if hs_stopping w then (True, with_result exhausted w)
      else if \<not> isRunCutShort e then (False, w)
      else (True, with_result (\<lambda>r. exhausted (addNotes [re_note e] r)) w))"

definition finish_run :: "int \<Rightarrow> run_state \<Rightarrow> run_result \<times> run_state" where
  "finish_run startedAt w =
     (let w1 = with_result (\<lambda>r. r\<lparr>rr_durationMs := max 0 (hs_now w - startedAt),
          rr_status := (if rr_errors r = [] then Run_Success else if rr_processed r > 0 then Run_Partial else Run_Failed)\<rparr>) w
      in (hs_result w1, w1))"

section \<open>Storing\<close>

definition run_store_batch :: "harness_env \<Rightarrow> selected_container \<Rightarrow> change_batch \<Rightarrow> unit run_act" where
  "run_store_batch env c b w =
     (case sink_op (sink_storeBatch (he_sha256 env) (he_lint env) (he_connectorId env) c b) (called (Call_Store c b) w) of
        (Inl e, w1) \<Rightarrow> (Inl e, w1)
      | (Inr (Inl (CONTAINER_CHANGED message), _), w1) \<Rightarrow> (Inl (error_of message (Some CONTAINER_CHANGED_CODE)), w1)
      | (Inr (Inl _, _), w1) \<Rightarrow> (Inl (error_of [] None), w1)
      | (Inr (Inr (changed, deleted), _), w1) \<Rightarrow> (Inr (), with_result (\<lambda>r. addNotes (batch_notes b)
          (r\<lparr>rr_synced := rr_synced r + changed, rr_deleted := rr_deleted r + deleted\<rparr>)) w1))"

definition run_visited :: "harness_env \<Rightarrow> selected_container \<Rightarrow> run_kind \<Rightarrow> unit run_act" where
  "run_visited env c mode w = sink_op (\<lambda>now s. ((), sink_markVisited (he_connectorId env) c mode now s)) (called (Call_Visited c) w)"

text \<open>\<open>pollContainer\<close>: false when the budget ended the container early.\<close>

fun poll_batches :: "harness_env \<Rightarrow> int \<Rightarrow> selected_container \<Rightarrow> change_batch iteration list \<Rightarrow> bool run_act" where
  "poll_batches env deadline c [] w = (Inr True, await w)"
| "poll_batches env deadline c (Throws e # rest) w = (Inl e, await w)"
| "poll_batches env deadline c (Yields b # rest) w =
     run_bind (run_store_batch env c b) (\<lambda>_ w1.
       (case budgetLeft deadline w1 of
          (False, w2) \<Rightarrow> (Inr False, await w2)
        | (True, w2) \<Rightarrow> poll_batches env deadline
            (if cb_checkpoint b \<noteq> None then c\<lparr>sc_checkpoint := cb_checkpoint b\<rparr> else c) rest w2)) (await w)"

definition pollContainer :: "harness_env \<Rightarrow> int \<Rightarrow> selected_container \<Rightarrow> bool run_act" where
  "pollContainer env deadline c w =
     poll_batches env deadline c (kn_fetchChanges (he_connector env) c (sc_checkpoint c) (hs_now w)) w"

section \<open>Reconciling\<close>

text \<open>A rescan never moves the cursor of the poll.\<close>

fun rescan_batches :: "harness_env \<Rightarrow> int \<Rightarrow> selected_container \<Rightarrow> change_batch iteration list \<Rightarrow> bool run_act" where
  "rescan_batches env deadline c [] w = (Inr True, await w)"
| "rescan_batches env deadline c (Throws e # rest) w = (Inl e, await w)"
| "rescan_batches env deadline c (Yields b # rest) w =
     run_bind (run_store_batch env c (b\<lparr>cb_checkpoint := None\<rparr>)) (\<lambda>_ w1.
       (case budgetLeft deadline w1 of
          (False, w2) \<Rightarrow> (Inr False, await w2) | (True, w2) \<Rightarrow> rescan_batches env deadline c rest w2)) (await w)"

text \<open>The whole listing, or none when the budget ended it.\<close>

fun collect_ids :: "int \<Rightarrow> string list iteration list \<Rightarrow> string list \<Rightarrow> string list option run_act" where
  "collect_ids deadline [] ids w = (Inr (Some ids), await w)"
| "collect_ids deadline (Throws e # rest) ids w = (Inl e, await w)"
| "collect_ids deadline (Yields page # rest) ids w =
     (case budgetLeft deadline (await w) of
        (False, w1) \<Rightarrow> (Inr None, await w1) | (True, w1) \<Rightarrow> collect_ids deadline rest (ids @ page) w1)"

definition run_prune :: "harness_env \<Rightarrow> selected_container \<Rightarrow> string list \<Rightarrow> int \<Rightarrow> bool run_act" where
  "run_prune env c ids listedAt w =
     run_bind (sink_op (sink_pruneMissing (he_connectorId env) c ids
         \<lparr>po_listedAt = Some listedAt, po_kinds = kn_prunableKinds (he_connector env)\<rparr>))
       (\<lambda>n w1. (Inr True, with_result (\<lambda>r. r\<lparr>rr_deleted := rr_deleted r + n\<rparr>) w1)) (called (Call_Prune c ids) w)"

definition prune_by_listing :: "harness_env \<Rightarrow> int \<Rightarrow> selected_container \<Rightarrow> bool run_act" where
  "prune_by_listing env deadline c w =
     (if kn_prunableKinds (he_connector env) = Some [] then (Inr True, w)
      else run_bind (collect_ids deadline (kn_listDocumentIds (he_connector env) c (hs_now w)) []) (\<lambda>listing.
        case listing of None \<Rightarrow> (\<lambda>w1. (Inr False, w1)) | Some ids \<Rightarrow> run_prune env c ids (hs_now w)) w)"

definition reconcileContainer :: "harness_env \<Rightarrow> int \<Rightarrow> selected_container \<Rightarrow> bool run_act" where
  "reconcileContainer env deadline c w =
     run_bind (case kn_reconcile (he_connector env) of
         None \<Rightarrow> (\<lambda>w. (Inr True, w)) | Some f \<Rightarrow> rescan_batches env deadline c (f c (hs_now w)))
       (\<lambda>complete. if complete then prune_by_listing env deadline c else (\<lambda>w1. (Inr False, w1))) w"

section \<open>Refreshing containers and people\<close>

fun collect_all :: "'a iteration list \<Rightarrow> 'a list \<Rightarrow> 'a list run_act" where
  "collect_all [] acc w = (Inr acc, await w)"
| "collect_all (Throws e # rest) acc w = (Inl e, await w)"
| "collect_all (Yields x # rest) acc w = collect_all rest (acc @ [x]) (await w)"

text \<open>True when the run was cut short and must end.\<close>

definition refreshContainers :: "harness_env \<Rightarrow> run_state \<Rightarrow> bool \<times> run_state" where
  "refreshContainers env w =
     (case collect_all (kn_listContainers (he_connector env) (hs_now w)) [] w of
        (Inl e, w1) \<Rightarrow> (case cutShort e w1 of (True, w2) \<Rightarrow> (True, w2)
          | (False, w2) \<Rightarrow> (False, with_result (recordError ''listContainers'' e) w2))
      | (Inr all, w1) \<Rightarrow>
          (case sink_op (\<lambda>now s. ((), sink_upsertContainers (he_connectorId env) all now s)) w1 of
             (Inl e, w2) \<Rightarrow> (False, with_result (recordError ''upsertContainers'' e) w2)
           | (Inr _, w2) \<Rightarrow> (False, w2)))"

definition PRINCIPAL_BATCH :: nat where "PRINCIPAL_BATCH = 500"

definition upsert_page :: "harness_env \<Rightarrow> source_principal list \<Rightarrow> unit run_act" where
  "upsert_page env page = sink_op (\<lambda>_ s. ((), sink_upsertPrincipals (he_connectorId env) page s))"

fun principal_pages :: "harness_env \<Rightarrow> source_principal iteration list \<Rightarrow> source_principal list \<Rightarrow> unit run_act" where
  "principal_pages env [] page w = (if page \<noteq> [] then upsert_page env page (await w) else (Inr (), await w))"
| "principal_pages env (Throws e # rest) page w = (Inl e, await w)"
| "principal_pages env (Yields p # rest) page w =
     (if length (page @ [p]) \<ge> PRINCIPAL_BATCH
      then run_bind (upsert_page env (page @ [p])) (\<lambda>_. principal_pages env rest []) (await w)
      else principal_pages env rest (page @ [p]) (await w))"

definition refreshPrincipals :: "harness_env \<Rightarrow> run_state \<Rightarrow> bool \<times> run_state" where
  "refreshPrincipals env w =
     (case principal_pages env (kn_listPrincipals (he_connector env) (hs_now w)) [] w of
        (Inr _, w1) \<Rightarrow> (False, w1)
      | (Inl e, w1) \<Rightarrow> (case cutShort e w1 of (True, w2) \<Rightarrow> (True, w2)
          | (False, w2) \<Rightarrow> (False, with_result (recordError ''listPrincipals'' e) w2)))"

section \<open>The containers of a run\<close>

definition unfinished_note :: "selected_container \<Rightarrow> string" where
  "unfinished_note c = sc_name c @ '': the nightly check did not finish within one run, so deletions there are not being detected''"

definition changed_note :: "selected_container \<Rightarrow> string" where
  "changed_note c = sc_name c @ '': changed during the run (deselected or reset); skipped''"

definition visit_container :: "harness_env \<Rightarrow> run_kind \<Rightarrow> int \<Rightarrow> bool \<Rightarrow> selected_container \<Rightarrow> unit run_act" where
  "visit_container env mode deadline first c =
     run_bind (case mode of Poll \<Rightarrow> pollContainer env deadline c | Reconcile \<Rightarrow> reconcileContainer env deadline c)
       (\<lambda>finished w1.
          if finished
          then run_bind (run_visited env c mode) (\<lambda>_ w2. (Inr (), with_result (\<lambda>r. r\<lparr>rr_processed := rr_processed r + 1\<rparr>) w2)) w1
          else if mode = Reconcile \<and> first \<and> \<not> hs_stopping w1
          then run_bind (run_visited env c mode) (\<lambda>_ w2. (Inr (), with_result (addNotes [unfinished_note c]) w2)) w1
          else (Inr (), w1))"

fun visit_containers :: "harness_env \<Rightarrow> run_kind \<Rightarrow> int \<Rightarrow> bool \<Rightarrow> selected_container list \<Rightarrow> run_state \<Rightarrow> run_state" where
  "visit_containers env mode deadline first [] w = w"
| "visit_containers env mode deadline first (c # cs) w =
     (case budgetLeft deadline w of
        (False, w1) \<Rightarrow> w1
      | (True, w1) \<Rightarrow> (case visit_container env mode deadline first c w1 of
            (Inr _, w2) \<Rightarrow> visit_containers env mode deadline False cs w2
          | (Inl e, w2) \<Rightarrow> (case cutShort e w2 of
                (True, w3) \<Rightarrow> w3
              | (False, w3) \<Rightarrow> visit_containers env mode deadline False cs
                  (if isContainerChanged e then with_result (addNotes [changed_note c]) w3
                   else with_result (recordError (''container '' @ sc_name c @ '' ('' @ sc_externalId c @ '')'') e) w3))))"

definition authenticate :: "harness_env \<Rightarrow> run_state \<Rightarrow> bool \<times> run_state" where
  "authenticate env w =
     (let w1 = await w in
      case kn_authenticate (he_connector env) (hs_now w) of
        Inl e \<Rightarrow> (False, if hs_stopping w1 then with_result exhausted w1
           else with_result (\<lambda>r. (recordError ''authenticate'' e r)\<lparr>rr_authFailed := True\<rparr>) w1)
      | Inr (success, error) \<Rightarrow> if success then (True, w1)
          else (False, with_result (\<lambda>r. r\<lparr>rr_errors := rr_errors r @ [case error of Some m \<Rightarrow> m | None \<Rightarrow> ''Authentication failed''],
             rr_authFailed := True\<rparr>) w1))"

definition run_selected :: "harness_env \<Rightarrow> run_kind \<Rightarrow> int \<Rightarrow> run_state \<Rightarrow> run_state" where
  "run_selected env mode deadline w =
     (case sink_op (\<lambda>_ s. (sink_selectedContainers (he_coll env) (he_connectorId env) mode s, s)) w of
        (Inl e, w1) \<Rightarrow> with_result (recordError ''selectedContainers'' e) w1
      | (Inr cs, w1) \<Rightarrow>
          (case (if mode = Reconcile \<and> cs \<noteq> [] then refreshPrincipals env w1 else (False, w1)) of
             (True, w2) \<Rightarrow> w2 | (False, w2) \<Rightarrow> visit_containers env mode deadline True cs w2))"

definition no_result :: run_result where
  "no_result = \<lparr>rr_status = Run_Success, rr_synced = 0, rr_deleted = 0, rr_processed = 0, rr_errors = [], rr_authFailed = False,
     rr_budgetExhausted = False, rr_notes = [], rr_durationMs = 0\<rparr>"

definition run :: "harness_env \<Rightarrow> run_kind \<Rightarrow> run_state \<Rightarrow> run_result \<times> run_state" where
  "run env mode w =
     (let startedAt = hs_now w; deadline = startedAt + he_budgetMs env; w0 = with_result (\<lambda>_. no_result) w in
      finish_run startedAt (case budgetLeft deadline w0 of
        (False, w1) \<Rightarrow> w1
      | (True, w1) \<Rightarrow> (case authenticate env w1 of
            (False, w2) \<Rightarrow> w2
          | (True, w2) \<Rightarrow> (case (if mode = Reconcile then refreshContainers env w2 else (False, w2)) of
                (True, w3) \<Rightarrow> w3 | (False, w3) \<Rightarrow> run_selected env mode deadline w3))))"

end
