(* ===== verification/Harness_Frames.thy ===== *)
theory Harness_Frames
  imports Knowledge_Harness
begin

text \<open>
  Following a relation between the states before and after through a whole run of
  \<open>Knowledge_Harness\<close>, once: an interpretation gives it for the calls of the sink and for the
  updates of the result, the lemmas of the locale give it for every operation above them.
\<close>

definition obeys_run :: "(run_state \<Rightarrow> run_state \<Rightarrow> bool) \<Rightarrow> 'a run_act \<Rightarrow> bool" where
  "obeys_run R m \<longleftrightarrow> (\<forall>w. R w (snd (m w)))"

text \<open>A result that only grows: nothing reported is taken back.\<close>

definition grows :: "run_result \<Rightarrow> run_result \<Rightarrow> bool" where
  "grows r r' \<longleftrightarrow> set (rr_errors r) \<subseteq> set (rr_errors r') \<and> set (rr_notes r) \<subseteq> set (rr_notes r') \<and>
     (rr_budgetExhausted r \<longrightarrow> rr_budgetExhausted r') \<and> (rr_authFailed r \<longrightarrow> rr_authFailed r')"

lemma grows_refl [simp]: "grows r r"
  by (simp add: grows_def)

lemma set_addNotes [simp]: "set (rr_notes (addNotes ns r)) = set (rr_notes r) \<union> set ns"
  unfolding addNotes_def by (induction ns rule: rev_induct) auto

lemma grows_updates [simp]:
  "grows r (exhausted r)" "grows r (addNotes ns r)" "grows r (recordError scope e r)"
  "grows r (exhausted (addNotes ns r))" "grows r ((recordError scope e r)\<lparr>rr_authFailed := True\<rparr>)"
  "grows r (r\<lparr>rr_errors := rr_errors r @ es, rr_authFailed := True\<rparr>)"
  "grows r (r\<lparr>rr_processed := n\<rparr>)" "grows r (r\<lparr>rr_deleted := n\<rparr>)"
  "grows r (addNotes ns (r\<lparr>rr_synced := n, rr_deleted := m\<rparr>))"
  "grows r (r\<lparr>rr_durationMs := t, rr_status := st\<rparr>)"
  by (simp_all add: grows_def exhausted_def recordError_def subset_insertI2) (auto simp: addNotes_def)

definition complete_listing :: "harness_env \<Rightarrow> selected_container \<Rightarrow> string list \<Rightarrow> bool" where
  "complete_listing env c ids \<longleftrightarrow>
     (\<exists>t pages. kn_listDocumentIds (he_connector env) c t = map Yields pages \<and> ids = concat pages)"

text \<open>A batch that the connector yielded for a container; a rescan drops its checkpoint.\<close>

definition delivered :: "harness_env \<Rightarrow> run_kind \<Rightarrow> selected_container \<Rightarrow> change_batch \<Rightarrow> bool" where
  "delivered env mode c b = (case mode of
     Poll \<Rightarrow> \<exists>c' k t. sc_externalId c' = sc_externalId c \<and> Yields b \<in> set (kn_fetchChanges (he_connector env) c' k t)
   | Reconcile \<Rightarrow> \<exists>f t b0. kn_reconcile (he_connector env) = Some f \<and> Yields b0 \<in> set (f c t) \<and> b = b0\<lparr>cb_checkpoint := None\<rparr>)"

text \<open>What a run may ask of the sink.\<close>

definition permitted :: "harness_env \<Rightarrow> run_kind \<Rightarrow> sink_call \<Rightarrow> bool" where
  "permitted env mode call = (case call of
     Call_Store c b \<Rightarrow> delivered env mode c b
   | Call_Prune c ids \<Rightarrow> mode = Reconcile \<and> complete_listing env c ids
   | Call_Visited c \<Rightarrow> True)"

locale run_frame =
  fixes env :: harness_env and mode :: run_kind and R :: "run_state \<Rightarrow> run_state \<Rightarrow> bool"
  assumes refl: "R w w"
    and trans: "R u v \<Longrightarrow> R v w \<Longrightarrow> R u w"
    and turning: "R w (await w)"
    and reporting: "(\<And>r. grows r (f r)) \<Longrightarrow> R w (with_result f w)"
    and asking: "permitted env mode call \<Longrightarrow> R w (called call w)"
    and storing: "permitted env mode (Call_Store c b) \<Longrightarrow>
      obeys_run R (sink_op (sink_storeBatch (he_sha256 env) (he_lint env) (he_connectorId env) c b))"
    and pruning: "permitted env mode (Call_Prune c ids) \<Longrightarrow>
      obeys_run R (sink_op (sink_pruneMissing (he_connectorId env) c ids opts))"
    and visiting: "obeys_run R (sink_op (\<lambda>now s. ((), sink_markVisited (he_connectorId env) c mode now s)))"
    and listing: "obeys_run R (sink_op (\<lambda>now s. ((), sink_upsertContainers (he_connectorId env) cs now s)))"
    and naming: "obeys_run R (sink_op (\<lambda>now s. ((), sink_upsertPrincipals (he_connectorId env) ps s)))"
    and selecting: "obeys_run R (sink_op (\<lambda>now s. (sink_selectedContainers (he_coll env) (he_connectorId env) mode s, s)))"
begin

lemma obeysI: "(\<And>w. R w (snd (m w))) \<Longrightarrow> obeys_run R m"
  by (simp add: obeys_run_def)

lemma run_obeysD: "obeys_run R m \<Longrightarrow> m w = (x, w') \<Longrightarrow> R w w'"
  unfolding obeys_run_def by (metis snd_conv)

lemma obeys_return [simp]: "obeys_run R (\<lambda>w. (x, w))"
  by (simp add: obeys_run_def refl)

lemma obeys_bind: "obeys_run R m \<Longrightarrow> (\<And>x. obeys_run R (f x)) \<Longrightarrow> obeys_run R (run_bind m f)"
proof (rule obeysI)
  fix w
  assume m: "obeys_run R m" and f: "\<And>x. obeys_run R (f x)"
  obtain r w1 where r: "m w = (r, w1)" by (metis prod.collapse)
  then have first: "R w w1" using m by (rule run_obeysD [rotated])
  show "R w (snd (run_bind m f w))"
  proof (cases r)
    case (Inl e)
    then show ?thesis using first r by (simp add: run_bind_def)
  next
    case (Inr x)
    have "R w1 (snd (f x w1))" using f by (simp add: obeys_run_def)
    then show ?thesis using trans [OF first] Inr r by (simp add: run_bind_def)
  qed
qed

lemma after: "R u w \<Longrightarrow> obeys_run R m \<Longrightarrow> R u (snd (m w))"
  unfolding obeys_run_def by (blast intro: trans)

lemma then_reports: "R u w \<Longrightarrow> (\<And>r. grows r (f r)) \<Longrightarrow> R u (with_result f w)"
  using trans reporting by blast

lemma then_turns: "R u w \<Longrightarrow> R u (await w)"
  using trans turning by blast

lemma budget: "R w (snd (budgetLeft deadline w))"
  by (simp add: budgetLeft_def refl reporting)

lemma cutting: "R w (snd (cutShort e w))"
  by (auto simp: cutShort_def refl intro: reporting)

lemma obeys_store:
  assumes "permitted env mode (Call_Store c b)"
  shows "obeys_run R (run_store_batch env c b)"
proof (rule obeysI)
  fix w
  obtain r w1 where op: "sink_op (sink_storeBatch (he_sha256 env) (he_lint env) (he_connectorId env) c b) (called (Call_Store c b) w) = (r, w1)"
    by (metis prod.collapse)
  have "R w w1" using trans [OF asking [OF assms] run_obeysD [OF storing [OF assms] op]] .
  then show "R w (snd (run_store_batch env c b w))"
    by (auto simp: run_store_batch_def op intro: then_reports split: sum.split knowledge_error.split prod.split)
qed

lemma obeys_visited: "obeys_run R (run_visited env c mode)"
  using visiting [of c] asking [of "Call_Visited c"] by (auto simp: obeys_run_def run_visited_def permitted_def intro: trans)

lemma goes_on:
  assumes "obeys_run R m"
  shows "obeys_run R (\<lambda>w1. case budgetLeft deadline w1 of (False, w2) \<Rightarrow> (Inr False, await w2) | (True, w2) \<Rightarrow> m w2)"
proof (rule obeysI)
  fix w1
  obtain go w2 where go: "budgetLeft deadline w1 = (go, w2)" by fastforce
  then have "R w1 w2" using budget [of w1 deadline] by simp
  then show "R w1 (snd (case budgetLeft deadline w1 of (False, w2) \<Rightarrow> (Inr False, await w2) | (True, w2) \<Rightarrow> m w2))"
    using assms by (cases go) (simp_all add: go then_turns after)
qed

lemma delivered_later: "delivered env Poll (c\<lparr>sc_checkpoint := k\<rparr>) b = delivered env Poll c b"
  by (simp add: delivered_def)

lemma obeys_poll:
  "mode = Poll \<Longrightarrow> (\<And>b. Yields b \<in> set bs \<Longrightarrow> delivered env mode c b) \<Longrightarrow> obeys_run R (poll_batches env deadline c bs)"
proof (induction bs arbitrary: c)
  case Nil
  then show ?case by (simp add: obeys_run_def turning)
next
  case (Cons x bs)
  show ?case
  proof (cases x)
    case (Yields b)
    have "obeys_run R (run_store_batch env c b)" using Cons.prems Yields by (intro obeys_store) (simp add: permitted_def)
    moreover have "obeys_run R (poll_batches env deadline (if cb_checkpoint b \<noteq> None then c\<lparr>sc_checkpoint := cb_checkpoint b\<rparr> else c) bs)"
      using Cons.prems by (intro Cons.IH) (simp_all add: delivered_later)
    ultimately show ?thesis unfolding Yields poll_batches.simps [abs_def]
      by (rule obeysI [OF after [OF turning obeys_bind [OF _ goes_on]]])
  qed (simp add: obeys_run_def turning)
qed

lemma obeys_rescan:
  "(\<And>b. Yields b \<in> set bs \<Longrightarrow> delivered env mode c (b\<lparr>cb_checkpoint := None\<rparr>)) \<Longrightarrow> obeys_run R (rescan_batches env deadline c bs)"
proof (induction bs)
  case Nil
  then show ?case by (simp add: obeys_run_def turning)
next
  case (Cons x bs)
  show ?case
  proof (cases x)
    case (Yields b)
    have "obeys_run R (run_store_batch env c (b\<lparr>cb_checkpoint := None\<rparr>))" using Cons.prems Yields by (intro obeys_store) (simp add: permitted_def)
    moreover have "obeys_run R (rescan_batches env deadline c bs)" by (rule Cons.IH) (simp add: Cons.prems)
    ultimately show ?thesis unfolding Yields rescan_batches.simps [abs_def]
      by (rule obeysI [OF after [OF turning obeys_bind [OF _ goes_on]]])
  qed (simp add: obeys_run_def turning)
qed

text \<open>A listing is answered only when it ended by itself.\<close>

lemma collect_ids:
  "R w (snd (collect_ids deadline pages ids w)) \<and>
   (\<forall>found. fst (collect_ids deadline pages ids w) = Inr (Some found) \<longrightarrow> (\<exists>ps. pages = map Yields ps \<and> found = ids @ concat ps))"
proof (induction pages arbitrary: ids w)
  case Nil
  then show ?case by (simp add: turning)
next
  case (Cons x pages)
  show ?case
  proof (cases x)
    case (Yields page)
    obtain go w1 where go: "budgetLeft deadline (await w) = (go, w1)" by fastforce
    then have w1: "R w w1" using trans [OF turning [of w] budget [of "await w" deadline]] by simp
    have more: "\<exists>qs. x # pages = map Yields qs \<and> found = ids @ concat qs"
      if "\<exists>ps. pages = map Yields ps \<and> found = (ids @ page) @ concat ps" for found
    proof -
      from that obtain ps where "pages = map Yields ps" "found = (ids @ page) @ concat ps" by blast
      then show ?thesis by (intro exI [of _ "page # ps"]) (simp add: Yields)
    qed
    with w1 show ?thesis using Cons.IH [of w1 "ids @ page"]
      by (cases go) (simp_all add: Yields go then_turns, blast intro: trans)
  qed (simp add: turning)
qed

lemma obeys_prune:
  assumes "permitted env mode (Call_Prune c ids)"
  shows "obeys_run R (run_prune env c ids listedAt)"
proof -
  let ?opts = "\<lparr>po_listedAt = Some listedAt, po_kinds = kn_prunableKinds (he_connector env)\<rparr>"
  have counts: "obeys_run R (\<lambda>w1. (Inr True, with_result (\<lambda>r. r\<lparr>rr_deleted := rr_deleted r + n\<rparr>) w1))" for n
    by (simp add: obeys_run_def reporting)
  show ?thesis unfolding run_prune_def
    by (rule obeysI [OF after [OF asking [OF assms] obeys_bind [OF pruning [OF assms, of ?opts] counts]]])
qed

lemma obeys_prune_by_listing: "mode = Reconcile \<Longrightarrow> obeys_run R (prune_by_listing env deadline c)"
proof (rule obeysI)
  fix w :: run_state
  assume mode: "mode = Reconcile"
  let ?pages = "kn_listDocumentIds (he_connector env) c (hs_now w)"
  obtain r w1 where r: "collect_ids deadline ?pages [] w = (r, w1)" by (metis prod.collapse)
  then have w1: "R w w1" using collect_ids [of w deadline ?pages "[]"] by simp
  have "R w (snd (run_prune env c found (hs_now w) w1))" if "r = Inr (Some found)" for found
  proof -
    have "complete_listing env c found"
      using collect_ids [of w deadline ?pages "[]"] r that by (auto simp: complete_listing_def)
    then show ?thesis using mode by (intro after [OF w1] obeys_prune) (simp add: permitted_def)
  qed
  moreover have "snd (prune_by_listing env deadline c w) = (if kn_prunableKinds (he_connector env) = Some [] then w
      else case r of Inr (Some found) \<Rightarrow> snd (run_prune env c found (hs_now w) w1) | _ \<Rightarrow> w1)"
    by (simp add: prune_by_listing_def run_bind_def r split: sum.split option.split)
  ultimately show "R w (snd (prune_by_listing env deadline c w))"
    using w1 refl by (simp split: sum.split option.split)
qed

lemma obeys_reconcile: "mode = Reconcile \<Longrightarrow> obeys_run R (reconcileContainer env deadline c)"
proof -
  assume mode: "mode = Reconcile"
  have rescan: "obeys_run R (case kn_reconcile (he_connector env) of
      None \<Rightarrow> (\<lambda>w. (Inr True, w)) | Some f \<Rightarrow> rescan_batches env deadline c (f c now))" for now
  proof (cases "kn_reconcile (he_connector env)")
    case (Some f)
    then have "delivered env mode c (b\<lparr>cb_checkpoint := None\<rparr>)" if "Yields b \<in> set (f c now)" for b
      using that mode by (auto simp: delivered_def)
    then show ?thesis using obeys_rescan Some by simp
  qed simp
  have prune: "obeys_run R (if complete then prune_by_listing env deadline c else (\<lambda>w1. (Inr False, w1)))" for complete
    by (simp add: obeys_prune_by_listing [OF mode])
  show ?thesis
    unfolding reconcileContainer_def by (rule obeysI [OF after [OF refl obeys_bind [OF rescan prune]]])
qed

lemma obeys_collect_all: "obeys_run R (collect_all xs acc)"
proof (rule obeysI)
  show "R w (snd (collect_all xs acc w))" for w
  proof (induction xs arbitrary: acc w)
    case (Cons x xs)
    then show ?case using trans [OF turning [of w]] by (cases x) (simp_all add: turning)
  qed (simp add: turning)
qed

lemma cut_or_record:
  "R u w \<Longrightarrow> R u (snd (case cutShort e w of (True, w2) \<Rightarrow> (True, w2) | (False, w2) \<Rightarrow> (False, with_result (recordError scope e) w2)))"
  using trans [OF _ cutting [of w e], of u] by (auto simp: then_reports split: prod.split bool.split)

lemma refreshing_containers: "R w (snd (refreshContainers env w))"
proof -
  obtain r w1 where r: "collect_all (kn_listContainers (he_connector env) (hs_now w)) [] w = (r, w1)" by (metis prod.collapse)
  then have w1: "R w w1" by (rule run_obeysD [OF obeys_collect_all])
  show ?thesis
  proof (cases r)
    case (Inl e)
    then show ?thesis using cut_or_record [OF w1] by (simp add: refreshContainers_def r)
  next
    case (Inr cs)
    obtain q w2 where q: "sink_op (\<lambda>now s. ((), sink_upsertContainers (he_connectorId env) cs now s)) w1 = (q, w2)" by (metis prod.collapse)
    have "R w w2" by (rule trans [OF w1 run_obeysD [OF listing q]])
    then show ?thesis by (simp add: refreshContainers_def r Inr q then_reports split: sum.split)
  qed
qed

lemma obeys_page: "obeys_run R (upsert_page env ps)"
  unfolding upsert_page_def by (rule naming)

lemma obeys_pages: "obeys_run R (principal_pages env xs page)"
proof (induction xs arbitrary: page)
  case Nil
  have "R w (snd (upsert_page env page (await w)))" for w by (rule after [OF turning obeys_page])
  then show ?case by (simp add: obeys_run_def turning)
next
  case (Cons x xs)
  show ?case
  proof (cases x)
    case (Yields p)
    have "R w (snd (run_bind (upsert_page env (page @ [p])) (\<lambda>_. principal_pages env xs []) (await w)))" for w
      by (rule after [OF turning obeys_bind [OF obeys_page Cons.IH]])
    moreover have "R w (snd (principal_pages env xs (page @ [p]) (await w)))" for w
      by (rule after [OF turning Cons.IH])
    ultimately show ?thesis by (simp add: obeys_run_def Yields)
  qed (simp add: obeys_run_def turning)
qed

lemma refreshing_principals: "R w (snd (refreshPrincipals env w))"
proof -
  obtain r w1 where r: "principal_pages env (kn_listPrincipals (he_connector env) (hs_now w)) [] w = (r, w1)" by (metis prod.collapse)
  then have "R w w1" by (rule run_obeysD [OF obeys_pages])
  then show ?thesis using cut_or_record [of w w1] by (simp add: refreshPrincipals_def r split: sum.split)
qed

lemma obeys_visit: "obeys_run R (visit_container env mode deadline first c)"
proof -
  have get: "obeys_run R (case mode of Poll \<Rightarrow> pollContainer env deadline c | Reconcile \<Rightarrow> reconcileContainer env deadline c)"
  proof (cases mode)
    case Poll
    then have "delivered env mode c b" if "Yields b \<in> set (kn_fetchChanges (he_connector env) c k t)" for b k t
      using that by (auto simp: delivered_def)
    then have "obeys_run R (poll_batches env deadline c (kn_fetchChanges (he_connector env) c k t))" for k t
      by (rule obeys_poll [OF Poll])
    then show ?thesis using Poll by (simp add: obeys_run_def pollContainer_def)
  qed (simp add: obeys_reconcile)
  have stamp: "obeys_run R (run_bind (run_visited env c mode) (\<lambda>_ w2. (Inr (), with_result f w2)))"
    if "\<And>r. grows r (f r)" for f
    by (rule obeys_bind [OF obeys_visited]) (simp add: obeys_run_def reporting that)
  have "obeys_run R (\<lambda>w1. if finished
      then run_bind (run_visited env c mode) (\<lambda>_ w2. (Inr (), with_result (\<lambda>r. r\<lparr>rr_processed := rr_processed r + 1\<rparr>) w2)) w1
      else if mode = Reconcile \<and> first \<and> \<not> hs_stopping w1
      then run_bind (run_visited env c mode) (\<lambda>_ w2. (Inr (), with_result (addNotes [unfinished_note c]) w2)) w1
      else (Inr (), w1))" for finished
    using stamp [of "\<lambda>r. r\<lparr>rr_processed := rr_processed r + 1\<rparr>"] stamp [of "addNotes [unfinished_note c]"]
    unfolding obeys_run_def by (cases finished; cases mode; cases first) (simp_all add: refl)
  then show ?thesis unfolding visit_container_def by (rule obeysI [OF after [OF refl obeys_bind [OF get]]])
qed

lemma visiting_containers: "R u w \<Longrightarrow> R u (visit_containers env mode deadline first cs w)"
proof (induction cs arbitrary: first w)
  case (Cons c cs)
  obtain go w1 where go: "budgetLeft deadline w = (go, w1)" by fastforce
  then have w1: "R u w1" using trans [OF Cons.prems budget [of w deadline]] by simp
  obtain r w2 where r: "visit_container env mode deadline first c w1 = (r, w2)" by (metis prod.collapse)
  have w2: "R u w2" by (rule trans [OF w1 run_obeysD [OF obeys_visit r]])
  show ?case
  proof (cases r)
    case (Inl e)
    obtain stop w3 where stop: "cutShort e w2 = (stop, w3)" by fastforce
    then have w3: "R u w3" using trans [OF w2 cutting [of w2 e]] by simp
    then have "R u (if isContainerChanged e then with_result (addNotes [changed_note c]) w3
        else with_result (recordError (''container '' @ sc_name c @ '' ('' @ sc_externalId c @ '')'') e) w3)"
      by (simp add: then_reports)
    then show ?thesis using Cons.IH w1 w3 by (cases go; cases stop) (simp_all add: go r Inl stop)
  next
    case (Inr x)
    then show ?thesis using Cons.IH [OF w2, of False] w1 by (cases go) (simp_all add: go r)
  qed
qed simp

lemma authenticating: "R w (snd (authenticate env w))"
  by (auto simp: authenticate_def Let_def turning then_reports split: sum.split prod.split)

lemma running_selected: "R w (run_selected env mode deadline w)"
proof -
  obtain r w1 where r: "sink_op (\<lambda>_ s. (sink_selectedContainers (he_coll env) (he_connectorId env) mode s, s)) w = (r, w1)"
    by (metis prod.collapse)
  have w1: "R w w1" by (rule run_obeysD [OF selecting r])
  show ?thesis
  proof (cases r)
    case (Inr cs)
    obtain stop w2 where stop: "(if mode = Reconcile \<and> cs \<noteq> [] then refreshPrincipals env w1 else (False, w1)) = (stop, w2)" by fastforce
    then have "R w1 w2" using refreshing_principals [of w1] refl [of w1] by (metis snd_conv)
    then have "R w w2" by (rule trans [OF w1])
    then show ?thesis by (cases stop) (simp_all only: run_selected_def r Inr stop prod.case sum.case bool.case visiting_containers)
  qed (simp add: run_selected_def r w1 then_reports)
qed

lemma running: "R (with_result (\<lambda>_. no_result) w) (snd (run env mode w))"
proof -
  define w0 where "w0 = with_result (\<lambda>_. no_result) w"
  define deadline where "deadline = hs_now w + he_budgetMs env"
  obtain go w1 where go: "budgetLeft deadline w0 = (go, w1)" by fastforce
  then have w1: "R w0 w1" using budget [of w0 deadline] by simp
  obtain known w2 where known: "authenticate env w1 = (known, w2)" by fastforce
  then have w2: "R w0 w2" using trans [OF w1 authenticating [of w1]] by simp
  obtain stop w3 where stop: "(if mode = Reconcile then refreshContainers env w2 else (False, w2)) = (stop, w3)" by fastforce
  then have "R w2 w3" using refreshing_containers [of w2] refl [of w2] by (metis snd_conv)
  then have w3: "R w0 w3" by (rule trans [OF w2])
  define we where "we = (if \<not> go then w1 else if \<not> known then w2 else if stop then w3 else run_selected env mode deadline w3)"
  have "R w0 we" using w1 w2 w3 trans [OF w3 running_selected] by (simp add: we_def)
  then have "R w0 (snd (finish_run (hs_now w) we))"
    by (simp add: finish_run_def Let_def then_reports)
  moreover have "run env mode w = finish_run (hs_now w) we"
    unfolding run_def Let_def deadline_def [symmetric] w0_def [symmetric] go
    by (cases go; cases known; cases stop) (simp_all only: we_def known stop prod.case bool.case if_True if_False not_True_eq_False not_False_eq_True)
  ultimately show ?thesis by (simp add: w0_def)
qed

end

end
