(* ===== verification/Harness_Turns.thy ===== *)
theory Harness_Turns
  imports Harness_Frames
begin

text \<open>
  Every selected container gets its turn in a run of a connector: unless the run was cut short, each
  one was visited to its end, was left for the next run because it changed, or failed with an error
  of its own, and the failure of one does not keep the others from theirs.
\<close>

lemma await_columns [simp]: "hs_calls (await w) = hs_calls w" "hs_result (await w) = hs_result w"
  by (simp_all add: await_def run_turn_def split: list.split)

lemma op_columns: "hs_calls (snd (sink_op f w)) = hs_calls w" "hs_result (snd (sink_op f w)) = hs_result w"
proof -
  obtain r w1 where r: "run_turn w = (r, w1)" by (metis prod.collapse)
  then have "hs_calls w1 = hs_calls w \<and> hs_result w1 = hs_result w"
    using await_columns [of w] by (simp add: await_def)
  then show "hs_calls (snd (sink_op f w)) = hs_calls w" "hs_result (snd (sink_op f w)) = hs_result w"
    by (simp_all add: sink_op_def r case_prod_beta split: option.split)
qed

definition reported_more :: "run_state \<Rightarrow> run_state \<Rightarrow> bool" where
  "reported_more w w' \<longleftrightarrow> set (hs_calls w) \<subseteq> set (hs_calls w') \<and> grows (hs_result w) (hs_result w')"

lemma grows_trans: "grows r s \<Longrightarrow> grows s t \<Longrightarrow> grows r t"
  by (auto simp: grows_def)

interpretation reports: run_frame env mode reported_more for env mode
  by unfold_locales
     (auto simp: reported_more_def obeys_run_def op_columns with_result_def called_def intro: grows_trans)

text \<open>A container that is given up on was given up on for the budget.\<close>

lemma spent_budget: "budgetLeft deadline w = (False, w1) \<Longrightarrow> rr_budgetExhausted (hs_result w1)"
  by (auto simp: budgetLeft_def with_result_def exhausted_def split: if_splits)

lemma bind_False:
  assumes "run_bind m f w = (Inr False, w')"
  obtains x w1 where "m w = (Inr x, w1)" "f x w1 = (Inr False, w')"
  using assms by (auto simp: run_bind_def split: prod.splits sum.splits)

lemma bind_after: "m w = (Inr x, w1) \<Longrightarrow> run_bind m f w = f x w1"
  by (simp add: run_bind_def)

lemma poll_unfinished: "poll_batches env deadline c bs w = (Inr False, w') \<Longrightarrow> rr_budgetExhausted (hs_result w')"
proof (induction bs arbitrary: c w)
  case (Cons x bs)
  then show ?case
  proof (cases x)
    case (Yields b)
    from Cons.prems show ?thesis unfolding Yields poll_batches.simps
    proof (rule bind_False)
      fix u w1
      assume "(case budgetLeft deadline w1 of (False, w2) \<Rightarrow> (Inr False, await w2)
          | (True, w2) \<Rightarrow> poll_batches env deadline (if cb_checkpoint b \<noteq> None then c\<lparr>sc_checkpoint := cb_checkpoint b\<rparr> else c) bs w2) = (Inr False, w')"
      then show ?thesis using Cons.IH spent_budget
        by (cases "budgetLeft deadline w1"; cases "fst (budgetLeft deadline w1)") auto
    qed
  qed simp
qed simp

lemma rescan_unfinished: "rescan_batches env deadline c bs w = (Inr False, w') \<Longrightarrow> rr_budgetExhausted (hs_result w')"
proof (induction bs arbitrary: w)
  case (Cons x bs)
  then show ?case
  proof (cases x)
    case (Yields b)
    from Cons.prems show ?thesis unfolding Yields rescan_batches.simps
    proof (rule bind_False)
      fix u w1
      assume "(case budgetLeft deadline w1 of (False, w2) \<Rightarrow> (Inr False, await w2)
          | (True, w2) \<Rightarrow> rescan_batches env deadline c bs w2) = (Inr False, w')"
      then show ?thesis using Cons.IH spent_budget
        by (cases "budgetLeft deadline w1"; cases "fst (budgetLeft deadline w1)") auto
    qed
  qed simp
qed simp

lemma listing_unfinished: "collect_ids deadline pages ids w = (Inr None, w') \<Longrightarrow> rr_budgetExhausted (hs_result w')"
proof (induction pages arbitrary: ids w)
  case (Cons x pages)
  then show ?case
  proof (cases x)
    case (Yields page)
    then show ?thesis using Cons spent_budget
      by (cases "budgetLeft deadline (await w)"; cases "fst (budgetLeft deadline (await w))") auto
  qed simp
qed simp

lemma prune_finishes: "run_prune env c ids t w \<noteq> (Inr False, w')"
  by (auto simp: run_prune_def elim!: bind_False)

lemma prune_unfinished: "prune_by_listing env deadline c w = (Inr False, w') \<Longrightarrow> rr_budgetExhausted (hs_result w')"
proof (cases "kn_prunableKinds (he_connector env) = Some []")
  case False
  assume "prune_by_listing env deadline c w = (Inr False, w')"
  then have "run_bind (collect_ids deadline (kn_listDocumentIds (he_connector env) c (hs_now w)) []) (\<lambda>listing.
      case listing of None \<Rightarrow> (\<lambda>w1. (Inr False, w1)) | Some ids \<Rightarrow> run_prune env c ids (hs_now w)) w = (Inr False, w')"
    using False by (simp add: prune_by_listing_def)
  then show ?thesis
  proof (rule bind_False)
    fix found w1
    assume "collect_ids deadline (kn_listDocumentIds (he_connector env) c (hs_now w)) [] w = (Inr found, w1)"
      "(case found of None \<Rightarrow> (\<lambda>w1. (Inr False, w1)) | Some ids \<Rightarrow> run_prune env c ids (hs_now w)) w1 = (Inr False, w')"
    then show ?thesis using listing_unfinished prune_finishes by (auto split: option.splits)
  qed
qed (simp add: prune_by_listing_def)

lemma reconcile_unfinished: "reconcileContainer env deadline c w = (Inr False, w') \<Longrightarrow> rr_budgetExhausted (hs_result w')"
  unfolding reconcileContainer_def
proof (erule bind_False)
  fix complete w1
  assume first: "(case kn_reconcile (he_connector env) of None \<Rightarrow> (\<lambda>w. (Inr True, w))
      | Some f \<Rightarrow> rescan_batches env deadline c (f c (hs_now w))) w = (Inr complete, w1)"
    and rest: "(if complete then prune_by_listing env deadline c else (\<lambda>w1. (Inr False, w1))) w1 = (Inr False, w')"
  show "rr_budgetExhausted (hs_result w')"
  proof (cases complete)
    case True
    then show ?thesis using rest prune_unfinished by simp
  next
    case False
    then show ?thesis using first rest rescan_unfinished by (auto split: option.splits)
  qed
qed

lemma visited_asks: "Call_Visited c \<in> set (hs_calls (snd (run_visited env c mode w)))"
  by (simp add: run_visited_def op_columns called_def)

lemma bind_stamp: "Call_Visited c \<in> set (hs_calls (snd (run_bind (run_visited env c mode) (\<lambda>_ w2. (Inr (), with_result f w2)) w)))"
proof -
  obtain r w1 where r: "run_visited env c mode w = (r, w1)" by (metis prod.collapse)
  then have "Call_Visited c \<in> set (hs_calls w1)" using visited_asks [of c env mode w] by simp
  then show ?thesis by (simp add: run_bind_def r with_result_def split: sum.split)
qed

lemma visit_settles:
  assumes "visit_container env mode deadline first c w = (Inr u, w')"
  shows "Call_Visited c \<in> set (hs_calls w') \<or> rr_budgetExhausted (hs_result w')"
proof -
  let ?get = "case mode of Poll \<Rightarrow> pollContainer env deadline c | Reconcile \<Rightarrow> reconcileContainer env deadline c"
  obtain r w1 where r: "?get w = (r, w1)" by (metis prod.collapse)
  then obtain finished where fin: "r = Inr finished" using assms by (cases r) (auto simp: visit_container_def run_bind_def)
  show ?thesis
  proof (cases finished)
    case True
    have "w' = snd (run_bind (run_visited env c mode) (\<lambda>_ w2. (Inr (), with_result (\<lambda>r. r\<lparr>rr_processed := rr_processed r + 1\<rparr>) w2)) w1)"
      using assms r fin True by (simp add: visit_container_def bind_after)
    then show ?thesis using bind_stamp by simp
  next
    case False
    have spent: "rr_budgetExhausted (hs_result w1)"
      using r fin False poll_unfinished reconcile_unfinished by (cases mode) (auto simp: pollContainer_def)
    show ?thesis
    proof (cases "mode = Reconcile \<and> first \<and> \<not> hs_stopping w1")
      case True
      have "w' = snd (run_bind (run_visited env c mode) (\<lambda>_ w2. (Inr (), with_result (addNotes [unfinished_note c]) w2)) w1)"
        using assms r fin False True by (simp add: visit_container_def bind_after)
      then show ?thesis using bind_stamp by simp
    next
      case other: False
      have "w' = w1" using assms unfolding visit_container_def bind_after [of ?get, OF r [unfolded fin]] using False other by (auto split: if_splits)
      then show ?thesis using spent by simp
    qed
  qed
qed

definition settled_container :: "selected_container \<Rightarrow> run_state \<Rightarrow> bool" where
  "settled_container c w \<longleftrightarrow> Call_Visited c \<in> set (hs_calls w) \<or> changed_note c \<in> set (rr_notes (hs_result w)) \<or>
     (\<exists>m. ''container '' @ sc_name c @ '' ('' @ sc_externalId c @ '')'' @ '': '' @ m \<in> set (rr_errors (hs_result w)))"

lemma settled_later: "reported_more w w' \<Longrightarrow> settled_container c w \<Longrightarrow> settled_container c w'"
  unfolding reported_more_def grows_def settled_container_def by blast

lemma exhausted_later: "reported_more w w' \<Longrightarrow> rr_budgetExhausted (hs_result w) \<Longrightarrow> rr_budgetExhausted (hs_result w')"
  by (simp add: reported_more_def grows_def)

lemma cut_exhausts: "cutShort e w = (True, w') \<Longrightarrow> rr_budgetExhausted (hs_result w')"
  by (auto simp: cutShort_def with_result_def exhausted_def split: if_splits)

lemma containers_settled:
  "\<not> rr_budgetExhausted (hs_result (visit_containers env mode deadline first cs w)) \<Longrightarrow> c \<in> set cs \<Longrightarrow>
    settled_container c (visit_containers env mode deadline first cs w)"
proof (induction cs arbitrary: first w)
  case (Cons d cs)
  let ?final = "visit_containers env mode deadline first (d # cs) w"
  obtain go w1 where go: "budgetLeft deadline w = (go, w1)" by fastforce
  obtain r w2 where r: "visit_container env mode deadline first d w1 = (r, w2)" by (metis prod.collapse)
  have go: "budgetLeft deadline w = (True, w1)" using Cons.prems(1) go spent_budget by (cases go) auto
  obtain w4 where goes_on: "?final = visit_containers env mode deadline False cs w4"
    and turn: "settled_container d w4 \<or> rr_budgetExhausted (hs_result w4)"
  proof (cases r)
    case (Inl e)
    obtain stop w3 where stop: "cutShort e w2 = (stop, w3)" by (metis prod.collapse)
    then have stop: "cutShort e w2 = (False, w3)" using Cons.prems(1) cut_exhausts by (cases stop) (auto simp: go r Inl)
    let ?w4 = "if isContainerChanged e then with_result (addNotes [changed_note d]) w3
      else with_result (recordError (''container '' @ sc_name d @ '' ('' @ sc_externalId d @ '')'') e) w3"
    have "settled_container d ?w4" by (auto simp: settled_container_def with_result_def recordError_def)
    then show ?thesis using that [of ?w4] by (simp add: go r Inl stop)
  next
    case (Inr u)
    then show ?thesis using that [of w2] visit_settles [of env mode deadline first d w1 u w2] r
      by (simp add: go settled_container_def) blast
  qed
  have later: "reported_more w4 ?final" unfolding goes_on by (rule reports.visiting_containers [OF reports.refl])
  from turn have "settled_container d ?final" using later Cons.prems(1) settled_later exhausted_later by blast
  moreover have "settled_container c ?final" if "c \<in> set cs" using Cons.IH [of False w4] that Cons.prems(1) goes_on by simp
  ultimately show ?case using Cons.prems(2) by auto
qed simp

text \<open>The run that stops while it lists people was cut short.\<close>

lemma principals_cut: "refreshPrincipals env w = (True, w') \<Longrightarrow> rr_budgetExhausted (hs_result w')"
proof -
  assume stopped: "refreshPrincipals env w = (True, w')"
  obtain r w1 where r: "principal_pages env (kn_listPrincipals (he_connector env) (hs_now w)) [] w = (r, w1)" by (metis prod.collapse)
  then obtain e where e: "r = Inl e" using stopped by (cases r) (auto simp: refreshPrincipals_def)
  obtain stop w2 where "cutShort e w1 = (stop, w2)" by (metis prod.collapse)
  then show ?thesis using stopped r e cut_exhausts by (cases stop) (auto simp: refreshPrincipals_def)
qed

lemma selected_settled:
  assumes "fst (sink_op (\<lambda>_ s. (sink_selectedContainers (he_coll env) (he_connectorId env) mode s, s)) w) = Inr cs"
    "\<not> rr_budgetExhausted (hs_result (run_selected env mode deadline w))" "c \<in> set cs"
  shows "settled_container c (run_selected env mode deadline w)"
proof -
  obtain w1 where read: "sink_op (\<lambda>_ s. (sink_selectedContainers (he_coll env) (he_connectorId env) mode s, s)) w = (Inr cs, w1)"
    using assms(1) by (metis prod.collapse)
  obtain stop w2 where people: "(if mode = Reconcile \<and> cs \<noteq> [] then refreshPrincipals env w1 else (False, w1)) = (stop, w2)" by fastforce
  have "\<not> stop"
  proof
    assume "stop"
    then have "refreshPrincipals env w1 = (True, w2)" using people by (auto split: if_splits)
    then have "rr_budgetExhausted (hs_result w2)" by (rule principals_cut)
    moreover have "run_selected env mode deadline w = w2"
      unfolding run_selected_def read prod.case sum.case people using \<open>stop\<close> by simp
    ultimately show False using assms(2) by simp
  qed
  then have "run_selected env mode deadline w = visit_containers env mode deadline True cs w2"
    unfolding run_selected_def read prod.case sum.case people by simp
  then show ?thesis using containers_settled [of env mode deadline True cs w2 c] assms(2,3) by simp
qed

end
