(* ===== verification/Sink_Properties.thy ===== *)
theory Sink_Properties
  imports Knowledge_Sink Knowledge_Properties
begin

text \<open>
  What redaction removes, and that nothing reaches the documents of the store unredacted.
\<close>

section \<open>Ranges\<close>

definition covers :: "secret_range \<Rightarrow> nat \<Rightarrow> bool" where
  "covers r i \<longleftrightarrow> rg_start r \<le> i \<and> i < rg_end r"

definition covered :: "secret_range list \<Rightarrow> nat \<Rightarrow> bool" where
  "covered rs i \<longleftrightarrow> (\<exists>r \<in> set rs. covers r i)"

text \<open>Merged ranges, the last first: apart from each other, within the text.\<close>

fun apart :: "nat \<Rightarrow> secret_range list \<Rightarrow> bool" where
  "apart n [] = True"
| "apart n (r # rs) = (rg_start r \<le> rg_end r \<and> rg_end r \<le> n \<and> apart (rg_start r) rs)"

lemma apart_mono: "apart n rs \<Longrightarrow> n \<le> m \<Longrightarrow> apart m rs"
  by (cases rs) auto

lemma apart_ends: "apart n rs \<Longrightarrow> r \<in> set rs \<Longrightarrow> rg_end r \<le> n"
  by (induction rs arbitrary: n) (auto intro: order_trans)

definition proper :: "nat \<Rightarrow> secret_range \<Rightarrow> bool" where
  "proper n r \<longleftrightarrow> rg_start r \<le> rg_end r \<and> rg_end r \<le> n"

lemma merge_range_ok:
  assumes "apart n rs" "proper n r" "rs = [] \<or> rg_start (hd rs) \<le> rg_start r"
  shows "apart n (merge_range r rs) \<and> (\<forall>i. covered (merge_range r rs) i \<longleftrightarrow> covered rs i \<or> covers r i) \<and>
    rg_start (hd (merge_range r rs)) \<le> rg_start r"
  using assms
proof (cases rs)
  case Nil
  then show ?thesis using assms(2) by (simp add: proper_def covered_def)
next
  case (Cons l rest)
  show ?thesis
  proof (cases "rg_start r \<le> rg_end l")
    case True
    let ?l = "l\<lparr>rg_end := max (rg_end l) (rg_end r)\<rparr>"
    have "covers ?l i \<longleftrightarrow> covers l i \<or> covers r i" for i
      using True assms(2,3) Cons by (auto simp: covers_def proper_def max_def)
    then show ?thesis using True assms Cons by (auto simp: covered_def proper_def)
  next
    case False
    have "apart (rg_start r) (l # rest)" using False assms(1) Cons by auto
    then show ?thesis using False assms(2) Cons by (auto simp: covered_def proper_def)
  qed
qed

lemma merged_ok:
  assumes "sorted (map rg_start rs)" "\<forall>r \<in> set rs. proper n r" "apart n acc" "acc = [] \<or> (\<forall>r \<in> set rs. rg_start (hd acc) \<le> rg_start r)"
  shows "apart n (fold merge_range rs acc) \<and> (\<forall>i. covered (fold merge_range rs acc) i \<longleftrightarrow> covered acc i \<or> covered rs i)"
  using assms
proof (induction rs arbitrary: acc)
  case (Cons r rs)
  have m: "apart n (merge_range r acc)" "\<And>i. covered (merge_range r acc) i \<longleftrightarrow> covered acc i \<or> covers r i"
    "rg_start (hd (merge_range r acc)) \<le> rg_start r"
    using merge_range_ok [OF Cons.prems(3), of r] Cons.prems(2,4) by auto
  have "\<forall>x \<in> set rs. rg_start (hd (merge_range r acc)) \<le> rg_start x" using Cons.prems(1) m(3) by (auto intro: order_trans)
  then show ?case using Cons.IH [OF _ _ m(1)] Cons.prems(1,2) m(2) by (auto simp: covered_def)
qed (simp add: covered_def)

section \<open>Splicing\<close>

datatype text_part = Kept string | Mark secret_range

fun part_text :: "text_part \<Rightarrow> string" where
  "part_text (Kept t) = t"
| "part_text (Mark r) = marker r"

fun part_kept :: "text_part \<Rightarrow> string" where
  "part_kept (Kept t) = t"
| "part_kept (Mark r) = []"

definition is_mark :: "text_part \<Rightarrow> bool" where
  "is_mark p \<longleftrightarrow> (case p of Mark _ \<Rightarrow> True | Kept _ \<Rightarrow> False)"

fun parts :: "secret_range list \<Rightarrow> string \<Rightarrow> text_part list" where
  "parts [] text = [Kept text]"
| "parts (r # rs) text = parts rs (take (rg_start r) text) @ [Mark r, Kept (drop (rg_end r) text)]"

lemma splice_append: "apart (length a) rs \<Longrightarrow> fold splice rs (a @ b) = fold splice rs a @ b"
proof (induction rs arbitrary: a b)
  case (Cons r rs)
  have r: "rg_start r \<le> length a" "rg_end r \<le> length a" "apart (rg_start r) rs" using Cons.prems by auto
  have "apart (length (splice r a)) rs" using apart_mono [OF r(3)] r(1) by (simp add: splice_def)
  then show ?case using Cons.IH [of "splice r a" b] r by (simp add: splice_def)
qed simp

lemma splice_parts: "apart (length t) rs \<Longrightarrow> fold splice rs t = concat (map part_text (parts rs t))"
proof (induction rs arbitrary: t)
  case (Cons r rs)
  have r: "rg_start r \<le> length t" "apart (rg_start r) rs" using Cons.prems by auto
  have "fold splice (r # rs) t = fold splice rs (take (rg_start r) t) @ marker r @ drop (rg_end r) t"
    using splice_append [of "take (rg_start r) t" rs "marker r @ drop (rg_end r) t"] r by (simp add: splice_def min_absorb2)
  then show ?case using Cons.IH [of "take (rg_start r) t"] r by (simp add: min_absorb2)
qed simp

lemma same_nths: "(\<And>i. i < length xs \<Longrightarrow> i \<in> A \<longleftrightarrow> i \<in> B) \<Longrightarrow> nths xs A = nths xs B"
  unfolding nths_def by (intro arg_cong [where f = "map fst"] filter_cong refl) (auto simp: set_zip)

lemma kept_parts: "apart (length t) rs \<Longrightarrow> concat (map part_kept (parts rs t)) = nths t {i. \<not> covered rs i}"
proof (induction rs arbitrary: t)
  case Nil
  then show ?case by (simp add: covered_def nths_all)
next
  case (Cons r rs)
  let ?s = "rg_start r" and ?e = "rg_end r"
  have r: "?s \<le> ?e" "?e \<le> length t" "apart ?s rs" using Cons.prems by auto
  have below: "\<not> covered rs i" if "?s \<le> i" for i
    using apart_ends [OF r(3)] that by (fastforce simp: covered_def covers_def)
  have t: "t = take ?s t @ take (?e - ?s) (drop ?s t) @ drop ?e t"
    using r(1) by (metis append_take_drop_id drop_drop le_add_diff_inverse2)
  have c: "covered (r # rs) i \<longleftrightarrow> covers r i \<or> covered rs i" for i by (auto simp: covered_def)
  have "nths t {i. \<not> covered (r # rs) i} = nths (take ?s t) {i. \<not> covered (r # rs) i} @
      nths (take (?e - ?s) (drop ?s t)) {i. \<not> covered (r # rs) (i + ?s)} @ nths (drop ?e t) {i. \<not> covered (r # rs) (i + ?e)}"
    using r by (subst t) (simp add: nths_append min_absorb2 add.assoc)
  moreover have "nths (take ?s t) {i. \<not> covered (r # rs) i} = nths (take ?s t) {i. \<not> covered rs i}"
    by (rule same_nths) (auto simp: c covers_def)
  moreover have "nths (take (?e - ?s) (drop ?s t)) {i. \<not> covered (r # rs) (i + ?s)} = []"
  proof -
    have "nths (take (?e - ?s) (drop ?s t)) {i. \<not> covered (r # rs) (i + ?s)} = nths (take (?e - ?s) (drop ?s t)) {}"
      by (rule same_nths) (auto simp: c covers_def)
    then show ?thesis by simp
  qed
  moreover have "nths (drop ?e t) {i. \<not> covered (r # rs) (i + ?e)} = drop ?e t"
    using below r(1) by (intro nths_all) (auto simp: c covers_def)
  ultimately show ?case using Cons.IH [of "take ?s t"] r by (simp add: min_absorb2)
qed

lemma insert_by_sorted:
  "sorted (map f xs) \<Longrightarrow> sorted (map f (insert_by (\<lambda>a b. of_int (int (f a) - int (f b))) x xs))"
proof (induction xs)
  case (Cons y ys)
  then show ?case by (cases "f x \<le> f y") (auto intro: order_trans)
qed simp

lemma js_sort_sorted: "sorted (map f (js_sort (\<lambda>a b. of_int (int (f a) - int (f b))) xs))"
proof (induction xs)
  case (Cons x xs)
  then show ?case unfolding js_sort.simps by (rule insert_by_sorted)
qed simp

lemma parts_marks: "filter is_mark (parts rs t) = map Mark (rev rs)"
  by (induction rs arbitrary: t) (simp_all add: is_mark_def)

lemma no_mark: "is_mark p \<longleftrightarrow> (\<exists>r. p = Mark r)"
  by (cases p) (simp_all add: is_mark_def)

section \<open>What redaction removes\<close>


section \<open>What reaches the store\<close>

text \<open>Every string of a JSON value, property names included.\<close>

fun all_strings :: "(string \<Rightarrow> bool) \<Rightarrow> jsval \<Rightarrow> bool" where
  "all_strings P (JStr s) = P s"
| "all_strings P (JArr xs) = (\<forall>x \<in> set xs. all_strings P x)"
| "all_strings P (JObj kvs) = (\<forall>e \<in> set kvs. P (fst e) \<and> all_strings P (snd e))"
| "all_strings P _ = True"

definition clean_segment :: "(string \<Rightarrow> bool) \<Rightarrow> document_segment \<Rightarrow> bool" where
  "clean_segment P g \<longleftrightarrow> P (seg_key g) \<and> P (seg_text g) \<and> (\<forall>path. seg_headingPath g = Some path \<longrightarrow> (\<forall>h \<in> set path. P h))"

definition clean_row :: "(string \<Rightarrow> bool) \<Rightarrow> document_row \<Rightarrow> bool" where
  "clean_row P d \<longleftrightarrow> P (kd_title d) \<and> (\<forall>g \<in> set (kd_segments d). clean_segment P g) \<and> all_strings P (kd_attributes d)"

definition clean_input :: "(string \<Rightarrow> bool) \<Rightarrow> document_input \<Rightarrow> bool" where
  "clean_input P d \<longleftrightarrow> P (di_title d) \<and> (\<forall>g \<in> set (di_segments d). clean_segment P g) \<and> all_strings P (di_attributes d)"

lemma clean_put: "(\<forall>e \<in> set kvs. P (fst e) \<and> all_strings P (snd e)) \<Longrightarrow> P k \<Longrightarrow> all_strings P v \<Longrightarrow>
    \<forall>e \<in> set (object_put kvs k v). P (fst e) \<and> all_strings P (snd e)"
  by (auto simp: object_put_def split: if_splits)

definition redacts_to :: "(string \<Rightarrow> bool) \<Rightarrow> (string \<Rightarrow> lint_message list) \<Rightarrow> bool" where
  "redacts_to P lint \<longleftrightarrow> (\<forall>t. P (fst (redactText lint t)))"

lemma clean_text: "redacts_to P lint \<Longrightarrow> redactText lint t = (x, n) \<Longrightarrow> P x"
  unfolding redacts_to_def by (metis fst_conv)

lemma clean_strings:
  "redacts_to P lint \<Longrightarrow> all_strings P (fst (redactStrings lint v))"
  "redacts_to P lint \<Longrightarrow> \<forall>x \<in> set (fst (redact_items lint xs)). all_strings P x"
  "redacts_to P lint \<Longrightarrow> \<forall>e \<in> set out. P (fst e) \<and> all_strings P (snd e) \<Longrightarrow>
    \<forall>e \<in> set (fst (redact_entries lint kvs out)). P (fst e) \<and> all_strings P (snd e)"
proof (induction lint v and lint xs and lint kvs out rule: redactStrings_redact_items_redact_entries.induct)
  case (1 lint s)
  then show ?case by (auto intro: clean_text split: prod.split)
next
  case (3 lint kvs)
  then show ?case by (auto split: prod.split)
next
  case (8 lint k v rest out)
  obtain name n where name: "redactText lint k = (name, n)" by fastforce
  obtain x m where x: "redactStrings lint v = (x, m)" by fastforce
  have "P name" using clean_text [OF "8.prems"(1) name] .
  moreover have "all_strings P x" using "8.IH"(1) [OF name [symmetric] "8.prems"(1)] x by simp
  ultimately have put: "\<forall>e \<in> set (object_put out name x). P (fst e) \<and> all_strings P (snd e)"
    by (rule clean_put [OF "8.prems"(2)])
  show ?case using "8.IH"(2) [OF name [symmetric] x [symmetric] "8.prems"(1) put] name x by (simp split: prod.split)
qed (auto split: prod.split)

lemma clean_empty: "redacts_to P lint \<Longrightarrow> P []"
  by (rule clean_text [of P lint "[]" "[]" 0]) (simp_all add: redactText_def stripNul_def)

lemma clean_segments:
  "redacts_to P lint \<Longrightarrow> g \<in> set (fst (redactSegments lint gs)) \<Longrightarrow> P (seg_text g)"
proof (induction gs)
  case (Cons h gs)
  obtain t n where t: "redactText lint (seg_text h) = (t, n)" by fastforce
  have "P t" using clean_text [OF Cons.prems(1) t] .
  then show ?case using Cons t by (auto split: prod.splits if_splits)
qed simp

lemma clean_headings: "redacts_to P lint \<Longrightarrow> h \<in> set (fst (redact_headings lint hs)) \<Longrightarrow> P h"
  by (induction hs) (auto split: prod.splits intro: clean_text)

lemma clean_rest:
  assumes "redacts_to P lint" "P (seg_text g)"
  shows "clean_segment P (fst (redact_rest lint g))"
proof -
  obtain key n where key: "redactText lint (seg_key g) = (key, n)" by fastforce
  have "P key" using clean_text [OF assms(1) key] .
  then show ?thesis using assms key clean_headings [OF assms(1)]
    by (auto simp: redact_rest_def clean_segment_def Let_def split: option.split prod.split) (metis fst_conv)
qed

lemma clean_all:
  "redacts_to P lint \<Longrightarrow> (\<And>g. g \<in> set gs \<Longrightarrow> P (seg_text g)) \<Longrightarrow> g' \<in> set (fst (redact_all lint gs)) \<Longrightarrow> clean_segment P g'"
proof (induction gs)
  case (Cons g gs)
  have "clean_segment P (fst (redact_rest lint g))" using clean_rest [OF Cons.prems(1)] Cons.prems(2) by simp
  then show ?case using Cons by (auto split: prod.splits)
qed simp

lemma clean_document: "redacts_to P lint \<Longrightarrow> clean_input P (fst (redact_document lint d))"
proof -
  assume P: "redacts_to P lint"
  obtain gs n1 where gs: "redactSegments lint (di_segments d) = (gs, n1)" by fastforce
  obtain hs n2 where hs: "redact_all lint gs = (hs, n2)" by fastforce
  obtain t n3 where t: "redactText lint (di_title d) = (t, n3)" by fastforce
  obtain a n4 where a: "redactStrings lint (di_attributes d) = (a, n4)" by fastforce
  have "clean_segment P g" if "g \<in> set hs" for g
    using clean_all [OF P, of gs g] clean_segments [OF P, of _ "di_segments d"] gs hs that by simp
  moreover have "P t" using clean_text [OF P t] .
  moreover have "all_strings P a" using clean_strings(1) [OF P, of "di_attributes d"] a by simp
  ultimately show ?thesis by (simp add: redact_document_def gs hs t a clean_input_def)
qed

lemma clean_batch: "redacts_to P lint \<Longrightarrow> d \<in> set (fst (redact_batch lint ds m)) \<Longrightarrow> clean_input P d"
proof (induction ds arbitrary: m)
  case (Cons x ds)
  have "clean_input P (restricted_stub x)" using clean_empty [OF Cons.prems(1)] by (simp add: clean_input_def restricted_stub_def)
  moreover have "clean_input P (fst (redact_document lint x))" by (rule clean_document [OF Cons.prems(1)])
  ultimately show ?case using Cons by (auto simp: case_prod_beta split: if_splits)
qed simp

definition clean_store :: "(string \<Rightarrow> bool) \<Rightarrow> knowledge_store \<Rightarrow> bool" where
  "clean_store P s \<longleftrightarrow> (\<forall>d \<in> set (documents s). clean_row P d)"

lemma clean_upsert:
  assumes "clean_store P s" "clean_input P d"
  shows "clean_store P (upsertDocument sha256 connector container cols now d s)"
proof -
  have "clean_row P (new_document sha256 i connector container d cs now)" "clean_row P (updated_document sha256 container d cs now r)" for i cs r
    using assms(2) by (auto simp: clean_row_def clean_input_def new_document_def updated_document_def)
  then show ?thesis
    using assms(1) by (auto simp: clean_store_def upsertDocument_def Let_def delete_chunks_of_def set_update_where)
qed

lemma clean_tombstone: "P [] \<Longrightarrow> clean_store P s \<Longrightarrow> clean_store P (snd (tombstone connector exts now s))"
  by (auto simp: clean_store_def tombstone_def Let_def delete_chunks_of_def set_update_where clean_row_def tombstone_row_def)

lemma documents_principals [simp]: "documents (fold (upsertPrincipalRow connector) ps s) = documents s"
proof (induction ps arbitrary: s)
  case (Cons p ps)
  have "documents (upsertPrincipalRow connector p s) = documents s" by (simp add: upsertPrincipalRow_def)
  then show ?case using Cons.IH by simp
qed simp

lemma clean_storeBatch:
  assumes "P []" "clean_store P s" "\<And>d. d \<in> set (cb_documents batch) \<Longrightarrow> clean_input P d"
  shows "clean_store P (snd (storeBatch sha256 connector container batch redactions now s))"
proof -
  have all: "clean_store P (fold (upsertDocument sha256 connector i cols now) ds s1)"
    if "clean_store P s1" "\<And>d. d \<in> set ds \<Longrightarrow> clean_input P d" for i cols ds s1
    using that by (induction ds arbitrary: s1) (auto intro: clean_upsert)
  have "clean_store P (snd (accept_batch sha256 connector found batch redactions now s))" for found
  proof -
    define s1 where "s1 = (case cb_principals batch of Some ps \<Rightarrow> fold (upsertPrincipalRow connector) ps s | None \<Rightarrow> s)"
    have "clean_store P s1" using assms(2) by (simp add: s1_def clean_store_def split: option.split)
    then have "clean_store P (snd (tombstone connector (cb_deleted batch) now
        (fold (upsertDocument sha256 connector (kc_id found) cols now) (cb_documents batch) s1)))" for cols
      by (intro clean_tombstone assms(1) all assms(3))
    then show ?thesis by (simp add: accept_batch_def Let_def case_prod_beta s1_def clean_store_def)
  qed
  then show ?thesis using assms(2) by (simp add: storeBatch_def case_prod_beta split: option.split)
qed

text \<open>
  The sink keeps a clean store clean, whatever the connector delivers and whether or not the batch
  is accepted.
\<close>

lemma clean_sink:
  assumes "\<And>t. P (fst (redactText lint t))" "clean_store P s"
  shows "clean_store P (snd (sink_storeBatch sha256 lint connector container batch now s))"
proof -
  have P: "redacts_to P lint" using assms(1) by (simp add: redacts_to_def)
  obtain docs m where b: "redact_batch lint (cb_documents batch) Map.empty = (docs, m)" by fastforce
  have "clean_input P d" if "d \<in> set docs" for d using clean_batch [OF P, of d "cb_documents batch" Map.empty] b that by simp
  then have "clean_store P (snd (storeBatch sha256 connector container
      (batch\<lparr>cb_documents := docs, cb_principals := map_option (map storablePrincipal) (cb_principals batch)\<rparr>) m now s))"
    by (intro clean_storeBatch clean_empty [OF P] assms(2)) simp
  then show ?thesis by (simp add: sink_storeBatch_def b case_prod_beta)
qed

section \<open>Two linters\<close>

text \<open>One reports overlapping ranges of every text, the other nothing.\<close>

definition wiki_lint :: "string \<Rightarrow> lint_message list" where
  "wiki_lint t = [\<lparr>lm_isMessage = True, lm_start = 4, lm_end = 6, lm_ruleId = ''@secretlint/secretlint-rule-pw''\<rparr>,
     \<lparr>lm_isMessage = True, lm_start = 2, lm_end = 5, lm_ruleId = ''x''\<rparr>,
     \<lparr>lm_isMessage = False, lm_start = 0, lm_end = 9, lm_ruleId = ''y''\<rparr>]"

lemma wiki_redacted: "redactText wiki_lint ''k=abcd;'' = (''k=[redacted:x];'', 1)"
  by code_simp


definition no_nul :: "string \<Rightarrow> bool" where
  "no_nul t \<longleftrightarrow> CHR 0x00 \<notin> set t"

lemma quiet_redaction: "no_nul (fst (redactText (\<lambda>_. []) t))"
  by (simp add: redactText_def reported_def stripNul_def no_nul_def Let_def)

end
