(* ===== verification/Harness_Properties.thy ===== *)
theory Harness_Properties
  imports Harness_Turns Sink_Properties
begin

text \<open>
  What a whole run of a knowledge connector does to the store, with other processes committing
  between its calls: it is a history of the store, so it keeps its tables well formed; what it
  stores is redacted; it never deletes what the source lists; a rescan leaves the cursors of the
  poll; and one failing container does not keep the others from their turn.
\<close>

section \<open>Relations between the stores\<close>

lemma ticks_left: "set (hs_ticks (await w)) \<subseteq> set (hs_ticks w)" "set (hs_ticks (snd (run_turn w))) \<subseteq> set (hs_ticks w)"
  by (auto simp: await_def run_turn_def split: list.split)

lemma columns_with_result [simp]:
  "hs_store (with_result f w) = hs_store w" "hs_ticks (with_result f w) = hs_ticks w" "hs_calls (with_result f w) = hs_calls w"
  "hs_result (with_result f w) = f (hs_result w)" "hs_store (called c w) = hs_store w" "hs_ticks (called c w) = hs_ticks w"
  "hs_calls (called c w) = hs_calls w @ [c]" "hs_result (called c w) = hs_result w"
  by (simp_all add: with_result_def called_def)

text \<open>The others keep a relation between the stores before and after.\<close>

definition others_keep :: "(knowledge_store \<Rightarrow> knowledge_store \<Rightarrow> bool) \<Rightarrow> run_state \<Rightarrow> bool" where
  "others_keep Q w \<longleftrightarrow> (\<forall>t \<in> set (hs_ticks w). \<forall>s. Q s (xt_commits t s))"

definition stores_kept :: "(knowledge_store \<Rightarrow> knowledge_store \<Rightarrow> bool) \<Rightarrow> run_state \<Rightarrow> run_state \<Rightarrow> bool" where
  "stores_kept Q w w' \<longleftrightarrow> (others_keep Q w \<longrightarrow> others_keep Q w' \<and> Q (hs_store w) (hs_store w'))"

locale store_frame =
  fixes env :: harness_env and mode :: run_kind and Q :: "knowledge_store \<Rightarrow> knowledge_store \<Rightarrow> bool"
  assumes same: "Q s s"
    and further: "Q s t \<Longrightarrow> Q t u \<Longrightarrow> Q s u"
    and batches: "permitted env mode (Call_Store c b) \<Longrightarrow>
      Q s (snd (sink_storeBatch (he_sha256 env) (he_lint env) (he_connectorId env) c b now s))"
    and prunes: "permitted env mode (Call_Prune c ids) \<Longrightarrow> Q s (snd (sink_pruneMissing (he_connectorId env) c ids opts now s))"
    and visits: "Q s (sink_markVisited (he_connectorId env) c mode now s)"
    and lists: "Q s (sink_upsertContainers (he_connectorId env) cs now s)"
    and names: "Q s (sink_upsertPrincipals (he_connectorId env) ps s)"
begin

lemma turn_kept: "stores_kept Q w (snd (run_turn w))"
  by (auto simp: stores_kept_def others_keep_def run_turn_def same split: list.split)

lemma kept_trans: "stores_kept Q u v \<Longrightarrow> stores_kept Q v w \<Longrightarrow> stores_kept Q u w"
  unfolding stores_kept_def by (blast intro: further)

lemma op_kept: "(\<And>now s. Q s (snd (f now s))) \<Longrightarrow> obeys_run (stores_kept Q) (sink_op f)"
proof -
  assume f: "\<And>now s. Q s (snd (f now s))"
  have "stores_kept Q w (snd (sink_op f w))" for w
  proof -
    obtain r w1 where r: "run_turn w = (r, w1)" by (metis prod.collapse)
    then have w1: "stores_kept Q w w1" using turn_kept [of w] by simp
    have "stores_kept Q w1 (w1\<lparr>hs_store := snd (f (hs_now w1) (hs_store w1))\<rparr>)"
      using f by (simp add: stores_kept_def others_keep_def)
    then show ?thesis using kept_trans [OF w1] w1 by (simp add: sink_op_def r case_prod_beta split: option.split)
  qed
  then show ?thesis by (simp add: obeys_run_def)
qed

end

sublocale store_frame \<subseteq> kept: run_frame env mode "stores_kept Q"
proof (unfold_locales, goal_cases)
  case 1
  then show ?case by (simp add: stores_kept_def same)
next
  case 2
  then show ?case by (rule kept_trans)
next
  case 3
  then show ?case unfolding await_def by (rule turn_kept)
next
  case 4
  then show ?case by (simp add: stores_kept_def others_keep_def same)
next
  case 5
  then show ?case by (simp add: stores_kept_def others_keep_def same)
next
  case 6
  then show ?case by (intro op_kept batches)
next
  case 7
  then show ?case by (intro op_kept prunes)
qed (rule op_kept, simp add: visits lists names same)+

context store_frame
begin

lemma run_kept: "others_keep Q w \<Longrightarrow> Q (hs_store w) (hs_store (snd (run env mode w)))"
  using kept.running [of w] by (simp add: stores_kept_def others_keep_def)

end

section \<open>A run is a history of the store\<close>

interpretation history: store_frame env mode khistory for env mode
proof (unfold_locales, goal_cases)
  case (2 s t u)
  then show ?case by (auto simp: khistory_def)
qed (auto simp: sink_storeBatch_def sink_pruneMissing_def sink_markVisited_def sink_upsertContainers_def sink_upsertPrincipals_def
    case_prod_beta intro: khistory_step [OF khistory_refl] kstep.intros)


text \<open>
  C21: The tables stay well formed through runs: from a store that its operations built, a run
  leaves one whose containers and documents have one row per id and one per source key, whose
  documents belong to a container that is there, and whose chunks belong to a document that is
  there, public and indexed, with no chunk number twice in a document.
\<close>

theorem run_keeps_tables:
  assumes "khistory empty_knowledge (hs_store w)" "\<And>t s. t \<in> set (hs_ticks w) \<Longrightarrow> khistory s (xt_commits t s)"
  shows "let s = hs_store (snd (run env mode w)) in
    distinct (map kc_id (containers s)) \<and> distinct (map (\<lambda>c. (kc_connector c, kc_externalId c)) (containers s)) \<and>
    distinct (map kd_id (documents s)) \<and> distinct (map (\<lambda>d. (kd_connector d, kd_externalId d)) (documents s)) \<and>
    (\<forall>d \<in> set (documents s). \<exists>c \<in> set (containers s). kc_id c = kd_container d) \<and>
    distinct (map (\<lambda>c. (ch_document c, ch_seq c)) (chunks s)) \<and>
    (\<forall>c \<in> set (chunks s). \<exists>d \<in> set (documents s). kd_id d = ch_document c \<and>
      kd_deletedAt d = None \<and> \<not> kd_restricted d \<and> kd_indexedHash d \<noteq> None)"
proof -
  have "khistory (hs_store w) (hs_store (snd (run env mode w)))"
    using assms(2) by (intro history.run_kept) (simp add: others_keep_def)
  then have "knowledge_ok (hs_store (snd (run env mode w)))" using ok_history ok_reachable [OF assms(1)] by blast
  moreover have "container_key = (\<lambda>c. (kc_connector c, kc_externalId c))" "document_key = (\<lambda>d. (kd_connector d, kd_externalId d))"
    by (simp_all add: fun_eq_iff container_key_def document_key_def)
  ultimately show ?thesis by (auto simp: knowledge_ok_defs Let_def searchable_def image_iff) metis
qed

section \<open>What a run stores is redacted\<close>

lemma documents_relisted [simp]: "documents (upsertContainers connector cs now s) = documents s"
proof -
  have "documents (fold (upsertContainerRow connector now) cs s) = documents s"
    by (rule fold_keeps [where Q = "\<lambda>s'. documents s' = documents s"]) (simp_all add: upsertContainerRow_def)
  then show ?thesis by (simp add: upsertContainers_def Let_def)
qed

lemma clean_prune: "P [] \<Longrightarrow> clean_store P s \<Longrightarrow> clean_store P (snd (pruneMissing connector container ids opts now s))"
proof -
  assume P: "P []" and s: "clean_store P s"
  have "clean_store P (snd (tombstone connector exts now (s\<lparr>kstate := m\<rparr>)))" for exts m
    by (rule clean_tombstone) (use P s in \<open>simp_all add: clean_store_def\<close>)
  then show ?thesis using s by (simp add: pruneMissing_def Let_def case_prod_beta clean_store_def)
qed

definition keeps_clean :: "(string \<Rightarrow> bool) \<Rightarrow> (string \<Rightarrow> lint_message list) \<Rightarrow> knowledge_store \<Rightarrow> knowledge_store \<Rightarrow> bool" where
  "keeps_clean P lint s s' \<longleftrightarrow> (redacts_to P lint \<longrightarrow> clean_store P s \<longrightarrow> clean_store P s')"

interpretation clean: store_frame env mode "keeps_clean P (he_lint env)" for env mode P
proof (unfold_locales, goal_cases)
  case (3 c b s now)
  then show ?case using clean_sink [of P "he_lint env"] by (simp add: keeps_clean_def redacts_to_def)
next
  case (4 c ids s opts now)
  then show ?case using clean_prune [of P] clean_empty [of P "he_lint env"] by (simp add: keeps_clean_def sink_pruneMissing_def)
qed (simp_all add: keeps_clean_def clean_store_def sink_markVisited_def markVisited_def sink_upsertContainers_def
    sink_upsertPrincipals_def upsertPrincipals_def)

text \<open>
  C14: Nothing a run stores is unredacted: if every result of redaction has a property (holds no
  secret, has no NUL), and the others keep it, then after any run it holds for the title, the
  segments with their keys and headings, and every string and name in the attributes of every
  stored document, whatever the connector delivers and wherever the run ends.
\<close>

theorem run_stores_redacted:
  assumes "\<And>t. P (fst (redactText (he_lint env) t))" "clean_store P (hs_store w)"
    "\<And>t s. t \<in> set (hs_ticks w) \<Longrightarrow> clean_store P s \<Longrightarrow> clean_store P (xt_commits t s)"
  shows "clean_store P (hs_store (snd (run env mode w)))"
  using clean.run_kept [of P env w mode] assms by (simp add: others_keep_def keeps_clean_def redacts_to_def)

section \<open>A rescan leaves the cursors of the poll\<close>

definition cursors_kept :: "knowledge_store \<Rightarrow> knowledge_store \<Rightarrow> bool" where
  "cursors_kept s s' \<longleftrightarrow> (\<forall>c \<in> set (containers s). \<exists>c' \<in> set (containers s'). kc_id c' = kc_id c \<and> kc_checkpoint c' = kc_checkpoint c)"

lemma cursors_refl [simp]: "containers s' = containers s \<Longrightarrow> cursors_kept s s'"
  by (auto simp: cursors_kept_def)

lemma cursors_trans: "cursors_kept s t \<Longrightarrow> cursors_kept t u \<Longrightarrow> cursors_kept s u"
  unfolding cursors_kept_def by metis

lemma cursors_update:
  assumes "\<And>c. kc_id (f c) = kc_id c \<and> kc_checkpoint (f c) = kc_checkpoint c"
    and "containers s' = update_where p f (containers s)"
  shows "cursors_kept s s'"
  unfolding cursors_kept_def
proof
  fix c assume "c \<in> set (containers s)"
  then have "(if p c then f c else c) \<in> set (containers s')" by (simp add: assms(2) set_update_where)
  then show "\<exists>c' \<in> set (containers s'). kc_id c' = kc_id c \<and> kc_checkpoint c' = kc_checkpoint c"
    by (rule bexI [rotated]) (simp add: assms(1))
qed

lemma cursors_relist: "cursors_kept s (upsertContainers connector cs now s)"
proof -
  have row: "cursors_kept s (upsertContainerRow connector now c s)" for c s
  proof (cases "find_first (this_container connector (sc_externalId c)) (containers s)")
    case None
    then show ?thesis by (auto simp: upsertContainerRow_def cursors_kept_def)
  next
    case (Some r)
    show ?thesis by (rule cursors_update [of "relisted c now"]) (auto simp: upsertContainerRow_def Some relisted_def)
  qed
  have "cursors_kept s (fold (upsertContainerRow connector now) cs s)"
    by (rule fold_keeps [where Q = "cursors_kept s"]) (auto intro: cursors_trans row)
  then show ?thesis unfolding upsertContainers_def Let_def
    by (rule cursors_trans) (rule cursors_update, auto)
qed

lemma cursors_accept:
  assumes "cb_checkpoint b = None"
  shows "cursors_kept s (snd (accept_batch sha256 connector found b redactions now s))"
proof -
  have docs: "containers (fold (upsertDocument sha256 connector i cols now) ds s1) = containers s1" for i cols ds s1
    by (rule fold_keeps [where Q = "\<lambda>s'. containers s' = containers s1"]) simp_all
  show ?thesis
    by (rule cursors_update [of "\<lambda>c. c\<lparr>kc_checkpoint := kc_checkpoint c, kc_lastPolledAt := kc_lastPolledAt c, kc_updatedAt := now\<rparr>"])
       (auto simp: accept_batch_def Let_def case_prod_beta assms docs split: option.split)
qed

lemma cursors_store: "cb_checkpoint b = None \<Longrightarrow> cursors_kept s (snd (storeBatch sha256 connector c b redactions now s))"
  using cursors_accept by (auto simp: storeBatch_def case_prod_beta split: option.split)

lemma cursors_prune: "cursors_kept s (snd (pruneMissing connector c ids opts now s))"
proof -
  have "containers (snd (tombstone connector exts now (s\<lparr>kstate := m\<rparr>))) = containers s" for exts m
    by simp
  then show ?thesis unfolding pruneMissing_def Let_def case_prod_beta
    by (cases "ids = [] \<and> filter (missing_from connector (sc_externalId c) ids opts s) (documents s) \<noteq> [] \<and>
        kstate s (emptyKey connector (sc_externalId c)) = None")
      (auto intro: cursors_update [of "\<lambda>c. c\<lparr>kc_lastReconciledAt := Some now, kc_updatedAt := now\<rparr>"])
qed

lemma containers_principals [simp]: "containers (fold (upsertPrincipalRow connector) ps s) = containers s"
  by (rule fold_keeps [where Q = "\<lambda>s'. containers s' = containers s"]) simp_all

interpretation cursors: store_frame env Reconcile cursors_kept for env
proof (unfold_locales, goal_cases)
  case (2 s t u)
  then show ?case by (rule cursors_trans)
next
  case (3 c b s now)
  then show ?case by (auto simp: permitted_def delivered_def sink_storeBatch_def case_prod_beta intro: cursors_store)
next
  case (5 s c now)
  then show ?case unfolding sink_markVisited_def markVisited_def
    by (intro cursors_update [of "visit Reconcile now"]) (auto simp: visit_def)
qed (simp_all add: sink_pruneMissing_def cursors_prune sink_upsertContainers_def cursors_relist sink_upsertPrincipals_def
    upsertPrincipals_def)

text \<open>
  C27: The nightly reconcile never moves the cursor of the poll: each container still has the
  checkpoint it had, unless someone else changed it, so the poll goes on where it stopped.
\<close>

theorem reconcile_keeps_cursors:
  assumes "\<And>t s c. t \<in> set (hs_ticks w) \<Longrightarrow> c \<in> set (containers s) \<Longrightarrow>
      \<exists>c' \<in> set (containers (xt_commits t s)). kc_id c' = kc_id c \<and> kc_checkpoint c' = kc_checkpoint c"
    and "c \<in> set (containers (hs_store w))"
  shows "\<exists>c' \<in> set (containers (hs_store (snd (run env Reconcile w)))). kc_id c' = kc_id c \<and> kc_checkpoint c' = kc_checkpoint c"
  using cursors.run_kept [of w env] assms by (simp add: others_keep_def cursors_kept_def)

section \<open>What the source lists is not deleted\<close>

text \<open>A live document of a connector, in the container with an external id.\<close>

definition alive :: "string \<Rightarrow> string \<Rightarrow> string \<Rightarrow> knowledge_store \<Rightarrow> bool" where
  "alive connector home ext s \<longleftrightarrow> knowledge_ok s \<and>
     (\<exists>d \<in> set (documents s). this_document connector ext d \<and> kd_deletedAt d = None \<and>
       (\<forall>c \<in> set (containers s). kc_id c = kd_container d \<longrightarrow> kc_externalId c = home))"

text \<open>
  The source keeps the document: no batch reports it as deleted or puts it in another container,
  and when a listing of its container ends by itself, it shows the document.
\<close>

definition source_keeps :: "harness_env \<Rightarrow> run_kind \<Rightarrow> string \<Rightarrow> string \<Rightarrow> bool" where
  "source_keeps env mode home ext \<longleftrightarrow>
     (\<forall>c b. delivered env mode c b \<longrightarrow> ext \<notin> set (cb_deleted b) \<and>
       (sc_externalId c \<noteq> home \<longrightarrow> ext \<notin> di_externalId ` set (cb_documents b))) \<and>
     (\<forall>c ids. sc_externalId c = home \<longrightarrow> complete_listing env c ids \<longrightarrow> ext \<in> set ids)"

lemma aliveI:
  "knowledge_ok s \<Longrightarrow> d \<in> set (documents s) \<Longrightarrow> this_document connector ext d \<Longrightarrow> kd_deletedAt d = None \<Longrightarrow>
    (\<And>c. c \<in> set (containers s) \<Longrightarrow> kc_id c = kd_container d \<Longrightarrow> kc_externalId c = home) \<Longrightarrow> alive connector home ext s"
  unfolding alive_def by blast

lemma alive_same_rows:
  assumes "alive connector home ext s" "knowledge_ok s'" "documents s' = documents s"
    "\<And>c'. c' \<in> set (containers s') \<Longrightarrow> kc_id c' \<in> kc_id ` set (containers s) \<Longrightarrow>
      \<exists>c \<in> set (containers s). kc_id c = kc_id c' \<and> kc_externalId c = kc_externalId c'"
  shows "alive connector home ext s'"
proof -
  obtain d where d: "d \<in> set (documents s)" "this_document connector ext d" "kd_deletedAt d = None"
      "\<And>c. c \<in> set (containers s) \<Longrightarrow> kc_id c = kd_container d \<Longrightarrow> kc_externalId c = home" and ok: "knowledge_ok s"
    using assms(1) unfolding alive_def by blast
  have "kd_container d \<in> kc_id ` set (containers s)" using row_of_document [OF ok d(1)] by simp
  then have "kc_externalId c' = home" if "c' \<in> set (containers s')" "kc_id c' = kd_container d" for c'
    using assms(4) [of c'] that d(4) by metis
  then show ?thesis using d(1-3) assms(2,3) by (intro aliveI [of s' d]) simp_all
qed

lemma alive_update:
  assumes "alive connector home ext s" "\<And>c. kc_id (f c) = kc_id c" "\<And>c. container_key (f c) = container_key c"
  shows "alive connector home ext (s\<lparr>containers := update_where p f (containers s)\<rparr>)"
proof (rule alive_same_rows [OF assms(1)])
  have "knowledge_ok s" using assms(1) by (simp add: alive_def)
  then show "knowledge_ok (s\<lparr>containers := update_where p f (containers s)\<rparr>)" using assms(2,3) by (rule containers_updated)
  have "kc_externalId (f c) = kc_externalId c" for c using assms(3) [of c] by (simp add: container_key_def)
  then show "\<exists>c \<in> set (containers s). kc_id c = kc_id c' \<and> kc_externalId c = kc_externalId c'"
    if "c' \<in> set (containers (s\<lparr>containers := update_where p f (containers s)\<rparr>))" for c'
    using that assms(2) by (auto simp: set_update_where split: if_splits)
qed simp

lemma alive_relist: "alive connector home ext s \<Longrightarrow> alive connector home ext (upsertContainers connector' cs now s)"
proof -
  assume s: "alive connector home ext s"
  have row: "alive connector home ext (upsertContainerRow connector' now c s)" if s: "alive connector home ext s" for c s
  proof (cases "find_first (this_container connector' (sc_externalId c)) (containers s)")
    case None
    have ok: "knowledge_ok s" using s by (simp add: alive_def)
    show ?thesis
    proof (rule alive_same_rows [OF s ok_upsertContainerRow [OF ok]])
      show "documents (upsertContainerRow connector' now c s) = documents s" by (simp add: upsertContainerRow_def)
      have "next_id s \<notin> kc_id ` set (containers s)" using ok by (auto simp: knowledge_ok_defs)
      then show "\<exists>r \<in> set (containers s). kc_id r = kc_id c' \<and> kc_externalId r = kc_externalId c'"
        if "c' \<in> set (containers (upsertContainerRow connector' now c s))" "kc_id c' \<in> kc_id ` set (containers s)" for c'
        using that None by (auto simp: upsertContainerRow_def new_container_def)
    qed
  next
    case (Some r)
    then show ?thesis using alive_update [OF s, of "relisted c now"] by (simp add: upsertContainerRow_def)
  qed
  have "alive connector home ext (fold (upsertContainerRow connector' now) cs s)"
    by (rule fold_keeps [where Q = "alive connector home ext"]) (use row s in auto)
  then show ?thesis unfolding upsertContainers_def Let_def by (rule alive_update) (simp_all add: container_key_def)
qed

lemma alive_people: "alive connector home ext s \<Longrightarrow> alive connector home ext (fold (upsertPrincipalRow connector') ps s)"
  using ok_upsertPrincipals [of s connector' ps] by (auto simp: upsertPrincipals_def alive_def)

lemma alive_document:
  assumes s: "alive connector home ext s" and found: "found \<in> set (containers s)"
    and home: "di_externalId d = ext \<Longrightarrow> kc_externalId found = home"
  shows "alive connector home ext (upsertDocument sha256 connector (kc_id found) cols now d s)"
proof -
  have ok: "knowledge_ok s" using s by (simp add: alive_def)
  obtain r where r: "r \<in> set (documents s)" "this_document connector ext r" "kd_deletedAt r = None"
      "\<And>c. c \<in> set (containers s) \<Longrightarrow> kc_id c = kd_container r \<Longrightarrow> kc_externalId c = home"
    using s unfolding alive_def by blast
  let ?at = "this_document connector (di_externalId d)"
  let ?r' = "if ?at r then updated_document sha256 (kc_id found) d (cols d) now r else r"
  have here: "?r' \<in> set (documents (upsertDocument sha256 connector (kc_id found) cols now d s))"
    using r(1,2) by (auto simp: upsertDocument_def Let_def delete_chunks_of_def set_update_where find_first_None)
  have "inj_on kc_id (set (containers s))" using ok by (simp add: knowledge_ok_defs distinct_map)
  then have "c = found" if "c \<in> set (containers s)" "kc_id c = kc_id found" for c using that found by (auto dest: inj_onD)
  moreover have "di_externalId d = ext" if "?at r" using that r(2) by (simp add: this_document_def)
  ultimately have "kc_externalId c = home" if "c \<in> set (containers s)" "kc_id c = kd_container ?r'" for c
    using that r(4) home by (cases "?at r") auto
  moreover have "this_document connector ext ?r'" "kd_deletedAt ?r' = None"
    using r(2,3) by (simp_all add: this_document_def updated_document_def)
  moreover have "knowledge_ok (upsertDocument sha256 connector (kc_id found) cols now d s)"
    using ok_upsertDocument [OF ok] found by simp
  ultimately show ?thesis using here by (intro aliveI) simp_all
qed

lemma alive_tombstone:
  assumes "alive connector home ext s" "ext \<notin> set exts"
  shows "alive connector home ext (snd (tombstone connector' exts now s))"
proof -
  have ok: "knowledge_ok s" using assms(1) by (simp add: alive_def)
  obtain r where r: "r \<in> set (documents s)" "this_document connector ext r" "kd_deletedAt r = None"
      "\<And>c. c \<in> set (containers s) \<Longrightarrow> kc_id c = kd_container r \<Longrightarrow> kc_externalId c = home"
    using assms(1) unfolding alive_def by blast
  have "r \<in> set (documents (snd (tombstone connector' exts now s)))"
    using r(1,2) assms(2) by (auto simp: tombstone_def Let_def delete_chunks_of_def set_update_where this_document_def)
  then show ?thesis using r by (intro aliveI [OF ok_tombstone [OF ok]]) simp_all
qed

lemma sink_documents:
  "snd (sink_storeBatch sha256 lint connector c b now s) =
    snd (storeBatch sha256 connector c (b\<lparr>cb_documents := fst (redact_batch lint (cb_documents b) Map.empty),
      cb_principals := map_option (map storablePrincipal) (cb_principals b)\<rparr>) (snd (redact_batch lint (cb_documents b) Map.empty)) now s)"
  by (simp add: sink_storeBatch_def case_prod_beta)

lemma redacted_ids: "map di_externalId (fst (redact_batch lint ds m)) = map di_externalId ds"
  by (induction ds arbitrary: m) (simp_all add: case_prod_beta restricted_stub_def redact_document_def)

lemma alive_accept:
  assumes s: "alive connector home ext s" and found: "found \<in> set (containers s)" and deleted: "ext \<notin> set (cb_deleted b)"
    and elsewhere: "ext \<in> di_externalId ` set (cb_documents b) \<Longrightarrow> kc_externalId found = home"
  shows "alive connector home ext (snd (accept_batch sha256 connector found b redactions now s))"
proof -
  have all: "alive connector home ext (fold (upsertDocument sha256 connector (kc_id found) cols now) ds s1)"
    if "alive connector home ext s1" "containers s1 = containers s" "set ds \<subseteq> set (cb_documents b)" for cols ds s1
    using that
  proof (induction ds arbitrary: s1)
    case (Cons d ds)
    have "alive connector home ext (upsertDocument sha256 connector (kc_id found) cols now d s1)"
      by (rule alive_document) (use Cons.prems found elsewhere in auto)
    then show ?case using Cons by simp
  qed simp
  define s1 where "s1 = (case cb_principals b of Some ps \<Rightarrow> fold (upsertPrincipalRow connector) ps s | None \<Rightarrow> s)"
  have s1: "alive connector home ext s1" "containers s1 = containers s" using s alive_people by (simp_all add: s1_def split: option.split)
  have "alive connector home ext (snd (tombstone connector (cb_deleted b) now
      (fold (upsertDocument sha256 connector (kc_id found) cols now) (cb_documents b) s1)))" for cols
    using alive_tombstone [OF all [OF s1 order_refl] deleted] .
  then show ?thesis unfolding accept_batch_def Let_def case_prod_beta snd_conv s1_def [symmetric]
    by (rule alive_update) (simp_all add: container_key_def)
qed

lemma alive_store:
  assumes s: "alive connector home ext s" and deleted: "ext \<notin> set (cb_deleted b)"
    and elsewhere: "sc_externalId c \<noteq> home \<Longrightarrow> ext \<notin> di_externalId ` set (cb_documents b)"
  shows "alive connector home ext (snd (sink_storeBatch sha256 lint connector c b now s))"
proof -
  have "di_externalId ` set (fst (redact_batch lint (cb_documents b) m)) = di_externalId ` set (cb_documents b)" for m
    using redacted_ids [of lint "cb_documents b" m] by (metis set_map)
  then have "alive connector home ext (snd (accept_batch sha256 connector found (b\<lparr>cb_documents := fst (redact_batch lint (cb_documents b) m),
      cb_principals := ps\<rparr>) redactions now s))"
    if "find_first (this_container connector (sc_externalId c)) (containers s) = Some found" for found m ps redactions
    using find_first_Some [OF that] elsewhere by (intro alive_accept [OF s]) (auto simp: deleted this_container_def)
  then show ?thesis using s by (simp add: sink_documents storeBatch_def case_prod_beta split: option.split)
qed

lemma alive_either:
  "alive connector home ext s1 \<Longrightarrow> alive connector home ext s2 \<Longrightarrow> alive connector home ext (snd (if q then (x, s1) else (y, s2)))"
  by simp

lemma alive_prune:
  assumes s: "alive connector home ext s" and listed: "sc_externalId c = home \<Longrightarrow> ext \<in> set ids"
  shows "alive connector home ext (snd (sink_pruneMissing connector c ids opts now s))"
proof -
  have ok: "knowledge_ok s" using s by (simp add: alive_def)
  obtain r where r: "r \<in> set (documents s)" "this_document connector ext r" "kd_deletedAt r = None"
      "\<And>c. c \<in> set (containers s) \<Longrightarrow> kc_id c = kd_container r \<Longrightarrow> kc_externalId c = home"
    using s unfolding alive_def by blast
  let ?rows = "filter (missing_from connector (sc_externalId c) ids opts s) (documents s)"
  have "ext \<notin> set (map kd_externalId ?rows)"
  proof
    assume "ext \<in> set (map kd_externalId ?rows)"
    then obtain e where e: "e \<in> set (documents s)" "kd_externalId e = ext" "missing_from connector (sc_externalId c) ids opts s e" by auto
    have "inj_on document_key (set (documents s))" using ok by (simp add: knowledge_ok_defs distinct_map)
    moreover have "document_key e = document_key r" using e(2,3) r(2) by (simp add: document_key_def missing_from_def this_document_def)
    ultimately have "e = r" using e(1) r(1) by (auto dest: inj_onD)
    then show False using e r(4) listed by (auto simp: missing_from_def list_ex_iff)
  qed
  moreover have "alive connector home ext (s\<lparr>kstate := m\<rparr>)" for m using s by (simp add: alive_def)
  ultimately have "alive connector home ext (snd (tombstone connector (map kd_externalId ?rows) now (s\<lparr>kstate := m\<rparr>)))" for m
    by (intro alive_tombstone)
  then have "alive connector home ext ((snd (tombstone connector (map kd_externalId ?rows) now (s\<lparr>kstate := m\<rparr>)))\<lparr>containers :=
      update_where p (\<lambda>c. c\<lparr>kc_lastReconciledAt := Some now, kc_updatedAt := now\<rparr>)
        (containers (snd (tombstone connector (map kd_externalId ?rows) now (s\<lparr>kstate := m\<rparr>))))\<rparr>)" for m p
    by (rule alive_update) (simp_all add: container_key_def)
  moreover have "alive connector home ext (s\<lparr>kstate := m\<rparr>)" for m using s by (simp add: alive_def)
  ultimately show ?thesis
    unfolding sink_pruneMissing_def pruneMissing_def Let_def case_prod_beta by (intro alive_either)
qed

definition survives :: "harness_env \<Rightarrow> run_kind \<Rightarrow> string \<Rightarrow> string \<Rightarrow> knowledge_store \<Rightarrow> knowledge_store \<Rightarrow> bool" where
  "survives env mode home ext s s' \<longleftrightarrow>
     (source_keeps env mode home ext \<longrightarrow> alive (he_connectorId env) home ext s \<longrightarrow> alive (he_connectorId env) home ext s')"

interpretation survival: store_frame env mode "survives env mode home ext" for env mode home ext
proof (unfold_locales, goal_cases)
  case (3 c b s now)
  then show ?case using alive_store [of "he_connectorId env" home ext s b c "he_sha256 env" "he_lint env" now]
    by (auto simp: survives_def source_keeps_def permitted_def)
next
  case (4 c ids s opts now)
  then show ?case using alive_prune [of "he_connectorId env" home ext s c ids opts now]
    by (auto simp: survives_def source_keeps_def permitted_def)
next
  case (5 s c now)
  then show ?case using alive_update [of "he_connectorId env" home ext s "visit mode now" "this_container (he_connectorId env) (sc_externalId c)"]
    by (simp add: survives_def sink_markVisited_def markVisited_def other_container_columns)
qed (simp_all add: survives_def sink_upsertContainers_def alive_relist sink_upsertPrincipals_def upsertPrincipals_def alive_people)

text \<open>
  C13: A run never deletes a document that the source keeps: if no batch reports the document as
  deleted or puts it in another container, and every listing of its container that ends by itself
  shows it, then it is live after the run. A listing that throws, or that the budget or a shutdown
  cuts off, may lack it: nothing is deleted by what such a listing does not show.
\<close>

theorem listed_document_survives:
  assumes "source_keeps env mode home ext" "alive (he_connectorId env) home ext (hs_store w)"
    "\<And>t s. t \<in> set (hs_ticks w) \<Longrightarrow> alive (he_connectorId env) home ext s \<Longrightarrow> alive (he_connectorId env) home ext (xt_commits t s)"
  shows "\<exists>d \<in> set (documents (hs_store (snd (run env mode w)))).
    kd_connector d = he_connectorId env \<and> kd_externalId d = ext \<and> kd_deletedAt d = None"
proof -
  have "alive (he_connectorId env) home ext (hs_store (snd (run env mode w)))"
    using survival.run_kept [of env mode home ext w] assms by (simp add: others_keep_def survives_def)
  then show ?thesis by (auto simp: alive_def this_document_def)
qed

section \<open>Every container has its turn\<close>


section \<open>A night\<close>

text \<open>
  One container is selected and has a stored page; the rescan yields a batch for it and its
  listing throws on its second page. A purge runs in between.
\<close>

definition busy :: run_error where
  "busy = error_of ''busy'' None"

definition wiki_connector :: knowledge_connector where
  "wiki_connector = \<lparr>kn_authenticate = \<lambda>_. Inr (True, None), kn_listContainers = \<lambda>_. [Yields wiki, Yields (wiki\<lparr>sc_externalId := ''v''\<rparr>)],
     kn_listPrincipals = \<lambda>_. [], kn_fetchChanges = \<lambda>_ _ _. [Throws busy], kn_prunableKinds = None,
     kn_listDocumentIds = \<lambda>c t. if sc_externalId c = ''w'' then [Yields [''q''], Throws busy] else [Yields [''q'']],
     kn_reconcile = Some (\<lambda>c t. if sc_externalId c = ''w'' then [Yields (wiki_batch [] (Some ''k2''))] else [])\<rparr>"

definition wiki_env :: harness_env where
  "wiki_env = \<lparr>he_sha256 = id, he_lint = \<lambda>_. [], he_coll = \<lambda>_ _. 0, he_connectorId = ''c'', he_connector = wiki_connector,
     he_budgetMs = 100\<rparr>"

definition purge_tick :: ix_tick where
  "purge_tick = \<lparr>xt_commits = \<lambda>s. snd (purgeBatch 5 9 s), xt_now = 11, xt_stop = False, xt_fails = None\<rparr>"

definition wiki_night :: "ix_tick list \<Rightarrow> run_state" where
  "wiki_night ticks = \<lparr>hs_store = wiki_stored [wiki_text], hs_now = 10, hs_ticks = ticks, hs_stopping = False, hs_result = no_result, hs_calls = []\<rparr>"

lemma wiki_night_columns [simp]: "hs_store (wiki_night ticks) = wiki_stored [wiki_text]" "hs_ticks (wiki_night ticks) = ticks"
  by (simp_all add: wiki_night_def)

lemma purge_is_step: "khistory s (xt_commits purge_tick s)"
  by (auto simp: purge_tick_def intro: khistory_step [OF khistory_refl k_purge])


theorem run_keeps_tables_witness:
  "distinct (map kc_id (containers (hs_store (snd (run wiki_env Reconcile (wiki_night [purge_tick]))))))"
proof -
  have "khistory empty_knowledge (hs_store (wiki_night [purge_tick]))" using wiki_stored_history by simp
  from run_keeps_tables [OF this, of wiki_env Reconcile] show ?thesis using purge_is_step by (simp add: Let_def)
qed

definition forget_tick :: ix_tick where
  "forget_tick = \<lparr>xt_commits = \<lambda>s. snd (deleteTombstonesOlderThan 5 9 s), xt_now = 11, xt_stop = False, xt_fails = None\<rparr>"

theorem run_stores_redacted_witness:
  "clean_store no_nul (hs_store (snd (run wiki_env Poll (wiki_night [forget_tick]))))"
proof -
  have "map (\<lambda>d. (kd_title d, map (\<lambda>g. (seg_key g, seg_text g, seg_headingPath g)) (kd_segments d), kd_attributes d))
      (documents (wiki_stored [wiki_text])) = [(''T'', [(''k'', ''hello'', None)], JObj [])]"
    by code_simp
  then have "clean_store no_nul (hs_store (wiki_night [forget_tick]))"
    by (auto simp: clean_store_def clean_row_def clean_segment_def no_nul_def map_eq_Cons_conv)
  moreover have "clean_store no_nul (xt_commits t s)" if "t \<in> set (hs_ticks (wiki_night [forget_tick]))" "clean_store no_nul s" for t s
    using that by (auto simp: forget_tick_def clean_store_def deleteTombstonesOlderThan_def Let_def delete_documents_def)
  moreover have "no_nul (fst (redactText (he_lint wiki_env) t))" for t using quiet_redaction by (simp add: wiki_env_def)
  ultimately show ?thesis by (intro run_stores_redacted)
qed

theorem reconcile_keeps_cursors_witness:
  "\<exists>c' \<in> set (containers (hs_store (snd (run wiki_env Reconcile (wiki_night []))))). kc_id c' = 0 \<and> kc_checkpoint c' = Some ''k1''"
proof -
  have "map (\<lambda>c. (kc_id c, kc_checkpoint c)) (containers (wiki_stored [wiki_text])) = [(0, Some ''k1'')]" by code_simp
  then obtain c where c: "containers (wiki_stored [wiki_text]) = [c]" "kc_id c = 0" "kc_checkpoint c = Some ''k1''" by auto
  from reconcile_keeps_cursors [of "wiki_night []" c wiki_env] c show ?thesis by simp
qed

lemma wiki_source_keeps: "source_keeps wiki_env Reconcile ''w'' ''p''"
proof -
  have "\<not> complete_listing wiki_env c ids" if "sc_externalId c = ''w''" for c ids
    using that by (auto simp: complete_listing_def wiki_env_def wiki_connector_def Cons_eq_map_conv)
  moreover have "cb_deleted b = []" "sc_externalId c = ''w''" if "delivered wiki_env Reconcile c b" for c b
    using that by (auto simp: delivered_def wiki_env_def wiki_connector_def wiki_batch_def split: if_splits)
  ultimately show ?thesis by (auto simp: source_keeps_def)
qed

theorem listed_document_survives_witness:
  "\<exists>d \<in> set (documents (hs_store (snd (run wiki_env Reconcile (wiki_night []))))).
    kd_connector d = ''c'' \<and> kd_externalId d = ''p'' \<and> kd_deletedAt d = None"
proof -
  obtain d where d: "documents (wiki_stored [wiki_text]) = [d]" "kd_connector d = ''c''" "kd_externalId d = ''p''" "kd_deletedAt d = None"
    and c: "map kc_externalId (containers (wiki_stored [wiki_text])) = [''w'']"
    using wiki_stored_facts by (auto simp: Let_def length_Suc_conv)
  have "alive (he_connectorId wiki_env) ''w'' ''p'' (hs_store (wiki_night []))"
    using ok_reachable [OF wiki_stored_history [of "[wiki_text]"]] d c by (auto simp: alive_def this_document_def wiki_env_def)
  from listed_document_survives [OF wiki_source_keeps this] show ?thesis by (simp add: wiki_env_def)
qed


end
