(* ===== verification/String_Similarity.thy ===== *)
theory String_Similarity
  imports Prelude
begin

text \<open>
  The lexical similarity of two entities: Jaro-Winkler of the names, trigrams of the namespaces,
  sets of tags and labels (\<open>packages/api-server/src/services/string-similarity.ts\<close>), and the
  weighted score of a pair (\<open>scorePair\<close> of \<open>reconciliation-service.ts\<close>). The scores are exact.
  The inner loop that looks for the next matched character has no bound in the code: it is a
  search that may find nothing, and then the score is missing; that it never is missing is a
  lemma.
\<close>

section \<open>Jaro-Winkler\<close>

text \<open>\<open>toLowerCase\<close> below code unit 256.\<close>

definition latin_lower :: "char \<Rightarrow> char" where
  "latin_lower c = (let n = (of_char c :: nat) in
     if 192 \<le> n \<and> n \<le> 222 \<and> n \<noteq> 215 then char_of (n + 32) else to_lower c)"

definition sim_normalize :: "string \<Rightarrow> string" where
  "sim_normalize s = map latin_lower (js_trim s)"

definition match_distance :: "string \<Rightarrow> string \<Rightarrow> nat" where
  "match_distance a b = max (length a) (length b) div 2 - 1"

text \<open>One character of the first string: the first free equal one near its place is taken.\<close>

definition match_one :: "string \<Rightarrow> string \<Rightarrow> nat \<Rightarrow> bool list \<times> bool list \<times> nat \<Rightarrow> bool list \<times> bool list \<times> nat" where
  "match_one a b i st = (case st of (aMatches, bMatches, matches) \<Rightarrow>
     (case find_first (\<lambda>j. \<not> bMatches ! j \<and> a ! i = b ! j)
         [i - match_distance a b ..< min (i + match_distance a b + 1) (length b)] of
        None \<Rightarrow> (aMatches, bMatches, matches)
      | Some j \<Rightarrow> (aMatches[i := True], bMatches[j := True], matches + 1)))"

definition matching :: "string \<Rightarrow> string \<Rightarrow> bool list \<times> bool list \<times> nat" where
  "matching a b = fold (match_one a b) [0..<length a] (replicate (length a) False, replicate (length b) False, 0)"

fun count_transpositions :: "string \<Rightarrow> string \<Rightarrow> bool list \<Rightarrow> bool list \<Rightarrow> nat list \<Rightarrow> nat \<Rightarrow> nat \<Rightarrow> nat option" where
  "count_transpositions a b aMatches bMatches [] k t = Some t"
| "count_transpositions a b aMatches bMatches (i # is) k t =
     (if \<not> aMatches ! i then count_transpositions a b aMatches bMatches is k t
      else (case find_first (\<lambda>j. bMatches ! j) [k..<length b] of
          None \<Rightarrow> None
        | Some j \<Rightarrow> count_transpositions a b aMatches bMatches is (j + 1) (if a ! i \<noteq> b ! j then t + 1 else t)))"

definition jaro :: "string \<Rightarrow> string \<Rightarrow> rat option" where
  "jaro a b =
     (if a = b then Some 1
      else if a = [] \<or> b = [] then Some 0
      else case matching a b of (aMatches, bMatches, matches) \<Rightarrow>
        (if matches = 0 then Some 0
         else (case count_transpositions a b aMatches bMatches [0..<length a] 0 0 of
             None \<Rightarrow> None
           | Some t \<Rightarrow> Some ((of_nat matches / of_nat (length a) + of_nat matches / of_nat (length b) +
               (of_nat matches - of_nat t / 2) / of_nat matches) / 3))))"

fun common_prefix :: "string \<Rightarrow> string \<Rightarrow> nat" where
  "common_prefix (a # as) (b # bs) = (if a = b then common_prefix as bs + 1 else 0)"
| "common_prefix _ _ = 0"

definition PREFIX_SCALE :: rat where "PREFIX_SCALE = 1/10"

definition jaroWinkler :: "string \<Rightarrow> string \<Rightarrow> rat option" where
  "jaroWinkler a b =
     (let na = sim_normalize a; nb = sim_normalize b in
      map_option (\<lambda>score. if score < 7/10 then score
        else score + of_nat (common_prefix (take 4 na) (take 4 nb)) * PREFIX_SCALE * (1 - score)) (jaro na nb))"

section \<open>Sets\<close>

text \<open>A \<open>Set\<close> of the elements of a list.\<close>

definition set_of_list :: "'a list \<Rightarrow> 'a list" where
  "set_of_list xs = fold (\<lambda>x s. set_add s x) xs []"

definition jaccard :: "'a list \<Rightarrow> 'a list \<Rightarrow> rat" where
  "jaccard sa sb =
     (let inter = length (filter (\<lambda>v. v \<in> set sb) sa); union = length sa + length sb - inter in
      if union = 0 then 0 else of_nat inter / of_nat union)"

definition trigrams :: "string \<Rightarrow> string list" where
  "trigrams s = (let padded = ''  '' @ sim_normalize s @ ''  '' in
     set_of_list (map (\<lambda>i. take 3 (drop i padded)) [0..<length padded - 2]))"

definition trigramJaccard :: "string \<Rightarrow> string \<Rightarrow> rat" where
  "trigramJaccard a b =
     (if a = [] \<and> b = [] then 1 else if a = [] \<or> b = [] then 0 else jaccard (trigrams a) (trigrams b))"

definition setSimilarity :: "string list \<Rightarrow> string list \<Rightarrow> rat" where
  "setSimilarity a b =
     (if a = [] \<and> b = [] then 1 else if a = [] \<or> b = [] then 0
      else jaccard (set_of_list (map sim_normalize a)) (set_of_list (map sim_normalize b)))"

section \<open>A pair of entities\<close>

record node_row =
  nr_id :: string
  nr_name :: string
  nr_namespace :: string
  nr_tags :: "string list"
  nr_labels :: "string list"
  nr_source :: "string option"

record score_breakdown =
  sb_name :: rat
  sb_namespace :: rat
  sb_tags :: rat
  sb_labels :: rat

definition W_NAME :: rat where "W_NAME = 1/2"
definition W_NAMESPACE :: rat where "W_NAMESPACE = 1/5"
definition W_TAGS :: rat where "W_TAGS = 1/5"
definition W_LABELS :: rat where "W_LABELS = 1/10"

text \<open>The weighted average of the features that both sides have.\<close>

definition weighted :: "(rat \<times> rat \<times> bool) list \<Rightarrow> rat" where
  "weighted components =
     (let used = filter (\<lambda>(v, w, applies). applies) components;
          total = sum_list (map (\<lambda>(v, w, applies). w) used) in
      if total = 0 then 0 else sum_list (map (\<lambda>(v, w, applies). v * w) used) / total)"

definition scorePair :: "node_row \<Rightarrow> node_row \<Rightarrow> (rat \<times> score_breakdown) option" where
  "scorePair a b =
     map_option (\<lambda>name.
       let namespace = trigramJaccard (nr_namespace a) (nr_namespace b);
           tags = setSimilarity (nr_tags a) (nr_tags b);
           labels = setSimilarity (nr_labels a) (nr_labels b)
       in (weighted [(name, W_NAME, nr_name a \<noteq> [] \<and> nr_name b \<noteq> []),
             (namespace, W_NAMESPACE, nr_namespace a \<noteq> [] \<and> nr_namespace b \<noteq> []),
             (tags, W_TAGS, nr_tags a \<noteq> [] \<and> nr_tags b \<noteq> []),
             (labels, W_LABELS, nr_labels a \<noteq> [] \<and> nr_labels b \<noteq> [])],
           \<lparr>sb_name = name, sb_namespace = namespace, sb_tags = tags, sb_labels = labels\<rparr>))
     (jaroWinkler (nr_name a) (nr_name b))"

section \<open>The scores are numbers between 0 and 1\<close>

lemma count_update: "i < length xs \<Longrightarrow> \<not> xs ! i \<Longrightarrow> length (filter id (xs[i := True])) = length (filter id xs) + 1"
proof (induction xs arbitrary: i)
  case (Cons x xs)
  then show ?case by (cases i) auto
qed simp

definition matched_ok :: "string \<Rightarrow> string \<Rightarrow> nat \<Rightarrow> bool list \<times> bool list \<times> nat \<Rightarrow> bool" where
  "matched_ok a b i st = (case st of (aMatches, bMatches, matches) \<Rightarrow>
     length aMatches = length a \<and> length bMatches = length b \<and> (\<forall>j \<ge> i. j < length a \<longrightarrow> \<not> aMatches ! j) \<and>
     length (filter id aMatches) = matches \<and> length (filter id bMatches) = matches)"

lemma match_one_ok:
  assumes "matched_ok a b i st" "i < length a"
  shows "matched_ok a b (Suc i) (match_one a b i st)"
proof -
  obtain aM bM m where st: "st = (aM, bM, m)" by (metis prod.collapse)
  show ?thesis
  proof (cases "find_first (\<lambda>j. \<not> bM ! j \<and> a ! i = b ! j) [i - match_distance a b ..< min (i + match_distance a b + 1) (length b)]")
    case None
    then show ?thesis using assms by (simp add: st match_one_def matched_ok_def)
  next
    case (Some j)
    have "\<not> bM ! j" "j < length b" using find_first_Some [OF Some] by auto
    then show ?thesis using assms Some by (auto simp: st match_one_def matched_ok_def count_update)
  qed
qed

lemma matching_ok: "matched_ok a b (length a) (matching a b)"
proof -
  have "n \<le> length a \<Longrightarrow> matched_ok a b n (fold (match_one a b) [0..<n] (replicate (length a) False, replicate (length b) False, 0))" for n
  proof (induction n)
    case 0
    have "filter id (replicate k False) = []" for k by (induction k) auto
    then show ?case by (simp add: matched_ok_def)
  next
    case (Suc n)
    then show ?case using match_one_ok [of a b n] by simp
  qed
  then show ?thesis by (simp add: matching_def)
qed

lemma find_first_split: "find_first p xs = Some x \<Longrightarrow> \<exists>ys zs. xs = ys @ x # zs \<and> (\<forall>y \<in> set ys. \<not> p y)"
proof (induction xs)
  case (Cons y xs)
  show ?case
  proof (cases "p y")
    case True
    then show ?thesis using Cons.prems by (intro exI [of _ "[]"] exI [of _ xs]) auto
  next
    case False
    then obtain ys zs where "xs = ys @ x # zs" "\<forall>y \<in> set ys. \<not> p y" using Cons by auto
    then show ?thesis using False by (intro exI [of _ "y # ys"] exI [of _ zs]) auto
  qed
qed simp

lemma next_match_rest:
  assumes "find_first p [k..<n] = Some j"
  shows "length (filter p [k..<n]) = Suc (length (filter p [j + 1..<n]))"
proof -
  have j: "k \<le> j" "j < n" "p j" using find_first_Some [OF assms] by auto
  obtain ys zs where s: "[k..<n] = ys @ j # zs" "\<forall>y \<in> set ys. \<not> p y" using find_first_split [OF assms] by blast
  have "[k..<n] = [k..<j] @ j # [j + 1..<n]" using j by (metis Suc_eq_plus1 upt_add_eq_append upt_conv_Cons le_add_diff_inverse less_imp_le)
  moreover have "distinct [k..<n]" by simp
  ultimately have "ys = [k..<j]" "zs = [j + 1..<n]" using s(1)
    by (metis append_Cons_eq_iff distinct_append distinct.simps(2) not_distinct_conv_prefix)+
  then show ?thesis using s j by (simp add: filter_empty_conv)
qed

lemma transpositions_total:
  "length (filter (\<lambda>i. aM ! i) is) \<le> length (filter (\<lambda>j. bM ! j) [k..<length b]) \<Longrightarrow>
    \<exists>t'. count_transpositions a b aM bM is k t = Some t' \<and> t' \<le> t + length (filter (\<lambda>i. aM ! i) is)"
proof (induction "is" arbitrary: k t)
  case (Cons i "is")
  show ?case
  proof (cases "aM ! i")
    case True
    have "filter (\<lambda>j. bM ! j) [k..<length b] \<noteq> []" using Cons.prems True by auto
    then obtain j where j: "find_first (\<lambda>j. bM ! j) [k..<length b] = Some j"
      by (metis filter_False find_first_None option.exhaust)
    have "length (filter (\<lambda>i. aM ! i) is) \<le> length (filter (\<lambda>j. bM ! j) [j + 1..<length b])"
      using Cons.prems True next_match_rest [OF j] by simp
    from Cons.IH [OF this, of "if a ! i \<noteq> b ! j then t + 1 else t"]
    obtain t' where t': "count_transpositions a b aM bM is (j + 1) (if a ! i \<noteq> b ! j then t + 1 else t) = Some t'"
      "t' \<le> (if a ! i \<noteq> b ! j then t + 1 else t) + length (filter (\<lambda>i. aM ! i) is)" by blast
    then have "count_transpositions a b aM bM (i # is) k t = Some t'" using True j by simp
    moreover have "t' \<le> t + length (filter (\<lambda>i. aM ! i) (i # is))" using t'(2) True by (simp split: if_splits)
    ultimately show ?thesis by blast
  next
    case False
    then show ?thesis using Cons by simp
  qed
qed simp

lemma filter_positions: "length (filter (\<lambda>i. xs ! i) [0..<length xs]) = length (filter id xs)"
proof -
  have "map (\<lambda>i. xs ! i) (filter (\<lambda>i. id (xs ! i)) [0..<length xs]) = filter id (map (\<lambda>i. xs ! i) [0..<length xs])"
    by (simp add: filter_map o_def)
  then show ?thesis by (metis (no_types, lifting) id_apply length_map map_nth filter_cong)
qed

lemma share_range: "m \<le> n \<Longrightarrow> 0 \<le> (of_nat m :: rat) / of_nat n \<and> (of_nat m :: rat) / of_nat n \<le> 1"
  by (cases "n = 0") (simp_all add: divide_le_eq_1)

lemma share_if: "m \<le> n \<Longrightarrow> (0 :: rat) \<le> (if n = 0 then 0 else of_nat m / of_nat n) \<and> (if n = 0 then 0 else of_nat m / of_nat n) \<le> (1 :: rat)"
  using share_range [of m n] by simp

lemma mean_range: "0 \<le> x \<Longrightarrow> x \<le> 1 \<Longrightarrow> 0 \<le> y \<Longrightarrow> y \<le> 1 \<Longrightarrow> 0 \<le> z \<Longrightarrow> z \<le> 1 \<Longrightarrow> 0 \<le> (x + y + z) / 3 \<and> (x + y + z) / 3 \<le> (1 :: rat)"
  by simp

lemma jaro_range: "\<exists>s. jaro a b = Some s \<and> 0 \<le> s \<and> s \<le> 1"
proof (cases "a = b \<or> a = [] \<or> b = []")
  case True
  then show ?thesis by (auto simp: jaro_def)
next
  case False
  obtain aM bM m where match: "matching a b = (aM, bM, m)" by (metis prod.collapse)
  then have ok: "length aM = length a" "length bM = length b" "length (filter id aM) = m" "length (filter id bM) = m"
    using matching_ok [of a b] by (simp_all add: matched_ok_def)
  show ?thesis
  proof (cases "m = 0")
    case True
    then show ?thesis using False match by (simp add: jaro_def)
  next
    case some: False
    have "length (filter (\<lambda>i. aM ! i) [0..<length a]) = m" "length (filter (\<lambda>j. bM ! j) [0..<length b]) = m"
      using filter_positions [of aM] filter_positions [of bM] ok by simp_all
    then obtain t where t: "count_transpositions a b aM bM [0..<length a] 0 0 = Some t" "t \<le> m"
      using transpositions_total [of aM "[0..<length a]" bM 0 b a 0] by auto
    have "m \<le> length a" "m \<le> length b" using ok by (metis length_filter_le)+
    then have ab: "0 \<le> (of_nat m :: rat) / of_nat (length a)" "(of_nat m :: rat) / of_nat (length a) \<le> 1"
      "0 \<le> (of_nat m :: rat) / of_nat (length b)" "(of_nat m :: rat) / of_nat (length b) \<le> 1"
      using share_range by blast+
    have "(of_nat t :: rat) \<le> of_nat m" "0 < (of_nat m :: rat)" using t(2) some by simp_all
    then have z: "0 \<le> (of_nat m - of_nat t / 2) / (of_nat m :: rat)" "(of_nat m - of_nat t / 2) / (of_nat m :: rat) \<le> 1"
      by (simp_all add: divide_le_eq_1)
    have "jaro a b = Some ((of_nat m / of_nat (length a) + of_nat m / of_nat (length b) + (of_nat m - of_nat t / 2) / of_nat m) / 3)"
      using False match some t(1) by (simp add: jaro_def)
    then show ?thesis using mean_range [OF ab z] by blast
  qed
qed

lemma common_prefix_length: "common_prefix a b \<le> length a"
  by (induction a b rule: common_prefix.induct) auto

lemma jaroWinkler_range: "\<exists>s. jaroWinkler a b = Some s \<and> 0 \<le> s \<and> s \<le> 1"
proof -
  let ?p = "common_prefix (take 4 (sim_normalize a)) (take 4 (sim_normalize b))"
  obtain s where s: "jaro (sim_normalize a) (sim_normalize b) = Some s" "0 \<le> s" "s \<le> 1" using jaro_range by blast
  have "?p \<le> 4" by (rule order_trans [OF common_prefix_length]) simp
  then have "(of_nat ?p :: rat) * (1/10) * (1 - s) \<le> 1 * (1 - s)"
    using s(3) by (intro mult_right_mono) simp_all
  moreover have "0 \<le> (of_nat ?p :: rat) * (1/10) * (1 - s)" using s(3) by simp
  ultimately show ?thesis using s by (auto simp: jaroWinkler_def Let_def PREFIX_SCALE_def)
qed

lemma jaccard_range: "0 \<le> jaccard sa sb \<and> jaccard sa sb \<le> 1" if "distinct sa" "distinct sb"
proof -
  let ?i = "length (filter (\<lambda>v. v \<in> set sb) sa)"
  have "?i = card (set sa \<inter> set sb)" using that(1)
    by (metis Collect_conj_eq Collect_mem_eq distinct_card distinct_filter set_filter inf_commute)
  also have "\<dots> \<le> length sb" using that(2) by (metis card_mono distinct_card finite_set inf_le2)
  finally have "?i \<le> length sa + length sb - ?i" using length_filter_le [of "\<lambda>v. v \<in> set sb" sa] by linarith
  then show ?thesis unfolding jaccard_def Let_def by (rule share_if)
qed

lemma distinct_set_of_list: "distinct (set_of_list xs)"
  unfolding set_of_list_def by (rule distinct_fold_set_add) simp

lemma trigram_range: "0 \<le> trigramJaccard a b \<and> trigramJaccard a b \<le> 1"
proof -
  have "distinct (trigrams s)" for s unfolding trigrams_def Let_def by (rule distinct_set_of_list)
  then have "0 \<le> jaccard (trigrams a) (trigrams b) \<and> jaccard (trigrams a) (trigrams b) \<le> 1" by (intro jaccard_range)
  then show ?thesis by (simp add: trigramJaccard_def)
qed

lemma set_range: "0 \<le> setSimilarity a b \<and> setSimilarity a b \<le> 1"
  using jaccard_range [OF distinct_set_of_list distinct_set_of_list, of "map sim_normalize a" "map sim_normalize b"]
  by (simp add: setSimilarity_def)

lemma jaccard_same: "xs \<noteq> [] \<Longrightarrow> jaccard xs xs = 1"
proof -
  have "filter (\<lambda>v. v \<in> set xs) xs = xs" by simp
  then show "xs \<noteq> [] \<Longrightarrow> jaccard xs xs = 1" by (simp add: jaccard_def Let_def)
qed

lemma set_of_list_Nil [simp]: "set_of_list xs = [] \<longleftrightarrow> xs = []"
proof -
  have "set (set_of_list xs) = set xs" unfolding set_of_list_def set_fold_set_add by simp
  then show ?thesis by (metis set_empty)
qed

lemma jaroWinkler_same: "jaroWinkler a a = Some 1"
  by (simp add: jaroWinkler_def Let_def jaro_def)

lemma set_same: "setSimilarity a a = 1"
  by (simp add: setSimilarity_def jaccard_same)

lemma trigram_same: "trigramJaccard a a = 1"
proof -
  have "trigrams a \<noteq> []" by (simp add: trigrams_def Let_def)
  then show ?thesis by (simp add: trigramJaccard_def jaccard_same)
qed

lemma weighted_range:
  assumes "\<And>v w applies. (v, w, applies) \<in> set cs \<Longrightarrow> 0 \<le> v \<and> v \<le> 1 \<and> 0 < w"
  shows "0 \<le> weighted cs \<and> weighted cs \<le> 1"
proof -
  define used where "used = filter (\<lambda>(v, w, applies). applies) cs"
  have used: "0 \<le> v \<and> v \<le> 1 \<and> 0 < w" if "(v, w, applies) \<in> set used" for v w applies
    using assms that by (auto simp: used_def)
  then have "0 \<le> sum_list (map (\<lambda>(v, w, applies). v * w) used) \<and>
      sum_list (map (\<lambda>(v, w, applies). v * w) used) \<le> sum_list (map (\<lambda>(v, w, applies). w) used)"
  proof (induction used)
    case (Cons x used)
    obtain v w p where x: "x = (v, w, p)" by (metis prod.collapse)
    have "0 \<le> v" "v \<le> 1" "0 < w" using Cons.prems x by (metis list.set_intros(1))+
    then have "0 \<le> v * w" "v * w \<le> w" by (simp_all add: mult_left_le_one_le)
    moreover have "0 \<le> sum_list (map (\<lambda>(v, w, applies). v * w) used) \<and>
      sum_list (map (\<lambda>(v, w, applies). v * w) used) \<le> sum_list (map (\<lambda>(v, w, applies). w) used)"
      by (rule Cons.IH) (metis Cons.prems list.set_intros(2))
    ultimately show ?case by (simp add: x)
  qed simp
  then show ?thesis by (auto simp: weighted_def Let_def used_def [symmetric] divide_le_eq_1 divide_nonneg_nonneg)
qed

text \<open>
  C40: Every pair of entities has a score: the loops of the Jaro similarity end, the score and each
  of its parts is between 0 and 1, and a pair with equal names, equal namespaces and the same
  tags and labels that has anything to compare scores 1.
\<close>

theorem score_defined:
  "\<exists>confidence breakdown. scorePair a b = Some (confidence, breakdown) \<and>
    (\<forall>s \<in> {confidence, sb_name breakdown, sb_namespace breakdown, sb_tags breakdown, sb_labels breakdown}. 0 \<le> s \<and> s \<le> 1) \<and>
    (nr_name a = nr_name b \<and> nr_namespace a = nr_namespace b \<and> nr_tags a = nr_tags b \<and> nr_labels a = nr_labels b \<and>
      (nr_name a \<noteq> [] \<or> nr_namespace a \<noteq> [] \<or> nr_tags a \<noteq> [] \<or> nr_labels a \<noteq> []) \<longrightarrow> confidence = 1)"
proof -
  obtain s where s: "jaroWinkler (nr_name a) (nr_name b) = Some s" "0 \<le> s" "s \<le> 1" using jaroWinkler_range by blast
  let ?ns = "trigramJaccard (nr_namespace a) (nr_namespace b)"
  let ?tags = "setSimilarity (nr_tags a) (nr_tags b)" and ?labels = "setSimilarity (nr_labels a) (nr_labels b)"
  let ?cs = "[(s, W_NAME, nr_name a \<noteq> [] \<and> nr_name b \<noteq> []), (?ns, W_NAMESPACE, nr_namespace a \<noteq> [] \<and> nr_namespace b \<noteq> []),
    (?tags, W_TAGS, nr_tags a \<noteq> [] \<and> nr_tags b \<noteq> []), (?labels, W_LABELS, nr_labels a \<noteq> [] \<and> nr_labels b \<noteq> [])]"
  have pair: "scorePair a b = Some (weighted ?cs, \<lparr>sb_name = s, sb_namespace = ?ns, sb_tags = ?tags, sb_labels = ?labels\<rparr>)"
    by (simp add: scorePair_def s(1) Let_def)
  have weights: "W_NAME = 1/2" "W_NAMESPACE = 1/5" "W_TAGS = 1/5" "W_LABELS = 1/10"
    by (simp_all add: W_NAME_def W_NAMESPACE_def W_TAGS_def W_LABELS_def)
  have range: "0 \<le> weighted ?cs \<and> weighted ?cs \<le> 1"
    by (rule weighted_range) (use s trigram_range set_range in \<open>auto simp: weights\<close>)
  have "weighted ?cs = 1" if same: "nr_name a = nr_name b" "nr_namespace a = nr_namespace b" "nr_tags a = nr_tags b" "nr_labels a = nr_labels b"
    and some: "nr_name a \<noteq> [] \<or> nr_namespace a \<noteq> [] \<or> nr_tags a \<noteq> [] \<or> nr_labels a \<noteq> []"
  proof -
    have parts: "s = 1" "?ns = 1" "?tags = 1" "?labels = 1"
      using s(1) same by (simp_all add: jaroWinkler_same trigram_same set_same)
    show ?thesis unfolding parts using some same
      by (cases "nr_name a = []"; cases "nr_namespace a = []"; cases "nr_tags a = []"; cases "nr_labels a = []")
        (simp_all add: weighted_def weights)
  qed
  then show ?thesis using pair range s trigram_range set_range by auto
qed

definition payments_row :: node_row where
  "payments_row = \<lparr>nr_id = ''s/payments'', nr_name = ''payments'', nr_namespace = [], nr_tags = [''go''], nr_labels = [], nr_source = None\<rparr>"

theorem score_defined_witness: "\<exists>breakdown. scorePair payments_row payments_row = Some (1, breakdown)"
  using score_defined [of payments_row payments_row] by (auto simp: payments_row_def)

end
