(* ===== verification/Entity_Merge.thy ===== *)
theory Entity_Merge
  imports Claim_Edits String_Similarity
begin

text \<open>
  Proposing and merging entities that may be the same
  (\<open>packages/api-server/src/services/reconciliation-service.ts\<close>): the scan for candidates, the
  decisions of a person, the merge of two nodes with the human claims and the audit trail of the
  one that goes, and its reversal. A query or a write transaction is atomic; between two of them
  others may change the store, which is an argument. Random ids are numbered by a parameter.
  The JSON texts recorded on a merge are the values they encode.
\<close>

section \<open>The store\<close>

datatype candidate_status = Cand_Pending | Cand_Confirmed | Cand_Rejected | Cand_Distinct

record recon_candidate =
  rc_id :: string
  rc_status :: candidate_status
  rc_label :: string
  rc_confidence :: rat
  rc_breakdown :: score_breakdown
  rc_createdAt :: int
  rc_reviewedAt :: "int option"
  rc_reviewedBy :: "string option"
  rc_left :: nat
  rc_right :: nat

record claim_identity =
  ci_source :: string
  ci_source_id :: string
  ci_property_key :: string

record merge_event =
  mv_id :: string
  mv_actor :: string
  mv_timestamp :: int
  mv_confidence :: rat
  mv_survivorId :: string
  mv_loserId :: string
  mv_loserSnapshot :: "string \<rightharpoonup> jsval"
  mv_migratedClaims :: "claim_identity list"
  mv_repointedAuditIds :: "string list"
  mv_merged :: nat
  mv_absorbed :: nat
  mv_reversedAt :: "int option"
  mv_reversedBy :: "string option"

datatype audit_rel = EDITS | VERIFIES

record audit_edge =
  ad_rel :: audit_rel
  ad_event :: string
  ad_target :: nat

record merge_store =
  mg_graph :: graph
  mg_candidates :: "recon_candidate list"
  mg_distinct :: "(nat \<times> nat) list"
  mg_merges :: "merge_event list"
  mg_audits :: "audit_edge list"
  mg_next :: nat
  mg_lastScanAt :: "int option"

datatype merge_error = Candidate_Missing | Candidate_Decided candidate_status | Merge_Missing

text \<open>The node an edge leads to, and the nodes with an id.\<close>

definition node_at :: "merge_store \<Rightarrow> nat \<Rightarrow> gnode" where
  "node_at st i = nodes (mg_graph st) ! i"

definition places :: "string \<Rightarrow> merge_store \<Rightarrow> nat list" where
  "places i st = filter (\<lambda>p. has_id i (node_at st p)) [0..<length (nodes (mg_graph st))]"

section \<open>Scanning\<close>

definition FUZZY_LABELS :: "string list" where
  "FUZZY_LABELS = [''LogicalService'', ''Repository'', ''RuntimeService'', ''Team'']"

definition AUTO_MERGE_CEILING :: rat where "AUTO_MERGE_CEILING = 19/20"

text \<open>\<open>asString(value, fallback)\<close>.\<close>

definition asString :: "jsval \<Rightarrow> string \<Rightarrow> string" where
  "asString v fallback = (if nullish v then fallback else js_String v)"

definition string_array :: "jsval \<Rightarrow> string list" where
  "string_array v = (case v of JArr xs \<Rightarrow> map js_String xs | _ \<Rightarrow> [])"

definition last_segment :: "string \<Rightarrow> string" where
  "last_segment i = last (split_on CHR ''/'' i)"

definition nodeFromRow :: "gnode \<Rightarrow> node_row" where
  "nodeFromRow n =
     (let i = asString (prop_of n ''id'') [] in
      \<lparr>nr_id = i, nr_name = asString (prop_of n ''name'') (last_segment i), nr_namespace = asString (prop_of n ''namespace'') [],
       nr_tags = string_array (prop_of n ''tags''), nr_labels = string_array (prop_of n ''labels''),
       nr_source = (case g_source_system n of Some s \<Rightarrow> if s = [] then None else Some s | None \<Rightarrow> None)\<rparr>)"

definition pairKey :: "string \<Rightarrow> string \<Rightarrow> string" where
  "pairKey a b = (if str_less a b then a @ ''|'' @ b else b @ ''|'' @ a)"

definition alive_node :: "gnode \<Rightarrow> bool" where
  "alive_node n = (coalesce (prop_of n ''_deleted'') (JBool False) = JBool False)"

definition rows_of_label :: "string \<Rightarrow> merge_store \<Rightarrow> node_row list" where
  "rows_of_label lbl st = map nodeFromRow (take 500 (filter (\<lambda>n. g_label n = lbl \<and> alive_node n) (nodes (mg_graph st))))"

definition id_at :: "merge_store \<Rightarrow> nat \<Rightarrow> string" where
  "id_at st p = asString (prop_of (node_at st p) ''id'') []"

definition loadSkipPairs :: "string list \<Rightarrow> merge_store \<Rightarrow> string list" where
  "loadSkipPairs ids st =
     map (\<lambda>(a, b). pairKey (id_at st a) (id_at st b))
       (filter (\<lambda>(a, b). id_at st a \<in> set ids \<or> id_at st b \<in> set ids)
         (mg_distinct st @ map (\<lambda>c. (rc_left c, rc_right c)) (filter (\<lambda>c. rc_status c \<noteq> Cand_Distinct) (mg_candidates st))))"

definition new_candidate :: "string \<Rightarrow> string \<Rightarrow> rat \<times> score_breakdown \<Rightarrow> int \<Rightarrow> nat \<Rightarrow> nat \<Rightarrow> recon_candidate" where
  "new_candidate i lbl score now left right = \<lparr>rc_id = i, rc_status = Cand_Pending, rc_label = lbl, rc_confidence = fst score,
     rc_breakdown = snd score, rc_createdAt = now, rc_reviewedAt = None, rc_reviewedBy = None, rc_left = left, rc_right = right\<rparr>"

definition upsertCandidate ::
    "(nat \<Rightarrow> string) \<Rightarrow> string \<Rightarrow> node_row \<Rightarrow> node_row \<Rightarrow> rat \<times> score_breakdown \<Rightarrow> int \<Rightarrow> merge_store \<Rightarrow> merge_store" where
  "upsertCandidate uuid lbl a b score now st = st\<lparr>mg_next := mg_next st + 1,
     mg_candidates := mg_candidates st @ concat (map (\<lambda>l. map (\<lambda>r.
       new_candidate (''rc:'' @ uuid (mg_next st)) lbl score now l r) (places (nr_id b) st)) (places (nr_id a) st))\<rparr>"

text \<open>The store and what others will commit before each query.\<close>

type_synonym scan_state = "merge_store \<times> (merge_store \<Rightarrow> merge_store) list"

definition scan_query :: "scan_state \<Rightarrow> scan_state" where
  "scan_query w = (case snd w of [] \<Rightarrow> w | c # cs \<Rightarrow> (c (fst w), cs))"

definition worth_proposing :: "rat \<Rightarrow> node_row \<Rightarrow> node_row \<Rightarrow> rat \<Rightarrow> bool" where
  "worth_proposing threshold a b confidence =
     (\<not> confidence < threshold \<and> \<not> (confidence > AUTO_MERGE_CEILING \<and> nr_name a = nr_name b))"

fun scan_pairs ::
    "(nat \<Rightarrow> string) \<Rightarrow> rat \<Rightarrow> string \<Rightarrow> int \<Rightarrow> string list \<Rightarrow> (node_row \<times> node_row) list \<Rightarrow> nat \<times> scan_state \<Rightarrow> (nat \<times> scan_state) option" where
  "scan_pairs uuid threshold lbl now skip [] acc = Some acc"
| "scan_pairs uuid threshold lbl now skip ((a, b) # rest) (created, w) =
     (if nr_id a = nr_id b \<or> pairKey (nr_id a) (nr_id b) \<in> set skip
      then scan_pairs uuid threshold lbl now skip rest (created, w)
      else (case scorePair a b of
          None \<Rightarrow> None
        | Some score \<Rightarrow>
            if worth_proposing threshold a b (fst score)
            then (case scan_query w of (st, cs) \<Rightarrow>
              scan_pairs uuid threshold lbl now skip rest (created + 1, (upsertCandidate uuid lbl a b score now st, cs)))
            else scan_pairs uuid threshold lbl now skip rest (created, w)))"

definition index_pairs :: "node_row list \<Rightarrow> (node_row \<times> node_row) list" where
  "index_pairs rows = concat (map (\<lambda>i. map (\<lambda>j. (rows ! i, rows ! j)) [i + 1..<length rows]) [0..<length rows])"

fun scan_labels :: "(nat \<Rightarrow> string) \<Rightarrow> rat \<Rightarrow> int \<Rightarrow> string list \<Rightarrow> nat \<times> scan_state \<Rightarrow> (nat \<times> scan_state) option" where
  "scan_labels uuid threshold now [] acc = Some acc"
| "scan_labels uuid threshold now (lbl # lbls) (created, w) =
     (let w1 = scan_query w;
          rows = rows_of_label lbl (fst w1);
          w2 = (if rows = [] then w1 else scan_query w1);
          skip = (if rows = [] then [] else loadSkipPairs (map nr_id rows) (fst w2)) in
      case scan_pairs uuid threshold lbl now skip (index_pairs rows) (created, w2) of
        None \<Rightarrow> None | Some acc \<Rightarrow> scan_labels uuid threshold now lbls acc)"

text \<open>The number of candidates created; none when the scan does not return.\<close>

definition scan :: "(nat \<Rightarrow> string) \<Rightarrow> rat \<Rightarrow> int \<Rightarrow> scan_state \<Rightarrow> (nat \<times> scan_state) option" where
  "scan uuid threshold now w =
     map_option (\<lambda>(created, st, cs). (created, (st\<lparr>mg_lastScanAt := Some now\<rparr>, cs))) (scan_labels uuid threshold now FUZZY_LABELS (0, w))"

section \<open>Candidates\<close>

definition MERGE_WINDOW_MS :: int where "MERGE_WINDOW_MS = 30 * 24 * 60 * 60 * 1000"

text \<open>How many wait for a decision, how many merges there were in 30 days, and the last scan.\<close>

definition stats :: "int \<Rightarrow> merge_store \<Rightarrow> nat \<times> nat \<times> int option" where
  "stats now st = (length (filter (\<lambda>c. rc_status c = Cand_Pending) (mg_candidates st)),
     length (filter (\<lambda>m. mv_timestamp m > now - MERGE_WINDOW_MS) (mg_merges st)), mg_lastScanAt st)"

definition resetPending :: "merge_store \<Rightarrow> nat \<times> merge_store" where
  "resetPending st = (length (filter (\<lambda>c. rc_status c = Cand_Pending) (mg_candidates st)),
     st\<lparr>mg_candidates := filter (\<lambda>c. rc_status c \<noteq> Cand_Pending) (mg_candidates st)\<rparr>)"

record candidate_detail =
  cd_candidate :: recon_candidate
  cd_leftId :: string
  cd_leftName :: string
  cd_rightId :: string
  cd_rightName :: string
  cd_left :: gnode
  cd_right :: gnode

definition candidateFromRecord :: "merge_store \<Rightarrow> recon_candidate \<Rightarrow> candidate_detail" where
  "candidateFromRecord st c =
     (let name = (\<lambda>p. asString (prop_of (node_at st p) ''name'') (last_segment (id_at st p))) in
      \<lparr>cd_candidate = c, cd_leftId = id_at st (rc_left c), cd_leftName = name (rc_left c), cd_rightId = id_at st (rc_right c),
       cd_rightName = name (rc_right c), cd_left = node_at st (rc_left c), cd_right = node_at st (rc_right c)\<rparr>)"

text \<open>\<open>ORDER BY confidence DESC, createdAt DESC\<close>.\<close>

definition candidate_order :: "recon_candidate \<Rightarrow> recon_candidate \<Rightarrow> rat" where
  "candidate_order a b = (if rc_confidence b \<noteq> rc_confidence a then rc_confidence b - rc_confidence a
     else of_int (rc_createdAt b - rc_createdAt a))"

definition listCandidates :: "candidate_status option \<Rightarrow> nat option \<Rightarrow> merge_store \<Rightarrow> candidate_detail list" where
  "listCandidates status limit st =
     (let wanted = (case status of Some s \<Rightarrow> s | None \<Rightarrow> Cand_Pending);
          n = min (case limit of Some n \<Rightarrow> n | None \<Rightarrow> 100) 500 in
      map (candidateFromRecord st) (take n (js_sort candidate_order (filter (\<lambda>c. rc_status c = wanted) (mg_candidates st)))))"

definition getCandidate :: "string \<Rightarrow> merge_store \<Rightarrow> candidate_detail option" where
  "getCandidate i st = map_option (candidateFromRecord st) (find_first (\<lambda>c. rc_id c = i) (mg_candidates st))"

definition pendingCandidate :: "string \<Rightarrow> merge_store \<Rightarrow> merge_error + candidate_detail" where
  "pendingCandidate i st = (case getCandidate i st of
     None \<Rightarrow> Inl Candidate_Missing
   | Some c \<Rightarrow> if rc_status (cd_candidate c) \<noteq> Cand_Pending then Inl (Candidate_Decided (rc_status (cd_candidate c))) else Inr c)"

definition decide :: "candidate_status \<Rightarrow> string \<Rightarrow> int \<Rightarrow> recon_candidate \<Rightarrow> recon_candidate" where
  "decide status actor now c = c\<lparr>rc_status := status, rc_reviewedAt := Some now, rc_reviewedBy := Some actor\<rparr>"

definition reject :: "string \<Rightarrow> string \<Rightarrow> int \<Rightarrow> merge_store \<Rightarrow> (merge_error + unit) \<times> merge_store" where
  "reject i actor now st =
     (let this_one = (\<lambda>c. rc_id c = i \<and> rc_status c = Cand_Pending) in
      if find_first this_one (mg_candidates st) = None then (Inl Candidate_Missing, st)
      else (Inr (), st\<lparr>mg_candidates := map (\<lambda>c. if this_one c then decide Cand_Rejected actor now c else c) (mg_candidates st)\<rparr>))"

definition markDistinct ::
    "(merge_store \<Rightarrow> merge_store) \<Rightarrow> string \<Rightarrow> string \<Rightarrow> int \<Rightarrow> merge_store \<Rightarrow> (merge_error + unit) \<times> merge_store" where
  "markDistinct others i actor now st =
     (case pendingCandidate i st of
        Inl e \<Rightarrow> (Inl e, st)
      | Inr _ \<Rightarrow> (let st1 = others st in
          (Inr (), st1\<lparr>mg_distinct := fold (\<lambda>c ds. set_add ds (rc_left c, rc_right c)) (filter (\<lambda>c. rc_id c = i) (mg_candidates st1)) (mg_distinct st1),
             mg_candidates := map (\<lambda>c. if rc_id c = i then decide Cand_Distinct actor now c else c) (mg_candidates st1)\<rparr>)))"

section \<open>Choosing the survivor\<close>

text \<open>
  \<open>Number(v)\<close>, \<open>None\<close> being \<open>NaN\<close>: decimal numbers with an optional sign and fraction, and the
  special values; texts in other notations (hexadecimal, exponents, \<open>Infinity\<close>) are not read.
\<close>

fun digits_value :: "string \<Rightarrow> nat \<Rightarrow> nat" where
  "digits_value [] n = n"
| "digits_value (c # cs) n = digits_value cs (10 * n + (of_char c - 48))"

definition unsigned_value :: "string \<Rightarrow> rat option" where
  "unsigned_value s =
     (let whole = takeWhile is_digit s; rest = dropWhile is_digit s in
      case rest of
        [] \<Rightarrow> if whole = [] then None else Some (of_nat (digits_value whole 0))
      | c # decimals \<Rightarrow> if c = CHR ''.'' \<and> list_all is_digit decimals \<and> (whole \<noteq> [] \<or> decimals \<noteq> [])
          then Some (of_nat (digits_value (whole @ decimals) 0) / 10 ^ length decimals) else None)"

definition decimal_value :: "string \<Rightarrow> rat option" where
  "decimal_value s = (case s of
     c # rest \<Rightarrow> if c = CHR ''-'' then map_option uminus (unsigned_value rest)
       else if c = CHR ''+'' then unsigned_value rest else unsigned_value s
   | [] \<Rightarrow> Some 0)"

definition js_Number :: "jsval \<Rightarrow> rat option" where
  "js_Number v = (case v of JUndefined \<Rightarrow> None | JNull \<Rightarrow> Some 0 | JBool b \<Rightarrow> Some (if b then 1 else 0)
     | _ \<Rightarrow> decimal_value (js_trim (js_String v)))"

definition tier_of :: "gnode \<Rightarrow> rat option" where
  "tier_of n = js_Number (coalesce (prop_of n ''tier_effective'') (coalesce (prop_of n ''tier'') (JNum ''99'')))"

definition synced_at :: "gnode \<Rightarrow> string" where
  "synced_at n = (case g_last_synced n of Some s \<Rightarrow> s | None \<Rightarrow> [])"

definition number_less :: "rat option \<Rightarrow> rat option \<Rightarrow> bool" where
  "number_less x y = (case (x, y) of (Some a, Some b) \<Rightarrow> a < b | _ \<Rightarrow> False)"

text \<open>\<open>NaN\<close> differs from everything and is less than nothing.\<close>

definition pickSurvivor :: "candidate_detail \<Rightarrow> string" where
  "pickSurvivor c =
     (let lt = tier_of (cd_left c); rt = tier_of (cd_right c); ls = synced_at (cd_left c); rs = synced_at (cd_right c) in
      if lt = None \<or> rt = None \<or> lt \<noteq> rt then (if number_less lt rt then cd_leftId c else cd_rightId c)
      else if ls \<noteq> [] \<and> rs \<noteq> [] \<and> ls \<noteq> rs then (if str_less ls rs then cd_leftId c else cd_rightId c)
      else if str_less (cd_leftId c) (cd_rightId c) then cd_leftId c else cd_rightId c)"

section \<open>Merging\<close>

definition isHumanAttestation :: "claim \<Rightarrow> bool" where
  "isHumanAttestation c = (let key = sourceKey (c_source c) in key = ''manual'' \<or> key = ''verified'')"

fun mergeClaimsByIdentity :: "claim list \<Rightarrow> claim list \<Rightarrow> claim list" where
  "mergeClaimsByIdentity merged [] = merged"
| "mergeClaimsByIdentity merged (c # incoming) =
     mergeClaimsByIdentity (if list_ex (\<lambda>d. same_slot d c) merged then merged else merged @ [c]) incoming"

definition identity_of :: "claim \<Rightarrow> claim_identity" where
  "identity_of c = \<lparr>ci_source = c_source c, ci_source_id = c_source_id c, ci_property_key = property_key c\<rparr>"

definition migrateHumanClaims :: "string \<Rightarrow> string \<Rightarrow> graph \<Rightarrow> claim_identity list \<times> graph" where
  "migrateHumanClaims loser survivor g =
     (case loadClaimsLocked g loser of (loserLocked, g1) \<Rightarrow>
      case loadClaimsLocked g1 survivor of (survivorLocked, g2) \<Rightarrow>
      (case (loserLocked, survivorLocked) of
         (Some l, Some s) \<Rightarrow>
           let humanClaims = filter isHumanAttestation (lk_claims l);
               merged = mergeClaimsByIdentity (lk_claims s) humanClaims in
           if humanClaims = [] \<or> length merged = length (lk_claims s) then ([], g2)
           else (map identity_of (drop (length (lk_claims s)) merged), writeClaims g2 survivor merged)
       | _ \<Rightarrow> ([], g2)))"

definition AUDIT_REL_TYPES :: "audit_rel list" where "AUDIT_REL_TYPES = [EDITS, VERIFIES]"

text \<open>The edges of one type that match move from the nodes of one id to those of another.\<close>

definition move_edges ::
    "audit_rel \<Rightarrow> (audit_edge \<Rightarrow> bool) \<Rightarrow> string \<Rightarrow> string \<Rightarrow> merge_store \<Rightarrow> string list \<times> merge_store" where
  "move_edges rel p source target st =
     (let matches = (\<lambda>e. ad_rel e = rel \<and> ad_target e \<in> set (places source st) \<and> p e); targets = places target st in
      if targets = [] then ([], st)
      else (concat (map (\<lambda>e. map (\<lambda>_. ad_event e) targets) (filter matches (mg_audits st))),
        st\<lparr>mg_audits := filter (\<lambda>e. \<not> matches e) (mg_audits st) @
          concat (map (\<lambda>e. map (\<lambda>t. e\<lparr>ad_target := t\<rparr>) targets) (filter matches (mg_audits st)))\<rparr>))"

fun repoint_types :: "audit_rel list \<Rightarrow> string \<Rightarrow> string \<Rightarrow> merge_store \<Rightarrow> string list \<times> merge_store" where
  "repoint_types [] loser survivor st = ([], st)"
| "repoint_types (rel # rels) loser survivor st =
     (case move_edges rel (\<lambda>_. True) loser survivor st of (ids, st1) \<Rightarrow>
      case repoint_types rels loser survivor st1 of (more_ids, st2) \<Rightarrow> (ids @ more_ids, st2))"

definition repointAuditEvents :: "string \<Rightarrow> string \<Rightarrow> merge_store \<Rightarrow> string list \<times> merge_store" where
  "repointAuditEvents loser survivor st = repoint_types AUDIT_REL_TYPES loser survivor st"

definition unrepointAuditEvents :: "string \<Rightarrow> string \<Rightarrow> string list \<Rightarrow> merge_store \<Rightarrow> merge_store" where
  "unrepointAuditEvents survivor loser eventIds st =
     (if eventIds = [] then st
      else fold (\<lambda>rel st. snd (move_edges rel (\<lambda>e. ad_event e \<in> set eventIds) survivor loser st)) AUDIT_REL_TYPES st)"

definition absorb_node :: "string \<Rightarrow> int \<Rightarrow> gnode \<Rightarrow> gnode" where
  "absorb_node survivor now n = n\<lparr>g_props := (g_props n)(''_deleted'' \<mapsto> JBool True, ''_merged_into'' \<mapsto> JStr survivor,
     ''_merged_at'' \<mapsto> JStr (toISOString now))\<rparr>"

definition set_nodes_at :: "nat list \<Rightarrow> (gnode \<Rightarrow> gnode) \<Rightarrow> graph \<Rightarrow> graph" where
  "set_nodes_at ps f g = g\<lparr>nodes := fold (\<lambda>p ns. ns[p := f (ns ! p)]) ps (nodes g)\<rparr>"

text \<open>The last query of the merge: nothing happens when a node or the candidate is gone.\<close>

definition record_merge ::
    "string \<Rightarrow> string \<Rightarrow> candidate_detail \<Rightarrow> string \<Rightarrow> string \<Rightarrow> claim_identity list \<Rightarrow> string list \<Rightarrow> int \<Rightarrow> merge_store \<Rightarrow> merge_store" where
  "record_merge mergeId actor c survivor loser migrated repointed now st =
     (let ss = places survivor st; ls = places loser st; cid = rc_id (cd_candidate c);
          cs = filter (\<lambda>d. rc_id d = cid) (mg_candidates st);
          event = (\<lambda>s l. \<lparr>mv_id = mergeId, mv_actor = actor, mv_timestamp = now, mv_confidence = rc_confidence (cd_candidate c),
            mv_survivorId = survivor, mv_loserId = loser,
            mv_loserSnapshot = g_props (if survivor = cd_leftId c then cd_right c else cd_left c),
            mv_migratedClaims = migrated, mv_repointedAuditIds = repointed, mv_merged = s, mv_absorbed = l,
            mv_reversedAt = None, mv_reversedBy = None\<rparr>) in
      if ss = [] \<or> ls = [] \<or> cs = [] then st
      else st\<lparr>mg_merges := mg_merges st @ concat (map (\<lambda>_. concat (map (\<lambda>s. map (event s) ls) ss)) cs),
        mg_graph := set_nodes_at ls (absorb_node survivor now) (mg_graph st),
        mg_candidates := map (\<lambda>d. if rc_id d = cid then decide Cand_Confirmed actor now d else d) (mg_candidates st)\<rparr>)"

definition merge_tx :: "string \<Rightarrow> string \<Rightarrow> candidate_detail \<Rightarrow> string \<Rightarrow> string \<Rightarrow> int \<Rightarrow> merge_store \<Rightarrow> merge_store" where
  "merge_tx mergeId actor c survivor loser now st =
     (case migrateHumanClaims loser survivor (mg_graph st) of (migrated, g) \<Rightarrow>
      case repointAuditEvents loser survivor (st\<lparr>mg_graph := g\<rparr>) of (repointed, st1) \<Rightarrow>
        record_merge mergeId actor c survivor loser migrated repointed now st1)"

record merge_summary =
  mu_id :: string
  mu_sourceId :: string
  mu_targetId :: string
  mu_sourceName :: string
  mu_targetName :: string
  mu_actor :: string
  mu_timestamp :: int
  mu_confidence :: rat

definition confirmMerge ::
    "(nat \<Rightarrow> string) \<Rightarrow> (merge_store \<Rightarrow> merge_store) \<Rightarrow> string \<Rightarrow> string \<Rightarrow> int \<Rightarrow> merge_store
      \<Rightarrow> (merge_error + merge_summary) \<times> merge_store" where
  "confirmMerge uuid others i actor now st =
     (case pendingCandidate i st of
        Inl e \<Rightarrow> (Inl e, st)
      | Inr c \<Rightarrow>
          let survivor = pickSurvivor c;
              loser = (if survivor = cd_leftId c then cd_rightId c else cd_leftId c);
              mergeId = ''me:'' @ uuid (mg_next st);
              st1 = others (st\<lparr>mg_next := mg_next st + 1\<rparr>)
          in (Inr \<lparr>mu_id = mergeId, mu_sourceId = loser, mu_targetId = survivor,
                mu_sourceName = (if survivor = cd_leftId c then cd_rightName c else cd_leftName c),
                mu_targetName = (if survivor = cd_leftId c then cd_leftName c else cd_rightName c),
                mu_actor = actor, mu_timestamp = now, mu_confidence = rc_confidence (cd_candidate c)\<rparr>,
              merge_tx mergeId actor c survivor loser now st1))"

section \<open>Splitting\<close>

definition unmigrate :: "claim_identity list \<Rightarrow> string \<Rightarrow> graph \<Rightarrow> graph" where
  "unmigrate migrated survivor g =
     (if migrated = [] then g
      else (case loadClaimsLocked g survivor of
          (None, g1) \<Rightarrow> g1
        | (Some s, g1) \<Rightarrow>
            let remaining = filter (\<lambda>c. \<not> list_ex (\<lambda>m. ci_source m = c_source c \<and> ci_source_id m = c_source_id c \<and>
              ci_property_key m = property_key c) migrated) (lk_claims s) in
            if length remaining \<noteq> length (lk_claims s) then writeClaims g1 survivor remaining else g1))"

definition restore_node :: "gnode \<Rightarrow> gnode" where
  "restore_node n = n\<lparr>g_props := (g_props n)(''_deleted'' \<mapsto> JBool False, ''_merged_into'' := None, ''_merged_at'' := None)\<rparr>"

definition record_split :: "string \<Rightarrow> string \<Rightarrow> int \<Rightarrow> merge_store \<Rightarrow> merge_store" where
  "record_split mergeId actor now st = st\<lparr>
     mg_graph := set_nodes_at (map mv_absorbed (filter (\<lambda>m. mv_id m = mergeId) (mg_merges st))) restore_node (mg_graph st),
     mg_merges := map (\<lambda>m. if mv_id m = mergeId then m\<lparr>mv_reversedAt := Some now, mv_reversedBy := Some actor\<rparr> else m) (mg_merges st)\<rparr>"

definition splitMerge ::
    "(merge_store \<Rightarrow> merge_store) \<Rightarrow> string \<Rightarrow> string \<Rightarrow> int \<Rightarrow> merge_store \<Rightarrow> (merge_error + unit) \<times> merge_store" where
  "splitMerge others mergeId actor now st =
     (case find_first (\<lambda>m. mv_id m = mergeId) (mg_merges st) of
        None \<Rightarrow> (Inl Merge_Missing, st)
      | Some m \<Rightarrow>
          let st1 = others st;
              st2 = (if mv_reversedAt m \<noteq> None then st1
                else unrepointAuditEvents (mv_survivorId m) (mv_loserId m) (mv_repointedAuditIds m)
                  (st1\<lparr>mg_graph := unmigrate (mv_migratedClaims m) (mv_survivorId m) (mg_graph st1)\<rparr>))
          in (Inr (), record_split mergeId actor now st2))"

text \<open>\<open>ORDER BY timestamp DESC\<close>.\<close>

definition merge_name :: "merge_store \<Rightarrow> nat \<Rightarrow> string \<Rightarrow> string" where
  "merge_name st p fallback = asString (prop_of (node_at st p) ''name'') fallback"

definition listMerges :: "nat \<Rightarrow> merge_store \<Rightarrow> merge_summary list" where
  "listMerges limit st =
     map (\<lambda>m. \<lparr>mu_id = mv_id m, mu_sourceId = mv_loserId m, mu_targetId = mv_survivorId m,
         mu_sourceName = merge_name st (mv_absorbed m) (mv_loserId m), mu_targetName = merge_name st (mv_merged m) (mv_survivorId m),
         mu_actor = mv_actor m, mu_timestamp = mv_timestamp m, mu_confidence = mv_confidence m\<rparr>)
       (take limit (js_sort (\<lambda>a b. of_int (mv_timestamp b - mv_timestamp a)) (mg_merges st)))"

end
