(* ===== verification/Merge_Properties.thy ===== *)
theory Merge_Properties
  imports Entity_Merge
begin

text \<open>
  What the merge of two entities promises: no human claim is lost in it, and splitting it gives
  every node its claims and its audit trail back; and a history in which a human claim ends on no
  visible node.
\<close>

section \<open>Claims by id\<close>

definition claims :: "string \<Rightarrow> graph \<Rightarrow> claim list option" where
  "claims i g = map_option fst (claims_at g i)"

lemma claims_column:
  "claims i g = map_option snd (find_first (\<lambda>kc. fst kc = Some (JStr i)) (map (\<lambda>n. (g_props n ''id'', stored_claims n)) (nodes g)))"
proof -
  have "map_option (\<lambda>n. stored_claims n) (find_first (has_id i) ns) =
      map_option snd (find_first (\<lambda>kc. fst kc = Some (JStr i)) (map (\<lambda>n. (g_props n ''id'', stored_claims n)) ns))" for ns
    by (induction ns) (auto simp: has_id_def)
  then show ?thesis by (simp add: claims_def claims_at_def option.map_comp comp_def)
qed

lemma column_fold_update:
  "(\<And>n. col (f n) = col n) \<Longrightarrow> map col (fold (\<lambda>p ns. ns[p := f (ns ! p)]) ps ns) = map col ns"
proof (induction ps arbitrary: ns)
  case (Cons p ps)
  have "map col (ns[p := f (ns ! p)]) = map col ns"
  proof (cases "p < length ns")
    case True
    then have "(map col ns)[p := col (ns ! p)] = map col ns" by (metis list_update_id nth_map)
    then show ?thesis using Cons.prems by (simp add: map_update)
  qed (simp add: list_update_beyond)
  then show ?case using Cons by simp
qed simp

lemma column_set_nodes: "(\<And>n. col (f n) = col n) \<Longrightarrow> map col (nodes (set_nodes_at ps f g)) = map col (nodes g)"
  by (simp add: set_nodes_at_def column_fold_update)

lemma claims_set_nodes:
  "(\<And>n. g_props (f n) ''id'' = g_props n ''id'' \<and> stored_claims (f n) = stored_claims n) \<Longrightarrow> claims i (set_nodes_at ps f g) = claims i g"
  unfolding claims_column by (subst column_set_nodes) auto

lemma claims_locked: "claims i (bump_all g e) = claims i g"
  by (cases "find_first (has_id i) (nodes g)") (auto simp: claims_def claims_at_def find_bump)

lemma claims_written: "claims i (writeClaims g e cs) = (if i = e then map_option (\<lambda>_. cs) (claims i g) else claims i g)"
  by (cases "find_first (has_id i) (nodes g)") (auto simp: claims_def claims_at_def find_write stored_claims_def)

lemma locked_claims:
  "loadClaimsLocked g e = (case claims e g of None \<Rightarrow> (None, bump_all g e)
     | Some cs \<Rightarrow> (Some \<lparr>lk_claims = cs, lk_name = lk_name (the (fst (loadClaimsLocked g e))),
         lk_label = lk_label (the (fst (loadClaimsLocked g e)))\<rparr>, bump_all g e))"
  by (rule loadClaimsLocked_cases [of g e]) (auto simp: claims_def)

section \<open>Merging the claims\<close>

lemma merge_added:
  "\<exists>added. mergeClaimsByIdentity base incoming = base @ added \<and> set added \<subseteq> set incoming \<and>
    (\<forall>c \<in> set incoming. \<exists>d \<in> set (base @ added). same_slot d c) \<and> (\<forall>a \<in> set added. \<forall>b \<in> set base. \<not> same_slot b a)"
proof (induction incoming arbitrary: base)
  case (Cons c incoming)
  show ?case
  proof (cases "list_ex (\<lambda>d. same_slot d c) base")
    case True
    then obtain d where d: "d \<in> set base" "same_slot d c" by (auto simp: list_ex_iff)
    from Cons.IH [of base] obtain added where a: "mergeClaimsByIdentity base incoming = base @ added" "set added \<subseteq> set incoming"
      "\<forall>c \<in> set incoming. \<exists>d \<in> set (base @ added). same_slot d c" "\<forall>a \<in> set added. \<forall>b \<in> set base. \<not> same_slot b a" by blast
    then show ?thesis using True d by (intro exI [of _ added]) auto
  next
    case False
    from Cons.IH [of "base @ [c]"] obtain added where a: "mergeClaimsByIdentity (base @ [c]) incoming = (base @ [c]) @ added"
      "set added \<subseteq> set incoming" "\<forall>c' \<in> set incoming. \<exists>d \<in> set ((base @ [c]) @ added). same_slot d c'"
      "\<forall>a \<in> set added. \<forall>b \<in> set (base @ [c]). \<not> same_slot b a" by blast
    have "same_slot c c" by (simp add: same_slot_def)
    then show ?thesis using False a by (intro exI [of _ "c # added"]) (auto simp: list_ex_iff)
  qed
qed simp

lemma migrate_claims:
  assumes "claims loser g = Some lc" "claims survivor g = Some sc"
    "mergeClaimsByIdentity sc (filter isHumanAttestation lc) = sc @ added"
  shows "fst (migrateHumanClaims loser survivor g) = map identity_of added"
    "claims i (snd (migrateHumanClaims loser survivor g)) = (if i = survivor then Some (sc @ added) else claims i g)"
proof -
  let ?g1 = "bump_all g loser" and ?g2 = "bump_all (bump_all g loser) survivor"
  obtain nm lbl where l: "loadClaimsLocked g loser = (Some \<lparr>lk_claims = lc, lk_name = nm, lk_label = lbl\<rparr>, ?g1)"
    using locked_claims [of g loser] assms(1) by auto
  obtain nm' lbl' where s: "loadClaimsLocked ?g1 survivor = (Some \<lparr>lk_claims = sc, lk_name = nm', lk_label = lbl'\<rparr>, ?g2)"
    using locked_claims [of ?g1 survivor] assms(2) by (auto simp: claims_locked)
  have idle: "added = []" if none: "filter isHumanAttestation lc = []" using assms(3) [unfolded none] by simp
  have "migrateHumanClaims loser survivor g = (if added = [] then ([], ?g2) else (map identity_of added, writeClaims ?g2 survivor (sc @ added)))"
  proof (cases "filter isHumanAttestation lc = []")
    case True
    have "added = []" by (rule idle [OF True])
    then show ?thesis by (simp only: migrateHumanClaims_def l s Let_def locked_claims.simps prod.case option.case True simp_thms if_True)
  next
    case False
    then show ?thesis unfolding migrateHumanClaims_def l s prod.case option.case Let_def locked_claims.simps assms(3)
      by (simp del: filter_empty_conv)
  qed
  then show "fst (migrateHumanClaims loser survivor g) = map identity_of added"
    "claims i (snd (migrateHumanClaims loser survivor g)) = (if i = survivor then Some (sc @ added) else claims i g)"
    using assms(2) by (auto simp: claims_written claims_locked)
qed

lemma unmigrate_claims:
  "claims survivor g = Some cs \<Longrightarrow> claims i (unmigrate ms survivor g) =
    (if i = survivor then Some (filter (\<lambda>c. identity_of c \<notin> set ms) cs) else claims i g)"
proof -
  assume cs: "claims survivor g = Some cs"
  obtain nm lbl where s: "loadClaimsLocked g survivor = (Some \<lparr>lk_claims = cs, lk_name = nm, lk_label = lbl\<rparr>, bump_all g survivor)"
    using locked_claims [of g survivor] cs by auto
  have "list_ex (\<lambda>m. ci_source m = c_source c \<and> ci_source_id m = c_source_id c \<and> ci_property_key m = property_key c) ms
      = (identity_of c \<in> set ms)" for c
  proof -
    have "(ci_source m = c_source c \<and> ci_source_id m = c_source_id c \<and> ci_property_key m = property_key c) = (m = identity_of c)" for m
      by (cases m) (auto simp: identity_of_def)
    then show ?thesis by (auto simp: list_ex_iff)
  qed
  moreover have "filter (\<lambda>c. identity_of c \<notin> set ms) cs = cs" if "length (filter (\<lambda>c. identity_of c \<notin> set ms) cs) = length cs"
    using that by (metis filter_True length_filter_less nat_neq_iff)
  ultimately show ?thesis using cs by (auto simp: unmigrate_def s Let_def claims_written claims_locked)
qed

lemma migrated_removed:
  assumes "\<forall>a \<in> set added. \<forall>b \<in> set base. \<not> same_slot b a"
  shows "filter (\<lambda>c. identity_of c \<notin> set (map identity_of added)) (base @ added) = base"
proof -
  have "same_slot b a" if "identity_of b = identity_of a" for a b using that by (simp add: identity_of_def same_slot_def)
  then have "identity_of b \<notin> set (map identity_of added)" if "b \<in> set base" for b using assms that by force
  then show ?thesis by (simp add: filter_id_conv filter_empty_conv)
qed

section \<open>Nothing a person said is lost in a merge\<close>

lemma moves_graph: "mg_graph (snd (move_edges rel p source target st)) = mg_graph st"
  by (simp add: move_edges_def Let_def)

lemma repoint_graph: "mg_graph (snd (repoint_types rels loser survivor st)) = mg_graph st"
  by (induction rels arbitrary: st) (simp_all add: case_prod_beta moves_graph)

lemma absorb_columns:
  "g_props (absorb_node s now n) ''id'' = g_props n ''id''" "stored_claims (absorb_node s now n) = stored_claims n"
  "g_props (restore_node n) ''id'' = g_props n ''id''" "stored_claims (restore_node n) = stored_claims n"
  by (simp_all add: absorb_node_def restore_node_def stored_claims_def)

lemma record_merge_claims: "claims i (mg_graph (record_merge mergeId actor c survivor loser ms rs now st)) = claims i (mg_graph st)"
  by (simp add: record_merge_def Let_def claims_set_nodes absorb_columns)

lemma merge_tx_claims:
  "claims i (mg_graph (merge_tx mergeId actor c survivor loser now st)) = claims i (snd (migrateHumanClaims loser survivor (mg_graph st)))"
  by (simp add: merge_tx_def case_prod_beta record_merge_claims repointAuditEvents_def repoint_graph)


section \<open>Splitting gives everything back\<close>

definition id_column :: "graph \<Rightarrow> jsval option list" where
  "id_column g = map (\<lambda>n. g_props n ''id'') (nodes g)"

lemma places_column: "places i st = filter (\<lambda>p. id_column (mg_graph st) ! p = Some (JStr i)) [0..<length (id_column (mg_graph st))]"
  unfolding places_def id_column_def length_map by (rule filter_cong) (auto simp: node_at_def has_id_def)

definition props_kept :: "graph \<Rightarrow> graph \<Rightarrow> bool" where
  "props_kept g g' \<longleftrightarrow> (\<forall>k. map (\<lambda>n. g_props n k) (nodes g') = map (\<lambda>n. g_props n k) (nodes g))"

lemma props_kept_map: "(\<And>n. g_props (f n) = g_props n) \<Longrightarrow> props_kept g (g\<lparr>nodes := map f (nodes g)\<rparr>)"
  by (simp add: props_kept_def)

lemma props_kept_trans: "props_kept g h \<Longrightarrow> props_kept h k \<Longrightarrow> props_kept g k"
  by (simp add: props_kept_def)

lemma props_locked: "props_kept g (snd (loadClaimsLocked g e))"
  by (auto simp: loadClaimsLocked_def Let_def bump_all_def bump_rev_def intro!: props_kept_map split: option.split)

lemma props_written: "props_kept g (writeClaims g e cs)"
  unfolding writeClaims_def by (rule props_kept_map) simp

lemma props_migrate: "props_kept g (snd (migrateHumanClaims loser survivor g))"
proof -
  obtain l g1 where l: "loadClaimsLocked g loser = (l, g1)" by fastforce
  obtain s g2 where s: "loadClaimsLocked g1 survivor = (s, g2)" by fastforce
  have g2: "props_kept g g2" using props_kept_trans [of g g1 g2] props_locked [of g loser] props_locked [of g1 survivor] l s by simp
  then show ?thesis using props_kept_trans [OF g2 props_written]
    by (auto simp: migrateHumanClaims_def l s Let_def split: option.split)
qed

lemma props_unmigrate: "props_kept g (unmigrate ms survivor g)"
proof -
  obtain s g1 where s: "loadClaimsLocked g survivor = (s, g1)" by fastforce
  then have g1: "props_kept g g1" using props_locked [of g survivor] by simp
  have "props_kept g g" by (simp add: props_kept_def)
  then show ?thesis using g1 props_kept_trans [OF g1 props_written]
    by (auto simp: unmigrate_def s Let_def split: option.split)
qed

lemma props_ids: "props_kept g g' \<Longrightarrow> id_column g' = id_column g"
  by (simp add: props_kept_def id_column_def)

lemma moved_edges:
  assumes "places source st = [q]" "places target st = [p]"
  shows "mset (mg_audits (snd (move_edges rel P source target st))) =
      image_mset (\<lambda>e. if ad_rel e = rel \<and> ad_target e = q \<and> P e then e\<lparr>ad_target := p\<rparr> else e) (mset (mg_audits st))"
    "fst (move_edges rel P source target st) = map ad_event (filter (\<lambda>e. ad_rel e = rel \<and> ad_target e = q \<and> P e) (mg_audits st))"
proof -
  let ?m = "\<lambda>e. ad_rel e = rel \<and> ad_target e = q \<and> P e"
  have move: "move_edges rel P source target st = (map ad_event (filter ?m (mg_audits st)),
      st\<lparr>mg_audits := filter (\<lambda>e. \<not> ?m e) (mg_audits st) @ map (\<lambda>e. e\<lparr>ad_target := p\<rparr>) (filter ?m (mg_audits st))\<rparr>)"
    using assms by (simp add: move_edges_def Let_def)
  have "mset (filter (\<lambda>e. \<not> ?m e) es) + mset (map (\<lambda>e. e\<lparr>ad_target := p\<rparr>) (filter ?m es)) =
      image_mset (\<lambda>e. if ?m e then e\<lparr>ad_target := p\<rparr> else e) (mset es)" for es
    by (induction es) auto
  then show "mset (mg_audits (snd (move_edges rel P source target st))) =
      image_mset (\<lambda>e. if ?m e then e\<lparr>ad_target := p\<rparr> else e) (mset (mg_audits st))"
    by (simp add: move)
  show "fst (move_edges rel P source target st) = map ad_event (filter ?m (mg_audits st))" by (simp add: move)
qed

lemma places_same: "id_column (mg_graph st') = id_column (mg_graph st) \<Longrightarrow> places i st' = places i st"
  by (simp add: places_column)

lemma places_moved: "places i (snd (move_edges rel P source target st)) = places i st"
  by (rule places_same) (simp add: moves_graph)

lemma rel_cases: "ad_rel e = EDITS \<or> ad_rel e = VERIFIES"
  by (cases "ad_rel e") auto

lemma repointed:
  assumes "places loser st = [q]" "places survivor st = [p]" "p \<noteq> q"
  shows "mset (mg_audits (snd (repointAuditEvents loser survivor st))) =
      image_mset (\<lambda>e. if ad_target e = q then e\<lparr>ad_target := p\<rparr> else e) (mset (mg_audits st))"
    "set (fst (repointAuditEvents loser survivor st)) = ad_event ` {e \<in> set (mg_audits st). ad_target e = q}"
proof -
  let ?s1 = "snd (move_edges EDITS (\<lambda>_. True) loser survivor st)"
  let ?f = "\<lambda>rel e. if ad_rel e = rel \<and> ad_target e = q \<and> True then e\<lparr>ad_target := p\<rparr> else e"
  have p1: "places loser ?s1 = [q]" "places survivor ?s1 = [p]" using assms by (simp_all add: places_moved)
  have split: "repointAuditEvents loser survivor st =
      (fst (move_edges EDITS (\<lambda>_. True) loser survivor st) @ fst (move_edges VERIFIES (\<lambda>_. True) loser survivor ?s1),
       snd (move_edges VERIFIES (\<lambda>_. True) loser survivor ?s1))"
    by (simp add: repointAuditEvents_def AUDIT_REL_TYPES_def case_prod_beta)
  have first: "mset (mg_audits ?s1) = image_mset (?f EDITS) (mset (mg_audits st))" by (rule moved_edges(1) [OF assms(1,2)])
  have "?f VERIFIES (?f EDITS e) = (if ad_target e = q then e\<lparr>ad_target := p\<rparr> else e)" for e
    using rel_cases [of e] assms(3) by auto
  then have both: "?f VERIFIES \<circ> ?f EDITS = (\<lambda>e. if ad_target e = q then e\<lparr>ad_target := p\<rparr> else e)"
    unfolding comp_def by (rule ext)
  show "mset (mg_audits (snd (repointAuditEvents loser survivor st))) =
      image_mset (\<lambda>e. if ad_target e = q then e\<lparr>ad_target := p\<rparr> else e) (mset (mg_audits st))"
    unfolding split snd_conv moved_edges(1) [OF p1] first multiset.map_comp both by (rule refl)
  have "set_mset (mset (mg_audits ?s1)) = ?f EDITS ` set_mset (mset (mg_audits st))" unfolding first by (rule set_image_mset)
  then have "set (mg_audits ?s1) = ?f EDITS ` set (mg_audits st)" unfolding set_mset_mset .
  then have "ad_event ` {e \<in> set (mg_audits ?s1). ad_rel e = VERIFIES \<and> ad_target e = q} =
      ad_event ` {e \<in> set (mg_audits st). ad_rel e = VERIFIES \<and> ad_target e = q}"
    using assms(3) by (auto split: if_splits intro!: rev_image_eqI)
  moreover have "ad_event ` {e \<in> set (mg_audits st). ad_target e = q} =
      ad_event ` {e \<in> set (mg_audits st). ad_rel e = EDITS \<and> ad_target e = q} \<union>
      ad_event ` {e \<in> set (mg_audits st). ad_rel e = VERIFIES \<and> ad_target e = q}"
    using rel_cases by auto
  ultimately show "set (fst (repointAuditEvents loser survivor st)) = ad_event ` {e \<in> set (mg_audits st). ad_target e = q}"
    unfolding split fst_conv by (simp add: moved_edges(2) [OF assms(1,2)] moved_edges(2) [OF p1])
qed

text \<open>The properties that a merge or a split sets on the node that goes.\<close>

definition merge_marks :: "string set" where
  "merge_marks = {''_deleted'', ''_merged_into'', ''_merged_at''}"

definition content_kept :: "graph \<Rightarrow> graph \<Rightarrow> bool" where
  "content_kept g g' \<longleftrightarrow> (\<forall>k. k \<notin> merge_marks \<longrightarrow> map (\<lambda>n. g_props n k) (nodes g') = map (\<lambda>n. g_props n k) (nodes g))"

lemma content_ids: "content_kept g g' \<Longrightarrow> id_column g' = id_column g"
  by (simp add: content_kept_def id_column_def merge_marks_def)

lemma content_props: "props_kept g g' \<Longrightarrow> content_kept g g'"
  by (simp add: props_kept_def content_kept_def)

lemma content_trans: "content_kept g h \<Longrightarrow> content_kept h k \<Longrightarrow> content_kept g k"
  by (simp add: content_kept_def)

lemma content_marked: "content_kept g (set_nodes_at ps (absorb_node s now) g)" "content_kept g (set_nodes_at ps restore_node g)"
proof -
  have "map (\<lambda>n. g_props n k) (nodes (set_nodes_at ps (absorb_node s now) g)) = map (\<lambda>n. g_props n k) (nodes g)"
    "map (\<lambda>n. g_props n k) (nodes (set_nodes_at ps restore_node g)) = map (\<lambda>n. g_props n k) (nodes g)" if "k \<notin> merge_marks" for k
    by (rule column_set_nodes; use that in \<open>simp add: merge_marks_def absorb_node_def restore_node_def\<close>)+
  then show "content_kept g (set_nodes_at ps (absorb_node s now) g)" "content_kept g (set_nodes_at ps restore_node g)"
    by (simp_all add: content_kept_def)
qed

lemma moves_rest:
  "mg_candidates (snd (repoint_types rels loser survivor st)) = mg_candidates st" "mg_merges (snd (repoint_types rels loser survivor st)) = mg_merges st"
proof -
  have "mg_candidates (snd (move_edges rel P source target st)) = mg_candidates st \<and> mg_merges (snd (move_edges rel P source target st)) = mg_merges st"
    for rel P source target st by (simp add: move_edges_def Let_def)
  then show "mg_candidates (snd (repoint_types rels loser survivor st)) = mg_candidates st"
    "mg_merges (snd (repoint_types rels loser survivor st)) = mg_merges st"
    by (induction rels arbitrary: st) (simp_all add: case_prod_beta)
qed

lemma claims_some: "places i st = p # ps \<Longrightarrow> \<exists>cs. claims i (mg_graph st) = Some cs"
proof -
  assume "places i st = p # ps"
  then have "p \<in> set (places i st)" by simp
  then have "has_id i (node_at st p)" "node_at st p \<in> set (nodes (mg_graph st))" by (auto simp: places_def node_at_def)
  then have "find_first (has_id i) (nodes (mg_graph st)) \<noteq> None" by (auto simp: find_first_None)
  then show ?thesis by (auto simp: claims_def claims_at_def)
qed

lemma merge_shape:
  assumes "places survivor st = [p]" "places loser st = [q]" "p \<noteq> q" "\<exists>d \<in> set (mg_candidates st). rc_id d = rc_id (cd_candidate c)"
    "claims loser (mg_graph st) = Some lc" "claims survivor (mg_graph st) = Some sc"
    "mergeClaimsByIdentity sc (filter isHumanAttestation lc) = sc @ added"
    and st': "st' = merge_tx mergeId actor c survivor loser now st"
  obtains ev rep k where "mg_merges st' = mg_merges st @ replicate (Suc k) ev" "mv_id ev = mergeId" "mv_survivorId ev = survivor"
    "mv_loserId ev = loser" "mv_migratedClaims ev = map identity_of added" "mv_repointedAuditIds ev = rep" "mv_absorbed ev = q"
    "mv_reversedAt ev = None" "set rep = ad_event ` {e \<in> set (mg_audits st). ad_target e = q}"
    "mset (mg_audits st') = image_mset (\<lambda>e. if ad_target e = q then e\<lparr>ad_target := p\<rparr> else e) (mset (mg_audits st))"
    "content_kept (mg_graph st) (mg_graph st')"
proof -
  obtain g where g: "migrateHumanClaims loser survivor (mg_graph st) = (map identity_of added, g)"
    using migrate_claims(1) [OF assms(5-7)] by (metis prod.collapse)
  then have kept: "props_kept (mg_graph st) g" using props_migrate [of "mg_graph st" loser survivor] by simp
  let ?a = "st\<lparr>mg_graph := g\<rparr>"
  have at: "places i ?a = places i st" for i by (rule places_same) (simp add: props_ids [OF kept])
  obtain rep b where b: "repointAuditEvents loser survivor ?a = (rep, b)" by fastforce
  have pa: "places loser ?a = [q]" "places survivor ?a = [p]" using assms(1,2) by (simp_all add: at)
  have audits: "mset (mg_audits b) = image_mset (\<lambda>e. if ad_target e = q then e\<lparr>ad_target := p\<rparr> else e) (mset (mg_audits st))"
    "set rep = ad_event ` {e \<in> set (mg_audits st). ad_target e = q}"
    using repointed [OF pa assms(3)] by (simp_all add: b)
  have rest: "mg_graph b = g" "mg_candidates b = mg_candidates st" "mg_merges b = mg_merges st"
    using b repoint_graph [of AUDIT_REL_TYPES loser survivor ?a] moves_rest [of AUDIT_REL_TYPES loser survivor ?a]
    by (simp_all add: repointAuditEvents_def)
  have pb: "places survivor b = [p]" "places loser b = [q]" using pa by (simp_all add: places_column rest)
  let ?cs = "filter (\<lambda>d. rc_id d = rc_id (cd_candidate c)) (mg_candidates st)"
  obtain k where k: "length ?cs = Suc k" using assms(4) by (cases ?cs) (auto simp: filter_empty_conv)
  have same: "concat (map (\<lambda>_. [e]) ?cs) = replicate (Suc k) e" for e :: merge_event
    unfolding k [symmetric] by (simp add: map_replicate_const)
  define ev where "ev = \<lparr>mv_id = mergeId, mv_actor = actor, mv_timestamp = now, mv_confidence = rc_confidence (cd_candidate c),
    mv_survivorId = survivor, mv_loserId = loser, mv_loserSnapshot = g_props (if survivor = cd_leftId c then cd_right c else cd_left c),
    mv_migratedClaims = map identity_of added, mv_repointedAuditIds = rep, mv_merged = p, mv_absorbed = q,
    mv_reversedAt = None, mv_reversedBy = None\<rparr>"
  have "?cs \<noteq> []" using k by auto
  then have out: "st' = b\<lparr>mg_merges := mg_merges st @ replicate (Suc k) ev, mg_graph := set_nodes_at [q] (absorb_node survivor now) g,
      mg_candidates := map (\<lambda>d. if rc_id d = rc_id (cd_candidate c) then decide Cand_Confirmed actor now d else d) (mg_candidates st)\<rparr>"
    unfolding st' merge_tx_def g b prod.case record_merge_def Let_def pb rest same [symmetric] ev_def by simp
  have "content_kept (mg_graph st) (mg_graph st')"
    using content_trans [OF content_props [OF kept] content_marked(1)] by (simp add: out)
  then show ?thesis using audits by (intro that [of k ev rep]) (simp_all add: out ev_def)
qed

lemma unrepointed:
  assumes "places survivor st = [p]" "places loser st = [q]" "p \<noteq> q"
  shows "mset (mg_audits (unrepointAuditEvents survivor loser ids st)) =
    image_mset (\<lambda>e. if ad_target e = p \<and> ad_event e \<in> set ids then e\<lparr>ad_target := q\<rparr> else e) (mset (mg_audits st))"
proof (cases "ids = []")
  case True
  then show ?thesis by (simp add: unrepointAuditEvents_def)
next
  case False
  let ?P = "\<lambda>e. ad_event e \<in> set ids"
  let ?s1 = "snd (move_edges EDITS ?P survivor loser st)"
  let ?f = "\<lambda>rel e. if ad_rel e = rel \<and> ad_target e = p \<and> ?P e then e\<lparr>ad_target := q\<rparr> else e"
  have p1: "places survivor ?s1 = [p]" "places loser ?s1 = [q]" using assms by (simp_all add: places_moved)
  have split: "unrepointAuditEvents survivor loser ids st = snd (move_edges VERIFIES ?P survivor loser ?s1)"
    using False by (simp add: unrepointAuditEvents_def AUDIT_REL_TYPES_def)
  have "?f VERIFIES (?f EDITS e) = (if ad_target e = p \<and> ?P e then e\<lparr>ad_target := q\<rparr> else e)" for e
    using rel_cases [of e] assms(3) by auto
  then have both: "?f VERIFIES \<circ> ?f EDITS = (\<lambda>e. if ad_target e = p \<and> ?P e then e\<lparr>ad_target := q\<rparr> else e)"
    unfolding comp_def by (rule ext)
  show ?thesis
    unfolding split moved_edges(1) [OF p1] moved_edges(1) [OF assms(1,2)] multiset.map_comp both by (rule refl)
qed

lemma unrepoint_graph: "mg_graph (unrepointAuditEvents survivor loser ids st) = mg_graph st"
  by (simp add: unrepointAuditEvents_def AUDIT_REL_TYPES_def moves_graph)

lemma unrepoint_merges: "mg_merges (unrepointAuditEvents survivor loser ids st) = mg_merges st"
  by (simp add: unrepointAuditEvents_def AUDIT_REL_TYPES_def move_edges_def Let_def)

lemma audits_back:
  assumes "distinct (map ad_event es)" "p \<noteq> q" "set rep = ad_event ` {e \<in> set es. ad_target e = q}"
  shows "image_mset (\<lambda>e. if ad_target e = p \<and> ad_event e \<in> set rep then e\<lparr>ad_target := q\<rparr> else e)
    (image_mset (\<lambda>e. if ad_target e = q then e\<lparr>ad_target := p\<rparr> else e) (mset es)) = mset es"
proof -
  have "(\<lambda>e. if ad_target e = p \<and> ad_event e \<in> set rep then e\<lparr>ad_target := q\<rparr> else e) (if ad_target e = q then e\<lparr>ad_target := p\<rparr> else e) = e"
    if e: "e \<in> set es" for e
  proof (cases "ad_target e = q")
    case True
    then have "ad_event e \<in> set rep" using e assms(3) by auto
    then show ?thesis using True by (cases e) simp
  next
    case False
    have "ad_event e \<notin> set rep" if "ad_target e = p"
    proof
      assume "ad_event e \<in> set rep"
      then obtain d where d: "d \<in> set es" "ad_target d = q" "ad_event d = ad_event e" using assms(3) by auto
      then have "d = e" using e assms(1) by (auto simp: distinct_map dest: inj_onD)
      then show False using d(2) False by simp
    qed
    then show ?thesis using False by simp
  qed
  then have "image_mset ((\<lambda>e. if ad_target e = p \<and> ad_event e \<in> set rep then e\<lparr>ad_target := q\<rparr> else e) \<circ>
      (\<lambda>e. if ad_target e = q then e\<lparr>ad_target := p\<rparr> else e)) (mset es) = image_mset (\<lambda>e. e) (mset es)"
    by (intro image_mset_cong) simp
  then show ?thesis by (simp add: multiset.map_comp)
qed

lemma find_first_skip: "\<forall>x \<in> set xs. \<not> p x \<Longrightarrow> p y \<Longrightarrow> find_first p (xs @ y # ys) = Some y"
  by (induction xs) auto

lemma last_restored:
  assumes "q < length (nodes (set_nodes_at (replicate (Suc k) q) restore_node g))"
  shows "alive_node (nodes (set_nodes_at (replicate (Suc k) q) restore_node g) ! q)"
proof -
  define ns where "ns = fold (\<lambda>p ns. ns[p := restore_node (ns ! p)]) (replicate k q) (nodes g)"
  have "replicate (Suc k) q = replicate k q @ [q]" by (simp add: replicate_append_same)
  then have "nodes (set_nodes_at (replicate (Suc k) q) restore_node g) = ns[q := restore_node (ns ! q)]"
    by (simp only: set_nodes_at_def ns_def) simp
  then show ?thesis using assms by (simp add: alive_node_def restore_node_def prop_of_def coalesce_def)
qed

text \<open>No two nodes share an id, and each candidate joins two nodes that have one.\<close>

definition sound_store :: "merge_store \<Rightarrow> bool" where
  "sound_store st \<longleftrightarrow> (\<forall>i. length (places i st) \<le> 1) \<and>
     (\<forall>c \<in> set (mg_candidates st). rc_left c \<noteq> rc_right c \<and>
       (\<forall>p \<in> {rc_left c, rc_right c}. p < length (nodes (mg_graph st)) \<and> has_id (id_at st p) (node_at st p)))"

lemma only_place:
  assumes "sound_store st" "p < length (nodes (mg_graph st))" "has_id i (node_at st p)"
  shows "places i st = [p]"
proof -
  have "p \<in> set (places i st)" using assms(2,3) by (simp add: places_def)
  moreover have "length (places i st) \<le> 1" using assms(1) by (simp add: sound_store_def)
  ultimately show ?thesis by (cases "places i st") auto
qed

lemma confirmed_pair:
  assumes "sound_store st" "pendingCandidate i st = Inr c"
  obtains p q where "places (pickSurvivor c) st = [p]" "p \<noteq> q"
    "places (if pickSurvivor c = cd_leftId c then cd_rightId c else cd_leftId c) st = [q]" "cd_candidate c \<in> set (mg_candidates st)"
proof -
  obtain d where d: "find_first (\<lambda>c. rc_id c = i) (mg_candidates st) = Some d" "c = candidateFromRecord st d"
    using assms(2) by (auto simp: pendingCandidate_def getCandidate_def split: option.splits if_splits)
  have mem: "d \<in> set (mg_candidates st)" using find_first_Some [OF d(1)] by simp
  then have at: "places (id_at st (rc_left d)) st = [rc_left d]" "places (id_at st (rc_right d)) st = [rc_right d]" "rc_left d \<noteq> rc_right d"
    using assms(1) by (auto simp: sound_store_def intro!: only_place [OF assms(1)])
  have ids: "cd_leftId c = id_at st (rc_left d)" "cd_rightId c = id_at st (rc_right d)" "cd_candidate c = d"
    by (simp_all add: d(2) candidateFromRecord_def Let_def)
  have "pickSurvivor c = cd_leftId c \<or> pickSurvivor c = cd_rightId c" by (auto simp: pickSurvivor_def Let_def)
  then show ?thesis
  proof (cases "pickSurvivor c = cd_leftId c")
    case True
    then show ?thesis using at ids mem by (intro that [of "rc_left d" "rc_right d"]) simp_all
  next
    case False
    then have "pickSurvivor c = cd_rightId c" using \<open>pickSurvivor c = cd_leftId c \<or> pickSurvivor c = cd_rightId c\<close> by simp
    then show ?thesis using at ids mem False by (intro that [of "rc_right d" "rc_left d"]) simp_all
  qed
qed

text \<open>
  C16: A merge can be undone exactly: splitting it right after it was confirmed gives every entity
  the claims it had, every audit event the node it was recorded on, leaves every property of every
  node but the marks of the merge itself as it was, and makes the absorbed node visible again.
\<close>

theorem split_undoes_merge:
  assumes "sound_store st" "distinct (map ad_event (mg_audits st))"
    "confirmMerge uuid (\<lambda>s. s) i actor now st = (Inr m, st1)" "mu_id m \<notin> mv_id ` set (mg_merges st)"
    "splitMerge (\<lambda>s. s) (mu_id m) actor2 later st1 = (r, st2)"
  shows "r = Inr () \<and> (\<forall>j. claims j (mg_graph st2) = claims j (mg_graph st)) \<and> mset (mg_audits st2) = mset (mg_audits st) \<and>
    (\<forall>k. k \<notin> merge_marks \<longrightarrow> map (\<lambda>n. g_props n k) (nodes (mg_graph st2)) = map (\<lambda>n. g_props n k) (nodes (mg_graph st))) \<and>
    (\<forall>n \<in> set (nodes (mg_graph st2)). has_id (mu_sourceId m) n \<longrightarrow> alive_node n)"
proof -
  obtain c where c: "pendingCandidate i st = Inr c" using assms(3) by (auto simp: confirmMerge_def split: sum.splits)
  define survivor where "survivor = pickSurvivor c"
  define loser where "loser = (if survivor = cd_leftId c then cd_rightId c else cd_leftId c)"
  let ?st0 = "st\<lparr>mg_next := mg_next st + 1\<rparr>"
  have m: "mu_sourceId m = loser" and st1: "st1 = merge_tx (mu_id m) actor c survivor loser now ?st0"
    using assms(3) by (auto simp: confirmMerge_def c Let_def survivor_def loser_def)
  obtain p q where pq: "places survivor st = [p]" "p \<noteq> q" "places loser st = [q]" "cd_candidate c \<in> set (mg_candidates st)"
    using confirmed_pair [OF assms(1) c] by (metis survivor_def loser_def)
  have pq0: "places survivor ?st0 = [p]" "places loser ?st0 = [q]" using pq by (simp_all add: places_column)
  obtain lc sc where lc: "claims loser (mg_graph ?st0) = Some lc" and sc: "claims survivor (mg_graph ?st0) = Some sc"
    using claims_some [OF pq(1)] claims_some [OF pq(3)] by auto
  obtain added where added: "mergeClaimsByIdentity sc (filter isHumanAttestation lc) = sc @ added"
    "\<forall>a \<in> set added. \<forall>b \<in> set sc. \<not> same_slot b a" using merge_added [of sc "filter isHumanAttestation lc"] by blast
  obtain ev rep k where ev: "mg_merges st1 = mg_merges ?st0 @ replicate (Suc k) ev" "mv_id ev = mu_id m" "mv_survivorId ev = survivor"
    "mv_loserId ev = loser" "mv_migratedClaims ev = map identity_of added" "mv_repointedAuditIds ev = rep" "mv_absorbed ev = q"
    "mv_reversedAt ev = None" "set rep = ad_event ` {e \<in> set (mg_audits ?st0). ad_target e = q}"
    "mset (mg_audits st1) = image_mset (\<lambda>e. if ad_target e = q then e\<lparr>ad_target := p\<rparr> else e) (mset (mg_audits ?st0))"
    "content_kept (mg_graph ?st0) (mg_graph st1)"
    by (rule merge_shape [OF pq0 pq(2) _ lc sc added(1) st1, of thesis]) (use pq(4) in auto)
  have others: "\<forall>e \<in> set (mg_merges st). mv_id e \<noteq> mu_id m" using assms(4) by (metis image_eqI)
  then have found: "find_first (\<lambda>e. mv_id e = mu_id m) (mg_merges st1) = Some ev"
    using find_first_skip [of "mg_merges st" "\<lambda>e. mv_id e = mu_id m" ev "replicate k ev"] by (simp add: ev(1,2))
  let ?u = "unmigrate (map identity_of added) survivor (mg_graph st1)"
  let ?b = "st1\<lparr>mg_graph := ?u\<rparr>"
  let ?s = "unrepointAuditEvents survivor loser rep ?b"
  have split: "r = Inr () \<and> st2 = record_split (mu_id m) actor2 later ?s"
    using assms(5) by (auto simp: splitMerge_def found Let_def ev(3-6,8))
  have kept: "content_kept (mg_graph st) ?u"
    using content_trans [OF ev(11) content_props [OF props_unmigrate]] by simp
  have pb: "places survivor ?b = [p]" "places loser ?b = [q]" using pq content_ids [OF kept] by (simp_all add: places_column)
  have marked: "filter (\<lambda>e. mv_id e = mu_id m) (mg_merges ?s) = replicate (Suc k) ev"
    using others by (simp add: unrepoint_merges ev(1,2) filter_empty_conv)
  have graph: "mg_graph st2 = set_nodes_at (replicate (Suc k) q) restore_node ?u"
    using split by (simp only: record_split_def marked map_replicate ev(7) unrepoint_graph) simp
  have audits: "mg_audits st2 = mg_audits ?s" using split by (simp add: record_split_def)
  have "mset (mg_audits st2) = mset (mg_audits st)"
    unfolding audits unrepointed [OF pb pq(2)] using audits_back [OF assms(2) pq(2), of rep] ev(9,10) by simp
  moreover have "claims j (mg_graph st2) = claims j (mg_graph st)" for j
  proof -
    have "claims loser (mg_graph st) = Some lc" "claims survivor (mg_graph st) = Some sc" using lc sc by simp_all
    then have "claims survivor (mg_graph st1) = Some (sc @ added)" "j \<noteq> survivor \<Longrightarrow> claims j (mg_graph st1) = claims j (mg_graph st)"
      by (simp_all add: st1 merge_tx_claims migrate_claims(2) [OF _ _ added(1)])
    then have "claims j ?u = claims j (mg_graph st)"
      using sc migrated_removed [OF added(2)] by (simp add: unmigrate_claims)
    then show ?thesis unfolding graph by (subst claims_set_nodes) (simp_all add: absorb_columns)
  qed
  moreover have final: "content_kept (mg_graph st) (mg_graph st2)"
    unfolding graph by (rule content_trans [OF kept content_marked(2)])
  moreover have "alive_node n" if node: "n \<in> set (nodes (mg_graph st2))" "has_id loser n" for n
  proof -
    have at: "places loser st2 = [q]" using pq(3) content_ids [OF final] by (simp add: places_column)
    obtain j where "j < length (nodes (mg_graph st2))" "n = nodes (mg_graph st2) ! j" using node(1) by (auto simp: in_set_conv_nth)
    then have "j \<in> set (places loser st2)" using node(2) by (simp add: places_def node_at_def)
    then have n: "n = nodes (mg_graph st2) ! q" "q < length (nodes (mg_graph st2))"
      using at \<open>n = nodes (mg_graph st2) ! j\<close> \<open>j < length (nodes (mg_graph st2))\<close> by auto
    then show ?thesis using last_restored [of q k ?u] unfolding graph by simp
  qed
  ultimately show ?thesis using split unfolding m content_kept_def by blast
qed

section \<open>Three entities\<close>

text \<open>Two candidates wait: the first and the second entity, the second and the third, which has an override.\<close>

definition owner_override :: claim where
  "owner_override = sample_claim ''owner'' ''manual:ann'' ''team-a''"

definition entity :: "string \<Rightarrow> string \<Rightarrow> claim list \<Rightarrow> gnode" where
  "entity i tier cs = (fresh_node ''Repository'' i)\<lparr>g_props := [''id'' \<mapsto> JStr i, ''tier'' \<mapsto> JNum tier], g_claims := Some (Encoded cs)\<rparr>"

definition proposal :: "string \<Rightarrow> nat \<Rightarrow> nat \<Rightarrow> recon_candidate" where
  "proposal i l r = new_candidate i ''Repository'' (9/10, \<lparr>sb_name = 9/10, sb_namespace = 1, sb_tags = 1, sb_labels = 1\<rparr>) 0 l r"

definition three_entities :: merge_store where
  "three_entities = \<lparr>mg_graph = empty_graph\<lparr>nodes := [entity ''a'' ''1'' [], entity ''b'' ''2'' [], entity ''c'' ''3'' [owner_override]]\<rparr>,
     mg_candidates = [proposal ''rc:1'' 0 1, proposal ''rc:2'' 1 2], mg_distinct = [], mg_merges = [],
     mg_audits = [\<lparr>ad_rel = EDITS, ad_event = ''ge:1'', ad_target = 2\<rparr>], mg_next = 0, mg_lastScanAt = None\<rparr>"

definition merge_first :: merge_store where
  "merge_first = snd (confirmMerge show_nat (\<lambda>s. s) ''rc:1'' ''ann'' 10 three_entities)"

definition merge_second :: merge_store where
  "merge_second = snd (confirmMerge show_nat (\<lambda>s. s) ''rc:2'' ''ann'' 20 merge_first)"



lemma three_sound: "sound_store three_entities"
proof -
  have "places i three_entities = (if i = ''a'' then [0] else if i = ''b'' then [1] else if i = ''c'' then [2] else [])" for i
    by (auto simp: places_def three_entities_def node_at_def has_id_def entity_def numeral_2_eq_2)
  then have one: "length (places i three_entities) \<le> 1" for i by simp
  have "list_all (\<lambda>c. rc_left c \<noteq> rc_right c \<and> list_all (\<lambda>p. p < length (nodes (mg_graph three_entities)) \<and>
      has_id (id_at three_entities p) (node_at three_entities p)) [rc_left c, rc_right c]) (mg_candidates three_entities)"
    by code_simp
  then show ?thesis using one by (simp add: sound_store_def list_all_iff)
qed

theorem split_undoes_merge_witness:
  "claims ''b'' (mg_graph (snd (splitMerge (\<lambda>s. s) ''me:0'' ''bob'' 30 (snd (confirmMerge show_nat (\<lambda>s. s) ''rc:2'' ''ann'' 20 three_entities))))) = Some []"
proof -
  obtain r st1 where st1: "confirmMerge show_nat (\<lambda>s. s) ''rc:2'' ''ann'' 20 three_entities = (r, st1)" by fastforce
  have "map_sum (\<lambda>_. ()) mu_id (fst (confirmMerge show_nat (\<lambda>s. s) ''rc:2'' ''ann'' 20 three_entities)) = Inr ''me:0''" by code_simp
  then obtain m where m: "r = Inr m" "mu_id m = ''me:0''" by (cases r) (auto simp: st1)
  obtain x st2 where st2: "splitMerge (\<lambda>s. s) (mu_id m) ''bob'' 30 st1 = (x, st2)" by fastforce
  have "distinct (map ad_event (mg_audits three_entities))" "mu_id m \<notin> mv_id ` set (mg_merges three_entities)"
    by (simp_all add: three_entities_def)
  from split_undoes_merge [OF three_sound this(1) st1 [unfolded m(1)] this(2) st2]
  have "claims ''b'' (mg_graph st2) = claims ''b'' (mg_graph three_entities)" by blast
  moreover have "claims ''b'' (mg_graph three_entities) = Some []" by code_simp
  ultimately show ?thesis using st2 by (simp add: st1 m(2))
qed

section \<open>Splitting again\<close>

text \<open>
  Splitting a merge that was split before makes its loser visible even when another merge has
  absorbed it since: the third entity is merged into the second and split off, then merged into
  the first; splitting the first merge again revives it while the second merge stands.
\<close>

definition split_again :: "merge_store \<Rightarrow> merge_store" where
  "split_again st =
     (let merged = snd (confirmMerge show_nat (\<lambda>s. s) ''rc:2'' ''ann'' 10 st);
          apart = snd (splitMerge (\<lambda>s. s) ''me:0'' ''ann'' 20 merged);
          elsewhere = snd (confirmMerge show_nat (\<lambda>s. s) ''rc:3'' ''ann'' 30 apart) in
      snd (splitMerge (\<lambda>s. s) ''me:0'' ''ann'' 40 elsewhere))"

lemma repeated_split_revives:
  "let st = split_again (three_entities\<lparr>mg_candidates := [proposal ''rc:2'' 1 2, proposal ''rc:3'' 0 2]\<rparr>) in
    map alive_node (nodes (mg_graph st)) = [True, True, True] \<and>
    map (\<lambda>m. (mv_id m, mv_reversedAt m)) (mg_merges st) = [(''me:0'', Some 40), (''me:1'', None)]"
  by code_simp

section \<open>Tags\<close>

text \<open>The writer stores an array as its JSON text, so the tags of a node it wrote are never compared.\<close>

lemma written_tags:
  assumes "nr_tags (nodeFromRow n) = []"
  shows "nr_tags (nodeFromRow (set_content node n)) = []" "nr_tags (nodeFromRow (set_claims cs props n)) = []"
proof -
  have sanitized: "string_array v = []" if "sanitizeProperties props ''tags'' = Some v" for props v
    using that by (auto simp: sanitizeProperties_def starts_with_iff sanitize_value_def string_array_def split: if_splits jsval.splits)
  have "string_array (case add_props m (sanitizeProperties props) ''tags'' of None \<Rightarrow> JNull | Some v \<Rightarrow> v) = []"
    if "string_array (case m ''tags'' of None \<Rightarrow> JNull | Some v \<Rightarrow> v) = []" for m props
    using that sanitized [of props] by (auto simp: add_props_def string_array_def split: option.splits if_splits)
  then show "nr_tags (nodeFromRow (set_content node n)) = []" "nr_tags (nodeFromRow (set_claims cs props n)) = []"
    using assms by (simp_all add: nodeFromRow_def Let_def prop_of_def set_content_def set_claims_def)
qed

end
