(* ===== verification/Spec2Isabelle.thy ===== *)
theory Spec2Isabelle
  imports Writer_Concurrent Agent_Loop_Properties Cypher_Safety Index_Properties Harness_Properties Merge_Properties
begin

text \<open>
  \<^bold>\<open>The program.\<close> ShipIt-AI keeps one graph of a software organisation (repositories, services,
  people, pipelines) from what several sources say about it, and lets people and agents read and
  correct it. Connectors fetch from a source and put events on a bus; the core writer
  (\<open>packages/core-writer\<close>) turns each event into nodes and edges of the graph, keeping for every
  property the claims of the sources and the value that wins; the API server
  (\<open>packages/api-server\<close>) shows the claims and lets a person override or verify them; the agent
  runner (\<open>packages/agent-runner\<close>, with its store in \<open>packages/agents\<close>) lets a language model work
  with tools over the graph; the knowledge layer (\<open>packages/knowledge\<close>) keeps documents of the
  sources in Postgres and indexes them. The development follows these five parts.

  \<^bold>\<open>Conventions.\<close> A TypeScript interface is a record, a union of literals a datatype, an object with
  unknown keys a \<open>jsval\<close> or a map; a value that may be missing is an option. Strings are lists of
  characters (code units below 256). Numbers are exact: counters are \<open>nat\<close>, instants \<open>int\<close>
  milliseconds, scores \<open>rat\<close>, so rounding of the double format has no counterpart. A class with
  state is a record that its operations take and return. Whatever can fail returns a sum, with
  the error on the left, and every call of a database, a tool or a model may fail. One SQL
  statement, one transaction or one graph query is one atomic function; the clock is its argument.
  The code of others (the hash function, the collation of the database, the model, the tools, the
  vector format) is a parameter, with what the program relies on as a named hypothesis or as an
  assumption of a locale that is interpreted on the providers in the code.

  \<^bold>\<open>Foundations.\<close> \<open>Prelude\<close>: untyped values, string functions, the stable \<open>sort\<close>, failing calls
  (locales for what a failing call keeps), lists. \<open>Clock\<close>: ISO timestamps, their parsing and
  printing, the lexical order of timestamps is chronological. \<open>Rows\<close>: SQL statements on a list of
  rows.

  \<^bold>\<open>Claims and scores\<close> (\<open>packages/shared/src/config/source-reliability.ts\<close>, \<open>utils/confidence.ts\<close>,
  \<open>packages/core-writer/src/claims\<close>). \<open>Source_Reliability\<close>: the registry of sources, their rank and
  independence, the comparison of human attestations, a total order up to ties. \<open>Confidence\<close>:
  time decay and the per-field score; the score stays in its interval, a verified field keeps
  its floor, only independent sources corroborate. \<open>Claims\<close>: the five strategies and the resolver;
  merging refines an update of a map from slots to claims, the resolver decides each property
  from exactly its merged claims. \<open>Schema\<close> (\<open>types/schema.ts\<close>): which property has which strategy,
  and the referential check.

  \<^bold>\<open>Identity and delivery\<close> (\<open>packages/shared/src/identity\<close>, \<open>utils/event-version.ts\<close>,
  \<open>packages/core-writer/src\<close>). \<open>Identity\<close>: canonical ids and linking keys with their round trips;
  the interface of the linking-key index as the locale \<open>linking_index\<close> with its two providers;
  the reconciler. \<open>Event_Version\<close>: the version that orders deliveries and the key that
  deduplicates them. \<open>Graph\<close>: each query of \<open>neo4j/queries.ts\<close> as a function of the graph;
  the freshness guard, the comparison of the claims revision, the absence sweep. \<open>Writer\<close>: a batch
  over the interfaces of the writer, with any call failing, and the buffer in front of it; the
  accounts of a batch add up, a failed connector is not swept, a redelivered batch changes
  nothing. \<open>Writer_Concurrent\<close>: the writer among other writers, each of whose transactions may
  commit between two calls; the retry loop (three attempts, \<open>CLAIMS_REV_MAX_RETRIES\<close>) never loses
  a claim another writer stored, nor do the edits of the API server.

  \<^bold>\<open>Reading and editing\<close> (\<open>packages/api-server/src/services\<close>). \<open>Claim_Service\<close>: the claim shown on
  a page is the one the writer materialized. \<open>Claim_Edits\<close>: the locked read-modify-write, manual
  overrides, verification and reviews; an override wins and can be reverted exactly, a decided
  review leaves the queue.

  \<^bold>\<open>Duplicate entities\<close> (\<open>packages/api-server/src/services/string-similarity.ts\<close>,
  \<open>reconciliation-service.ts\<close>). \<open>String_Similarity\<close>: Jaro-Winkler, trigrams, sets and the score of
  a pair; an unbounded inner search is an option, and every pair is shown to have a score between 0
  and 1. \<open>Entity_Merge\<close>: the scan, the decisions on its candidates, merging and splitting.
  \<open>Merge_Properties\<close>: a merge keeps what people said, a split undoes it exactly; two merges in a
  row can hide an override.

  \<^bold>\<open>Caller-written queries\<close> (\<open>packages/shared/src/cypher/read-only-guard.ts\<close>). \<open>Cypher_Guard\<close>: the
  reader and the verdict. \<open>Cypher_Safety\<close>: the loop accepts exactly the queries whose tokens are
  innocent at every position, a definition that is not a loop.

  \<^bold>\<open>Agents.\<close> \<open>Agent_Policy\<close> (\<open>packages/agents/src/definition.ts\<close>, \<open>tools.ts\<close>): which tools an agent
  may use without a person. \<open>Run_Store\<close> (\<open>packages/agents/src/run-store.ts\<close>): every statement of
  the store of runs. \<open>Run_Lifecycle\<close>: the store as a step relation over all workers and servers, its
  invariant by rule induction, leases, endings, audit rows, no stuck run. \<open>Agent_Loop\<close>
  (\<open>packages/agent-runner/src/loop/agent-loop.ts\<close>): one job of a worker, from the claim to its
  ending; the model and the tools are arguments, and before each awaited call of the loop the
  world may have taken store steps of others (a list of ticks, an argument). \<open>Agent_Loop_Frames\<close>: Hoare
  triples and a chain of locales that follow a relation through the composite actions once; each
  property instantiates it for the primitive actions. \<open>Agent_Loop_Safety\<close>: over all jobs a write is
  run at most once. \<open>Agent_Loop_Bounds\<close>: the number of model calls, and termination: the loop is
  modelled with fuel, and \<open>(ticks + 1) * (3 * maxSteps + 3)\<close> is proved to be enough, as each
  pass either ends the run, adds a model step, answers the open calls, adds the one step-limit
  note, or was interrupted by a tick. \<open>Agent_Loop_Properties\<close>: the properties, with a worked run.

  \<^bold>\<open>Knowledge.\<close> \<open>Knowledge_Store\<close> (\<open>packages/knowledge/src/store.ts\<close>): every operation on containers,
  documents, chunks and people. \<open>Knowledge_Safety\<close>: the operations as a step relation of sinks,
  index workers, purges and admins, and the invariant every history keeps. \<open>Knowledge_Properties\<close>: deleted
  and restricted text is gone, no document is stuck, deselection stops runs, what a listing
  prunes, the life of a connector id, and a history that loses a document.

  \<^bold>\<open>Indexing\<close> (\<open>packages/knowledge/src/chunking.ts\<close>, \<open>index-pipeline.ts\<close>, \<open>embedder.ts\<close>,
  \<open>vector.ts\<close>, \<open>index-loop.ts\<close>). \<open>Chunking\<close>: a document becomes chunks; the cut of a text that is too
  long is a loop that may not end for a ceiling of 0, a \<open>partial_function\<close>, and
  \<open>Chunking_Properties\<close> shows that it ends for every other ceiling, loses nothing and keeps its
  bounds. \<open>Index_Pipeline\<close>: one document from its claim to its chunks, with the retries of the
  embedder (5 attempts), and a batch of claimed documents; others commit at every awaited call.
  \<open>Index_Properties\<close>: a document reported as indexed has the chunks and vectors of the content that
  was claimed, and the number of requests is bounded.

  \<^bold>\<open>Connector runs\<close> (\<open>packages/knowledge/src/redaction.ts\<close>, \<open>sink.ts\<close>,
  \<open>packages/connector-sdk/src/knowledge\<close>). \<open>Knowledge_Sink\<close>: redaction of texts, documents and JSON
  values, and the sink over the store. \<open>Sink_Properties\<close>: redaction cuts exactly what the linter
  reported, what the sink stores is redacted. \<open>Knowledge_Harness\<close>: one poll or reconcile, with the
  connector as a parameter that may yield anything and throw anywhere. \<open>Harness_Frames\<close>: a locale
  follows a relation through a whole run once. \<open>Harness_Turns\<close>: each container has its turn.
  \<open>Harness_Properties\<close>: the locale for relations between stores with its interpretations: a run is a
  history of the store, keeps the tables well formed and the text redacted, leaves the cursors of
  the poll, and deletes nothing that the source lists.

  \<^bold>\<open>Not modelled.\<close> HTTP routes and request validation (\<open>zod\<close> schemas), sessions and sign-in, the
  web interface, the loading and printing of configuration, secrets, the message bus and its
  queues, the clients of Vertex, GitHub and Kubernetes, logging, metrics, start-up code and
  scripts: input and output around the parts above. Of the index worker the waiting loop with
  its wake-ups and heartbeat is left out: timers without effect on the store. The schedulers of
  connector runs are timers and a job queue around the runs. The reads of the graph and the tools
  of the MCP server are texts executed by the database; the editing of relations, teams, feedback
  and settings are a statement or two behind a route. The normalizers of the connectors map the
  answers of one API each.
\<close>

end
